(* ===== verification/HK_Prelude.thy ===== *)
theory HK_Prelude
  imports Main "HOL-Library.Word" "HOL-Library.Monad_Syntax"
begin

text \<open>
  Shared vocabulary of the development.

  The C integer types the sources use are words of their width. A CAmkES dataport (a shared
  memory region of hk_system.camkes) is a partial map from byte offsets to bytes whose domain
  is the mapped range: an access outside the domain is a page fault and is the value
  \<^term>\<open>None\<close> of every operation that performs it. The byte loops of memcpy and memset, the
  little-endian stores of 32-bit integers (x86_64) and the lemmas that turn them into
  closed forms are here, with the collections of simplification rules the component theories
  fill.
\<close>

unbundle bit_operations_syntax

type_synonym u8 = "8 word"
type_synonym u16 = "16 word"
type_synonym u32 = "32 word"
type_synonym u64 = "64 word"

text \<open>A C \<^verbatim>\<open>int\<close> is a 32-bit word read in two's complement (\<^const>\<open>sint\<close>).\<close>

type_synonym c_int = "32 word"

type_synonym region = "nat \<rightharpoonup> u8"

named_theorems hk_defs \<open>unfolding of the component operations\<close>
named_theorems region_simps \<open>closed forms of the byte loops\<close>

section \<open>Regions\<close>

definition region_zero :: "nat \<Rightarrow> region" where
  "region_zero n = (\<lambda>i. if i < n then Some 0 else None)"

definition store8 :: "region \<Rightarrow> nat \<Rightarrow> u8 \<Rightarrow> region option" where
  "store8 r i b = (case r i of None \<Rightarrow> None | Some _ \<Rightarrow> Some (r(i \<mapsto> b)))"

text \<open>The byte loop of memcpy: copy \<open>n\<close> bytes from offset \<open>i\<close> of \<open>src\<close> to the same
  offset of \<open>dst\<close>; every call in the sources copies between the starts of two regions.\<close>

fun memcpy_from :: "nat \<Rightarrow> nat \<Rightarrow> region \<Rightarrow> region \<Rightarrow> region option" where
  "memcpy_from i 0 dst src = Some dst"
| "memcpy_from i (Suc n) dst src =
     do { b \<leftarrow> src i; dst' \<leftarrow> store8 dst i b; memcpy_from (Suc i) n dst' src }"

definition c_memcpy :: "region \<Rightarrow> region \<Rightarrow> nat \<Rightarrow> region option" where
  "c_memcpy dst src n = memcpy_from 0 n dst src"

text \<open>The byte loop of memset from offset 0.\<close>

fun memset_from :: "nat \<Rightarrow> nat \<Rightarrow> u8 \<Rightarrow> region \<Rightarrow> region option" where
  "memset_from i 0 b dst = Some dst"
| "memset_from i (Suc n) b dst = do { dst' \<leftarrow> store8 dst i b; memset_from (Suc i) n b dst' }"

definition c_memset :: "region \<Rightarrow> u8 \<Rightarrow> nat \<Rightarrow> region option" where
  "c_memset dst b n = memset_from 0 n b dst"

fun store_bytes :: "region \<Rightarrow> nat \<Rightarrow> u8 list \<Rightarrow> region option" where
  "store_bytes r off [] = Some r"
| "store_bytes r off (b # bs) = do { r' \<leftarrow> store8 r off b; store_bytes r' (Suc off) bs }"

fun load_bytes :: "region \<Rightarrow> nat \<Rightarrow> nat \<Rightarrow> u8 list option" where
  "load_bytes r off 0 = Some []"
| "load_bytes r off (Suc n) = do { b \<leftarrow> r off; bs \<leftarrow> load_bytes r (Suc off) n; Some (b # bs) }"

definition mapped :: "region \<Rightarrow> nat \<Rightarrow> nat \<Rightarrow> bool" where
  "mapped r lo hi \<longleftrightarrow> (\<forall>i. lo \<le> i \<and> i < hi \<longrightarrow> r i \<noteq> None)"

section \<open>Little-endian 32-bit integers\<close>

definition le32 :: "u32 \<Rightarrow> u8 list" where
  "le32 w = [ucast w, ucast (drop_bit 8 w), ucast (drop_bit 16 w), ucast (drop_bit 24 w)]"

fun of_le32 :: "u8 list \<Rightarrow> u32" where
  "of_le32 [b0, b1, b2, b3] =
     ucast b0 OR push_bit 8 (ucast b1) OR push_bit 16 (ucast b2) OR push_bit 24 (ucast b3)"
| "of_le32 _ = 0"

text \<open>\<^verbatim>\<open>((uint32_t *)r)[k] = w\<close> and the corresponding read.\<close>

definition store_word32 :: "region \<Rightarrow> nat \<Rightarrow> u32 \<Rightarrow> region option" where
  "store_word32 r k w = store_bytes r (4 * k) (le32 w)"

definition load_word32 :: "region \<Rightarrow> nat \<Rightarrow> u32 option" where
  "load_word32 r k = map_option of_le32 (load_bytes r (4 * k) 4)"

section \<open>Closed forms\<close>

lemma region_zero_apply [simp]: "region_zero n i = (if i < n then Some 0 else None)"
  by (simp add: region_zero_def)

lemma mapped_region_zero [simp]: "mapped (region_zero n) lo hi \<longleftrightarrow> hi \<le> lo \<or> hi \<le> n"
proof (cases "hi \<le> lo \<or> hi \<le> n")
  case True
  then show ?thesis by (auto simp: mapped_def)
next
  case False
  then have "\<not> mapped (region_zero n) lo hi"
    by (auto simp: mapped_def intro!: exI [of _ "hi - 1"])
  with False show ?thesis by simp
qed


lemma mapped_empty [simp]: "n \<le> lo \<Longrightarrow> mapped r lo n"
  by (auto simp: mapped_def)

lemma mapped_Suc: "lo < hi \<Longrightarrow> mapped r lo hi \<longleftrightarrow> r lo \<noteq> None \<and> mapped r (Suc lo) hi"
  unfolding mapped_def by (metis Suc_leI Suc_le_eq le_eq_less_or_eq)

lemma mapped_upd [simp]: "r i \<noteq> None \<Longrightarrow> mapped (r(i \<mapsto> b)) lo hi = mapped r lo hi"
  by (auto simp: mapped_def)

lemma mapped_subrange: "mapped r lo hi \<Longrightarrow> lo \<le> lo' \<Longrightarrow> hi' \<le> hi \<Longrightarrow> mapped r lo' hi'"
  by (auto simp: mapped_def)

lemma mappedD: "mapped r lo hi \<Longrightarrow> lo \<le> i \<Longrightarrow> i < hi \<Longrightarrow> \<exists>b. r i = Some b"
  by (auto simp: mapped_def)

lemma store8_Some [simp]: "r i = Some b0 \<Longrightarrow> store8 r i b = Some (r(i \<mapsto> b))"
  by (simp add: store8_def)

lemma store8_None [simp]: "r i = None \<Longrightarrow> store8 r i b = None"
  by (simp add: store8_def)

lemma memcpy_from_closed:
  "memcpy_from i n dst src =
     (if mapped src i (i + n) \<and> mapped dst i (i + n)
      then Some (\<lambda>j. if i \<le> j \<and> j < i + n then src j else dst j) else None)"
proof (induction n arbitrary: i dst)
  case 0
  then show ?case by (auto simp: fun_eq_iff)
next
  case (Suc n)
  show ?case
  proof (cases "src i = None \<or> dst i = None")
    case True
    then show ?thesis by (cases "src i") (auto simp: mapped_Suc)
  next
    case False
    then obtain b c where bc: "src i = Some b" "dst i = Some c" by auto
    have "(\<lambda>j. if Suc i \<le> j \<and> j < Suc (i + n) then src j else (dst(i \<mapsto> b)) j)
        = (\<lambda>j. if i \<le> j \<and> j < Suc (i + n) then src j else dst j)"
      using bc by (auto simp: fun_eq_iff)
    with bc show ?thesis
      by (simp add: Suc.IH mapped_Suc [of i "Suc (i + n)"])
  qed
qed

lemma c_memcpy_closed [region_simps]:
  "c_memcpy dst src n =
     (if mapped src 0 n \<and> mapped dst 0 n
      then Some (\<lambda>j. if j < n then src j else dst j) else None)"
  by (simp add: c_memcpy_def memcpy_from_closed)

lemma memset_from_closed:
  "memset_from i n b dst =
     (if mapped dst i (i + n)
      then Some (\<lambda>j. if i \<le> j \<and> j < i + n then Some b else dst j) else None)"
proof (induction n arbitrary: i dst)
  case 0
  then show ?case by (auto simp: fun_eq_iff)
next
  case (Suc n)
  show ?case
  proof (cases "dst i")
    case None
    then show ?thesis by (simp add: mapped_Suc)
  next
    case (Some c)
    have "(\<lambda>j. if Suc i \<le> j \<and> j < Suc (i + n) then Some b else (dst(i \<mapsto> b)) j)
        = (\<lambda>j. if i \<le> j \<and> j < Suc (i + n) then Some b else dst j)"
      by (auto simp: fun_eq_iff)
    with Some show ?thesis
      by (simp add: Suc.IH mapped_Suc [of i "Suc (i + n)"] del: fun_upd_apply)
  qed
qed

lemma c_memset_closed [region_simps]:
  "c_memset dst b n =
     (if mapped dst 0 n then Some (\<lambda>j. if j < n then Some b else dst j) else None)"
  by (simp add: c_memset_def memset_from_closed)

lemma store_bytes_append:
  "store_bytes r off (xs @ ys) = do { r' \<leftarrow> store_bytes r off xs; store_bytes r' (off + length xs) ys }"
  by (induction xs arbitrary: r off) (simp_all add: bind_assoc)

lemma store_bytes_closed [region_simps]:
  "store_bytes r off bs =
     (if mapped r off (off + length bs)
      then Some (\<lambda>j. if off \<le> j \<and> j < off + length bs then Some (bs ! (j - off)) else r j)
      else None)"
proof (induction bs arbitrary: off r)
  case Nil
  then show ?case by (auto simp: fun_eq_iff)
next
  case (Cons b bs)
  show ?case
  proof (cases "r off")
    case None
    then show ?thesis by (simp add: mapped_Suc)
  next
    case (Some c)
    have "(\<lambda>j. if Suc off \<le> j \<and> j < Suc (off + length bs)
               then Some (bs ! (j - Suc off)) else (r(off \<mapsto> b)) j)
        = (\<lambda>j. if off \<le> j \<and> j < Suc (off + length bs) then Some ((b # bs) ! (j - off)) else r j)"
      by (auto simp: fun_eq_iff nth_Cons')
    with Some show ?thesis
      by (simp add: Cons.IH mapped_Suc [of off "Suc (off + length bs)"])
  qed
qed

lemma load_bytes_closed [region_simps]:
  "load_bytes r off n =
     (if mapped r off (off + n) then Some (map (\<lambda>j. the (r j)) [off ..< off + n]) else None)"
proof (induction n arbitrary: off)
  case 0
  then show ?case by simp
next
  case (Suc n)
  show ?case
  proof (cases "r off")
    case None
    then show ?thesis by (simp add: mapped_Suc)
  next
    case (Some c)
    then show ?thesis
      by (simp add: Suc.IH mapped_Suc [of off "Suc (off + n)"] upt_conv_Cons
            del: upt_Suc)
  qed
qed

lemma length_le32 [simp]: "length (le32 w) = 4"
  by (simp add: le32_def)

lemma of_le32_le32 [simp]: "of_le32 (le32 w) = w"
  by (rule bit_word_eqI)
     (auto simp: le32_def bit_or_iff bit_push_bit_iff bit_drop_bit_eq bit_ucast_iff not_le less_diff_conv2,
      metis le_add_diff_inverse not_less)

lemma le32_inject [simp]: "le32 v = le32 w \<longleftrightarrow> v = w"
  by (metis of_le32_le32)

lemma load_store_bytes:
  assumes "store_bytes r off bs = Some r'"
  shows "load_bytes r' off (length bs) = Some bs"
proof -
  from assms have m: "mapped r off (off + length bs)"
    and r': "r' = (\<lambda>j. if off \<le> j \<and> j < off + length bs then Some (bs ! (j - off)) else r j)"
    by (auto simp: store_bytes_closed split: if_splits)
  have "mapped r' off (off + length bs)" by (simp add: r' mapped_def)
  moreover have "map (\<lambda>j. the (r' j)) [off ..< off + length bs] = bs"
    by (rule nth_equalityI) (auto simp: r')
  ultimately show ?thesis by (simp add: load_bytes_closed)
qed

lemma load_store_word32_same:
  "store_word32 r k w = Some r' \<Longrightarrow> load_word32 r' k = Some w"
  using load_store_bytes [of r "4 * k" "le32 w" r']
  by (simp add: store_word32_def load_word32_def)

lemma load_store_word32_other:
  assumes "store_word32 r k w = Some r'" and "j \<noteq> k"
  shows "load_word32 r' j = load_word32 r j"
proof -
  have eq: "r' i = r i" if "4 * j \<le> i" "i < 4 * j + 4" for i
    using that assms
    by (cases "j < k") (auto simp: store_word32_def store_bytes_closed split: if_splits)
  then have "mapped r' (4 * j) (4 * j + 4) = mapped r (4 * j) (4 * j + 4)"
    by (auto simp: mapped_def)
  moreover have "map (\<lambda>i. the (r' i)) [4 * j ..< 4 * j + 4] = map (\<lambda>i. the (r i)) [4 * j ..< 4 * j + 4]"
    using eq by (intro map_cong) auto
  ultimately show ?thesis
    unfolding load_word32_def load_bytes_closed by (simp only:)
qed

lemma store_word32_succeeds:
  "mapped r (4 * k) (4 * k + 4) \<Longrightarrow> \<exists>r'. store_word32 r k w = Some r'"
  by (simp add: store_word32_def store_bytes_closed)

lemma store_word32_mapped:
  "store_word32 r k w = Some r' \<Longrightarrow> mapped r' lo hi = mapped r lo hi"
  by (auto simp: store_word32_def store_bytes_closed mapped_def split: if_splits)

lemma ucast_u8_u32_inject:
  assumes "(ucast (b :: u8) :: u32) = ucast c"
  shows "b = c"
proof (rule bit_word_eqI)
  fix n
  assume n: "n < LENGTH(8)"
  have "bit (ucast b :: u32) n = bit (ucast c :: u32) n" by (simp add: assms)
  with n show "bit b n = bit c n" by (simp add: bit_ucast_iff)
qed

end
