(* ===== verification/HK_Jenkins.thy ===== *)
theory HK_Jenkins
  imports HK_Prelude
begin

text \<open>
  The Jenkins one-at-a-time hash. The same loop is written out three times in the sources
  (dispatcher.c, repository.c, worker.c); each component theory translates its own copy and
  proves it equal to the byte-list function \<open>jenkins\<close> of this theory. The lemmas
  here are about that function: every round is a permutation of the 32-bit state, so a change
  of exactly one byte always changes the hash, while leading zero bytes never do.
\<close>

definition jenkins_step :: "u32 \<Rightarrow> u8 \<Rightarrow> u32" where
  "jenkins_step hash b =
     (let hash = hash + ucast b;
          hash = hash + push_bit 10 hash
      in hash XOR drop_bit 6 hash)"

definition jenkins_final :: "u32 \<Rightarrow> u32" where
  "jenkins_final hash =
     (let hash = hash + push_bit 3 hash;
          hash = hash XOR drop_bit 11 hash
      in hash + push_bit 15 hash)"

definition jenkins :: "u8 list \<Rightarrow> u32" where
  "jenkins bs = jenkins_final (foldl jenkins_step 0 bs)"

section \<open>Each round is injective\<close>

lemma xorshift_inject:
  fixes x y :: "'a::len word"
  assumes k: "0 < k" and eq: "x XOR drop_bit k x = y XOR drop_bit k y"
  shows "x = y"
proof (rule bit_word_eqI)
  fix n
  assume "n < LENGTH('a)"
  then show "bit x n = bit y n"
  proof (induction "LENGTH('a) - n" arbitrary: n rule: less_induct)
    case less
    have "bit (x XOR drop_bit k x) n = bit (y XOR drop_bit k y) n"
      by (simp add: eq)
    then have *: "(bit x n \<noteq> bit x (k + n)) = (bit y n \<noteq> bit y (k + n))"
      by (simp add: bit_xor_iff bit_drop_bit_eq)
    show ?case
    proof (cases "k + n < LENGTH('a)")
      case True
      with less k have "bit x (k + n) = bit y (k + n)" by simp
      with * show ?thesis by blast
    next
      case False
      then have "\<not> bit x (k + n)" "\<not> bit y (k + n)"
        by (auto dest: bit_imp_le_length)
      with * show ?thesis by blast
    qed
  qed
qed

lemma shift_add_mult:
  fixes x :: "'a::len word"
  shows "x + push_bit k x = x * (1 + 2 ^ k)"
  by (simp add: push_bit_eq_mult algebra_simps)

lemma shift_add_inject:
  fixes x y :: "'a::len word"
  assumes inv: "(1 + 2 ^ k) * c = (1 :: 'a word)" and eq: "x + push_bit k x = y + push_bit k y"
  shows "x = y"
proof -
  have "x * (1 + 2 ^ k) * c = y * (1 + 2 ^ k) * c"
    using eq by (simp add: shift_add_mult)
  then show ?thesis by (simp add: mult.assoc inv)
qed

lemma shift_add_10_inject: "(x :: u32) + push_bit 10 x = y + push_bit 10 y \<Longrightarrow> x = y"
  by (rule shift_add_inject [where k = 10 and c = 3222273025]) simp_all

lemma shift_add_3_inject: "(x :: u32) + push_bit 3 x = y + push_bit 3 y \<Longrightarrow> x = y"
  by (rule shift_add_inject [where k = 3 and c = 954437177]) simp_all

lemma shift_add_15_inject: "(x :: u32) + push_bit 15 x = y + push_bit 15 y \<Longrightarrow> x = y"
  by (rule shift_add_inject [where k = 15 and c = 1073709057]) simp_all

lemma jenkins_step_inject_hash: "jenkins_step h b = jenkins_step h' b \<Longrightarrow> h = h'"
  by (auto simp: jenkins_step_def Let_def dest!: xorshift_inject [rotated] shift_add_10_inject)

lemma jenkins_step_inject_byte: "jenkins_step h b = jenkins_step h c \<Longrightarrow> b = c"
  by (auto simp: jenkins_step_def Let_def dest!: xorshift_inject [rotated] shift_add_10_inject
        ucast_u8_u32_inject)

lemma jenkins_final_inject: "jenkins_final h = jenkins_final h' \<Longrightarrow> h = h'"
  unfolding jenkins_final_def Let_def
  by (drule shift_add_15_inject, drule xorshift_inject [rotated], simp, erule shift_add_3_inject)

lemma jenkins_fold_inject:
  "foldl jenkins_step h bs = foldl jenkins_step h' bs \<Longrightarrow> h = h'"
  by (induction bs arbitrary: h h') (auto dest: jenkins_step_inject_hash)

lemma jenkins_update_neq:
  assumes "i < length bs" and "b \<noteq> bs ! i"
  shows "jenkins (bs[i := b]) \<noteq> jenkins bs"
proof
  assume "jenkins (bs[i := b]) = jenkins bs"
  then have "foldl jenkins_step 0 (bs[i := b]) = foldl jenkins_step 0 bs"
    unfolding jenkins_def by (rule jenkins_final_inject)
  then have "foldl jenkins_step 0 (take i bs @ b # drop (Suc i) bs)
           = foldl jenkins_step 0 (take i bs @ bs ! i # drop (Suc i) bs)"
    using assms(1) by (simp only: upd_conv_take_nth_drop id_take_nth_drop [symmetric])
  then have "jenkins_step (foldl jenkins_step 0 (take i bs)) b
           = jenkins_step (foldl jenkins_step 0 (take i bs)) (bs ! i)"
    by (auto dest: jenkins_fold_inject)
  then show False using assms(2) by (auto dest: jenkins_step_inject_byte)
qed

lemma jenkins_step_zero [simp]: "jenkins_step 0 0 = 0"
  by (simp add: jenkins_step_def)

lemma jenkins_leading_zeros: "jenkins (replicate n 0 @ bs) = jenkins bs"
proof -
  have "foldl jenkins_step 0 (replicate n 0) = 0" by (induction n) simp_all
  then show ?thesis by (simp add: jenkins_def)
qed

end
