(* ===== verification/HK_State.thy ===== *)
theory HK_State
  imports HK_Prelude
begin

text \<open>
  The state of the assembled system (hk_system.camkes): the file-scope variables of each
  component and the shared memory regions. A seL4SharedData connection makes two dataports
  one region, so each region is one field here:

  \<^item> \<open>guest_ram\<close>: Generator and Dispatcher \<^verbatim>\<open>guest_ram\<close> (64 MB);
  \<^item> \<open>gen_buf\<close>: the Generator's output buffer, the Repository's \<^verbatim>\<open>gen_input_buf\<close> (16 MB);
  \<^item> \<open>metadata\<close>: the Repository's \<^verbatim>\<open>secure_storage\<close>, the Dispatcher's \<^verbatim>\<open>repo_storage\<close> (16 MB);
  \<^item> \<open>arena\<close>: the Dispatcher's \<^verbatim>\<open>worker_arena\<close>, the Worker's \<^verbatim>\<open>executable_arena\<close> (4 KB);
  \<^item> \<open>disk\<close>: the Worker's \<^verbatim>\<open>fs_buffer\<close>, the file server's \<^verbatim>\<open>virtual_disk_arena\<close> (1 MB).

  Procedure calls over seL4RPCCall block the caller until the callee returns, so a handler that
  calls another component is the composition of the two handlers on this state.
\<close>

text \<open>The random number generator of the Generator (generator.c, lines 24-27).\<close>

record csprng =
  chacha_state :: "u32 list"
  chacha_stream :: "u32 list"
  chacha_index :: nat
  is_csprng_ready :: bool

record hk_state =
  rng :: csprng
  guest_ram :: region
  gen_buf :: region
  metadata :: region
  arena :: region
  disk :: region
  total_mutations_count :: c_int
  current_active_variant :: c_int
  current_quantum_ms :: u32
  disk_offset :: u32

definition csprng_boot :: csprng where
  "csprng_boot = \<lparr>chacha_state = replicate 16 0, chacha_stream = replicate 16 0,
                  chacha_index = 16, is_csprng_ready = False\<rparr>"

text \<open>Static initialisers of the components; the regions are zeroed frames at boot.\<close>

definition hk_boot :: hk_state where
  "hk_boot = \<lparr>rng = csprng_boot,
     guest_ram = region_zero 67108864, gen_buf = region_zero 16777216,
     metadata = region_zero 16777216, arena = region_zero 4096, disk = region_zero 1048576,
     total_mutations_count = 0, current_active_variant = 0,
     current_quantum_ms = 500, disk_offset = 0\<rparr>"

text \<open>Every region keeps the extent the assembly gives it.\<close>

definition regions_ok :: "hk_state \<Rightarrow> bool" where
  "regions_ok s \<longleftrightarrow>
     dom (guest_ram s) = {..<67108864} \<and> dom (gen_buf s) = {..<16777216}
     \<and> dom (metadata s) = {..<16777216} \<and> dom (arena s) = {..<4096}
     \<and> dom (disk s) = {..<1048576}"

text \<open>\<^verbatim>\<open>(size_t)size\<close> for an int: sign extension to 64 bits.\<close>

definition size_t_of_int :: "c_int \<Rightarrow> nat" where
  "size_t_of_int n = unat (scast n :: u64)"

lemma dom_region_zero [simp]: "dom (region_zero n) = {..<n}"
  by (auto simp: dom_def)

lemma regions_ok_boot: "regions_ok hk_boot"
  by (simp add: regions_ok_def hk_boot_def)

lemma mapped_dom: "mapped r lo hi \<longleftrightarrow> {lo..<hi} \<subseteq> dom r"
  by (auto simp: mapped_def dom_def)

lemma mapped_of_dom: "dom r = {..<n} \<Longrightarrow> mapped r lo hi \<longleftrightarrow> hi \<le> lo \<or> hi \<le> n"
proof -
  assume d: "dom r = {..<n}"
  have "{lo..<hi} \<subseteq> {..<n} \<longleftrightarrow> hi \<le> lo \<or> hi \<le> n"
  proof (cases "lo < hi")
    case True
    then have "hi - 1 \<in> {lo..<hi}" by auto
    then show ?thesis by auto
  qed auto
  with d show ?thesis by (simp add: mapped_dom)
qed

lemma dom_store_bytes: "store_bytes r off bs = Some r' \<Longrightarrow> dom r' = dom r"
  by (auto simp: store_bytes_closed mapped_def dom_def split: if_splits)

lemma dom_store_word32: "store_word32 r k w = Some r' \<Longrightarrow> dom r' = dom r"
  by (simp add: store_word32_def dom_store_bytes)

lemma dom_c_memcpy: "c_memcpy d s n = Some d' \<Longrightarrow> dom d' = dom d"
  by (auto simp: c_memcpy_closed mapped_def dom_def split: if_splits)

lemma size_t_of_int_nonneg: "n < 2147483648 \<Longrightarrow> size_t_of_int (of_nat n) = n"
proof -
  assume n: "n < 2147483648"
  then have "sint (of_nat n :: c_int) = int n"
    by (simp add: signed_of_nat signed_take_bit_int_eq_self)
  then have "(scast (of_nat n :: c_int) :: u64) = of_nat n"
    by (metis of_int_of_nat_eq scast_eq)
  with n show ?thesis by (simp add: size_t_of_int_def unat_of_nat)
qed

end
