(* ===== verification/HK_Sha256.thy ===== *)
theory HK_Sha256
  imports HK_Prelude
begin

text \<open>
  The SHA-256 implementation inside the fTPM (tpm.c, lines 17-115): the macros, the round
  constants, the context structure and the four functions sha256_transform, sha256_init,
  sha256_update and sha256_final. The reference is the padding and the block iteration of
  FIPS 180-4, written on byte lists; the streaming code is proved equal to it for every message.

  The context is updated by index as in C; the lemma \<open>sha_repr_update\<close> shows that the index
  datalen stays below 64, so no write leaves the 64-byte buffer.
\<close>

section \<open>The implementation\<close>

definition ROTR :: "u32 \<Rightarrow> nat \<Rightarrow> u32" where
  "ROTR x n = (drop_bit n x OR push_bit (32 - n) x)"

definition CH :: "u32 \<Rightarrow> u32 \<Rightarrow> u32 \<Rightarrow> u32" where
  "CH x y z = ((x AND y) XOR (NOT x AND z))"

definition MAJ :: "u32 \<Rightarrow> u32 \<Rightarrow> u32 \<Rightarrow> u32" where
  "MAJ x y z = ((x AND y) XOR (x AND z) XOR (y AND z))"

definition EP0 :: "u32 \<Rightarrow> u32" where
  "EP0 x = (ROTR x 2 XOR ROTR x 13 XOR ROTR x 22)"

definition EP1 :: "u32 \<Rightarrow> u32" where
  "EP1 x = (ROTR x 6 XOR ROTR x 11 XOR ROTR x 25)"

definition SIG0 :: "u32 \<Rightarrow> u32" where
  "SIG0 x = (ROTR x 7 XOR ROTR x 18 XOR drop_bit 3 x)"

definition SIG1 :: "u32 \<Rightarrow> u32" where
  "SIG1 x = (ROTR x 17 XOR ROTR x 19 XOR drop_bit 10 x)"

text \<open>The round constants, in the rows of the source.\<close>

definition sha256_k :: "u32 list" where
  "sha256_k = concat [
    [0x428a2f98, 0x71374491, 0xb5c0fbcf, 0xe9b5dba5, 0x3956c25b, 0x59f111f1, 0x923f82a4, 0xab1c5ed5],
    [0xd807aa98, 0x12835b01, 0x243185be, 0x550c7dc3, 0x72be5d74, 0x80deb1fe, 0x9bdc06a7, 0xc19bf174],
    [0xe49b69c1, 0xefbe4786, 0x0fc19dc6, 0x240ca1cc, 0x2de92c6f, 0x4a7484aa, 0x5cb0a9dc, 0x76f988da],
    [0x983e5152, 0xa831c66d, 0xb00327c8, 0xbf597fc7, 0xc6e00bf3, 0xd5a79147, 0x06ca6351, 0x14292967],
    [0x27b70a85, 0x2e1b2138, 0x4d2c6dfc, 0x53380d13, 0x650a7354, 0x766a0abb, 0x81c2c92e, 0x92722c85],
    [0xa2bfe8a1, 0xa81a664b, 0xc24b8b70, 0xc76c51a3, 0xd192e819, 0xd6990624, 0xf40e3585, 0x106aa070],
    [0x19a4c116, 0x1e376c08, 0x2748774c, 0x34b0bcb5, 0x391c0cb3, 0x4ed8aa4a, 0x5b9cca4f, 0x682e6ff3],
    [0x748f82ee, 0x78a5636f, 0x84c87814, 0x8cc70208, 0x90befffa, 0xa4506ceb, 0xbef9a3f7, 0xc67178f2]]"

record SHA256_CTX =
  ctx_data :: "u8 list"
  ctx_datalen :: u32
  ctx_bitlen :: u64
  ctx_state :: "u32 list"

text \<open>The first loop of the transform: sixteen big-endian words of the block.\<close>

definition block_word :: "u8 list \<Rightarrow> nat \<Rightarrow> u32" where
  "block_word data j =
     (push_bit 24 (ucast (data ! j)) OR push_bit 16 (ucast (data ! (j + 1)))
      OR push_bit 8 (ucast (data ! (j + 2))) OR ucast (data ! (j + 3)))"

text \<open>The second loop: \<open>n\<close> further words of the message schedule.\<close>

fun schedule_extend :: "nat \<Rightarrow> u32 list \<Rightarrow> u32 list" where
  "schedule_extend 0 m = m"
| "schedule_extend (Suc n) m =
     (let i = length m in
      schedule_extend n (m @ [SIG1 (m ! (i - 2)) + m ! (i - 7) + SIG0 (m ! (i - 15)) + m ! (i - 16)]))"

type_synonym sha_vars = "u32 \<times> u32 \<times> u32 \<times> u32 \<times> u32 \<times> u32 \<times> u32 \<times> u32"

text \<open>One iteration of the third loop, with the round constant and the schedule word.\<close>

fun sha_round :: "sha_vars \<Rightarrow> u32 \<times> u32 \<Rightarrow> sha_vars" where
  "sha_round (a, b, c, d, e, f, g, h) (k, m) =
     (let t1 = h + EP1 e + CH e f g + k + m;
          t2 = EP0 a + MAJ a b c
      in (t1 + t2, a, b, c, d + t1, e, f, g))"

definition sha256_transform :: "SHA256_CTX \<Rightarrow> u8 list \<Rightarrow> SHA256_CTX" where
  "sha256_transform ctx data =
     (let m = schedule_extend 48 (map (\<lambda>i. block_word data (4 * i)) [0..<16]);
          s = ctx_state ctx;
          (a, b, c, d, e, f, g, h) =
            foldl sha_round (s ! 0, s ! 1, s ! 2, s ! 3, s ! 4, s ! 5, s ! 6, s ! 7) (zip sha256_k m)
      in ctx\<lparr>ctx_state := [s ! 0 + a, s ! 1 + b, s ! 2 + c, s ! 3 + d,
                            s ! 4 + e, s ! 5 + f, s ! 6 + g, s ! 7 + h]\<rparr>)"

definition sha256_iv :: "u32 list" where
  "sha256_iv = [0x6a09e667, 0xbb67ae85, 0x3c6ef372, 0xa54ff53a,
                0x510e527f, 0x9b05688c, 0x1f83d9ab, 0x5be0cd19]"

text \<open>sha256_init leaves the data buffer as it is on the stack.\<close>

definition sha256_init :: "SHA256_CTX \<Rightarrow> SHA256_CTX" where
  "sha256_init ctx = ctx\<lparr>ctx_datalen := 0, ctx_bitlen := 0, ctx_state := sha256_iv\<rparr>"

text \<open>The body of the loop of sha256_update, for one byte of input.\<close>

definition sha256_update_byte :: "SHA256_CTX \<Rightarrow> u8 \<Rightarrow> SHA256_CTX" where
  "sha256_update_byte ctx b =
     (let ctx = ctx\<lparr>ctx_data := (ctx_data ctx)[unat (ctx_datalen ctx) := b],
                    ctx_datalen := ctx_datalen ctx + 1\<rparr>
      in if ctx_datalen ctx = 64
         then (let ctx = sha256_transform ctx (ctx_data ctx)
               in ctx\<lparr>ctx_bitlen := ctx_bitlen ctx + 512, ctx_datalen := 0\<rparr>)
         else ctx)"

fun sha256_update :: "SHA256_CTX \<Rightarrow> u8 list \<Rightarrow> SHA256_CTX" where
  "sha256_update ctx [] = ctx"
| "sha256_update ctx (b # bs) = sha256_update (sha256_update_byte ctx b) bs"

text \<open>\<^verbatim>\<open>memset(data + off, 0, n)\<close> inside the 64-byte buffer.\<close>

definition buf_zero :: "u8 list \<Rightarrow> nat \<Rightarrow> nat \<Rightarrow> u8 list" where
  "buf_zero xs off n = take off xs @ replicate n 0 @ drop (off + n) xs"

definition store_bitlen :: "u64 \<Rightarrow> u8 list \<Rightarrow> u8 list" where
  "store_bitlen w d =
     (d[63 := ucast w, 62 := ucast (drop_bit 8 w),
        61 := ucast (drop_bit 16 w), 60 := ucast (drop_bit 24 w),
        59 := ucast (drop_bit 32 w), 58 := ucast (drop_bit 40 w),
        57 := ucast (drop_bit 48 w), 56 := ucast (drop_bit 56 w)])"

definition be32 :: "u32 \<Rightarrow> u8 list" where
  "be32 w = [ucast (drop_bit 24 w), ucast (drop_bit 16 w), ucast (drop_bit 8 w), ucast w]"

definition sha256_final :: "SHA256_CTX \<Rightarrow> SHA256_CTX \<times> u8 list" where
  "sha256_final ctx =
     (let i = unat (ctx_datalen ctx);
          ctx = ctx\<lparr>ctx_data := (ctx_data ctx)[i := 0x80]\<rparr>;
          i = Suc i;
          ctx = (if ctx_datalen ctx < 56
                 then ctx\<lparr>ctx_data := buf_zero (ctx_data ctx) i (56 - i)\<rparr>
                 else (let ctx = ctx\<lparr>ctx_data := buf_zero (ctx_data ctx) i (64 - i)\<rparr>;
                           ctx = sha256_transform ctx (ctx_data ctx)
                       in ctx\<lparr>ctx_data := buf_zero (ctx_data ctx) 0 56\<rparr>));
          ctx = ctx\<lparr>ctx_bitlen := ctx_bitlen ctx + ucast (ctx_datalen ctx * 8)\<rparr>;
          ctx = ctx\<lparr>ctx_data := store_bitlen (ctx_bitlen ctx) (ctx_data ctx)\<rparr>;
          ctx = sha256_transform ctx (ctx_data ctx)
      in (ctx, concat (map be32 (ctx_state ctx))))"

section \<open>The reference: FIPS 180-4 on byte lists\<close>

text \<open>The message schedule by its recurrence.\<close>

fun W :: "u8 list \<Rightarrow> nat \<Rightarrow> u32" where
  "W blk t = (if t < 16 then block_word blk (4 * t)
              else SIG1 (W blk (t - 2)) + W blk (t - 7) + SIG0 (W blk (t - 15)) + W blk (t - 16))"

declare W.simps [simp del]

definition sha_compress :: "u32 list \<Rightarrow> u8 list \<Rightarrow> u32 list" where
  "sha_compress H blk =
     (case foldl (\<lambda>v t. sha_round v (sha256_k ! t, W blk t))
             (H ! 0, H ! 1, H ! 2, H ! 3, H ! 4, H ! 5, H ! 6, H ! 7) [0..<64]
      of (a, b, c, d, e, f, g, h) \<Rightarrow>
         [H ! 0 + a, H ! 1 + b, H ! 2 + c, H ! 3 + d, H ! 4 + e, H ! 5 + f, H ! 6 + g, H ! 7 + h])"

function chunks64 :: "u8 list \<Rightarrow> u8 list list" where
  "chunks64 bs = (if length bs < 64 then [] else take 64 bs # chunks64 (drop 64 bs))"
  by pat_completeness auto
termination
  by (relation "measure length") auto

declare chunks64.simps [simp del]

definition be64 :: "u64 \<Rightarrow> u8 list" where
  "be64 w = [ucast (drop_bit 56 w), ucast (drop_bit 48 w), ucast (drop_bit 40 w), ucast (drop_bit 32 w),
             ucast (drop_bit 24 w), ucast (drop_bit 16 w), ucast (drop_bit 8 w), ucast w]"

text \<open>A one bit, the least number of zero bits that leaves room for the 64-bit length, the
  length in bits.\<close>

definition sha_pad :: "u8 list \<Rightarrow> u8 list" where
  "sha_pad msg = msg @ [0x80] @ replicate ((119 - length msg mod 64) mod 64) 0
                 @ be64 (of_nat (8 * length msg))"

definition sha256_spec :: "u8 list \<Rightarrow> u8 list" where
  "sha256_spec msg = concat (map be32 (foldl sha_compress sha256_iv (chunks64 (sha_pad msg))))"

section \<open>The streaming code computes the reference\<close>

lemma length_schedule_extend [simp]: "length (schedule_extend n m) = length m + n"
  by (induction n arbitrary: m) (simp_all add: Let_def)

lemma length_sha256_k [simp]: "length sha256_k = 64"
  by (simp add: sha256_k_def)

text \<open>A list that agrees with the recurrence keeps agreeing when the loop extends it.\<close>

lemma schedule_extend_W:
  assumes "16 \<le> k" and "m = map (W blk) [0..<k]"
  shows "schedule_extend n m = map (W blk) [0..<k + n]"
  using assms
proof (induction n arbitrary: k m)
  case 0
  then show ?case by simp
next
  case (Suc n)
  have "SIG1 (m ! (k - 2)) + m ! (k - 7) + SIG0 (m ! (k - 15)) + m ! (k - 16) = W blk k"
    using Suc.prems by (simp add: W.simps [of blk k])
  then have "schedule_extend (Suc n) m = schedule_extend n (map (W blk) [0..<Suc k])"
    using Suc.prems by (simp add: Let_def)
  also have "\<dots> = map (W blk) [0..<Suc k + n]"
    by (rule Suc.IH) (use Suc.prems in auto)
  finally show ?case by simp
qed

lemma zip_k_schedule:
  "zip sha256_k (map (W blk) [0..<64]) = map (\<lambda>t. (sha256_k ! t, W blk t)) [0..<64]"
  by (rule nth_equalityI) simp_all

lemma sha256_transform_compress:
  "sha256_transform ctx blk = ctx\<lparr>ctx_state := sha_compress (ctx_state ctx) blk\<rparr>"
proof -
  have "map (\<lambda>i. block_word blk (4 * i)) [0..<16] = map (W blk) [0..<16]"
    by (rule map_cong) (simp_all add: W.simps)
  then have "schedule_extend 48 (map (\<lambda>i. block_word blk (4 * i)) [0..<16]) = map (W blk) [0..<64]"
    by (simp only: schedule_extend_W [OF order_refl refl]) simp
  then show ?thesis
    unfolding sha256_transform_def sha_compress_def Let_def
    by (simp add: zip_k_schedule foldl_map split: prod.split del: upt_Suc)
qed

lemma chunks64_short [simp]: "length bs < 64 \<Longrightarrow> chunks64 bs = []"
  by (simp add: chunks64.simps)

lemma chunks64_block: "length blk = 64 \<Longrightarrow> chunks64 (blk @ bs) = blk # chunks64 bs"
  by (simp add: chunks64.simps)

lemma chunks64_append: "64 dvd length xs \<Longrightarrow> chunks64 (xs @ ys) = chunks64 xs @ chunks64 ys"
proof (induction xs rule: chunks64.induct)
  case (1 xs)
  show ?case
  proof (cases "xs = []")
    case True
    then show ?thesis by simp
  next
    case False
    with "1.prems" have len: "64 \<le> length xs" by (auto dest: dvd_imp_le)
    then have d: "64 dvd length (drop 64 xs)" using "1.prems" by simp
    have "chunks64 (xs @ ys) = take 64 xs # chunks64 (drop 64 xs @ ys)"
      using len by (simp add: chunks64.simps [of "xs @ ys"])
    also have "\<dots> = take 64 xs # chunks64 (drop 64 xs) @ chunks64 ys"
      using "1.IH" len d by simp
    also have "\<dots> = chunks64 xs @ chunks64 ys"
      using len by (simp add: chunks64.simps [of xs])
    finally show ?thesis .
  qed
qed

text \<open>The representation invariant of a context that has absorbed a message: the whole blocks
  are compressed into the state, the rest is the prefix of the buffer that datalen delimits.\<close>

definition sha_repr :: "SHA256_CTX \<Rightarrow> u8 list \<Rightarrow> u8 list \<Rightarrow> bool" where
  "sha_repr ctx full rest \<longleftrightarrow>
     64 dvd length full \<and> length rest < 64 \<and> length (ctx_data ctx) = 64
     \<and> ctx_datalen ctx = of_nat (length rest) \<and> take (length rest) (ctx_data ctx) = rest
     \<and> ctx_bitlen ctx = of_nat (8 * length full)
     \<and> ctx_state ctx = foldl sha_compress sha256_iv (chunks64 full)"

lemma unat_small_u32: "n < 4294967296 \<Longrightarrow> unat (of_nat n :: u32) = n"
  by (simp add: unat_of_nat)

lemma sha_repr_datalen: "sha_repr ctx full rest \<Longrightarrow> unat (ctx_datalen ctx) = length rest"
  by (simp add: sha_repr_def unat_small_u32)

lemma sha_repr_init: "length (ctx_data ctx) = 64 \<Longrightarrow> sha_repr (sha256_init ctx) [] []"
  by (simp add: sha_repr_def sha256_init_def)

lemma take_Suc_update: "n < length xs \<Longrightarrow> take (Suc n) (xs[n := b]) = take n xs @ [b]"
  by (simp add: take_Suc_conv_app_nth)

lemma datalen_full_iff:
  "n < 64 \<Longrightarrow> ((of_nat n :: u32) + 1 = 64) = (n = 63)"
proof -
  assume "n < 64"
  then have "unat ((of_nat n :: u32) + 1) = Suc n"
    by (simp add: unat_word_ariths unat_of_nat)
  then show ?thesis
    by (simp add: word_eq_iff_unsigned [where 'a = nat])
qed

lemma sha_repr_update_byte:
  assumes "sha_repr ctx full rest"
  shows "if length rest = 63 then sha_repr (sha256_update_byte ctx b) (full @ rest @ [b]) []
         else sha_repr (sha256_update_byte ctx b) full (rest @ [b])"
proof -
  note r = assms [unfolded sha_repr_def]
  let ?d = "(ctx_data ctx)[length rest := b]"
  have pre: "take (Suc (length rest)) ?d = rest @ [b]"
    using r by (simp add: take_Suc_update)
  have len: "unat (ctx_datalen ctx) = length rest" by (rule sha_repr_datalen [OF assms])
  have full_iff: "(ctx_datalen ctx + 1 = 64) = (length rest = 63)"
    using r by (simp add: datalen_full_iff)
  show ?thesis
  proof (cases "length rest = 63")
    case True
    then have "?d = rest @ [b]" using pre r by simp
    moreover have "64 dvd length (full @ rest @ [b])" using True r by simp
    moreover have "chunks64 (full @ rest @ [b]) = chunks64 full @ [rest @ [b]]"
      using True r chunks64_block [of "rest @ [b]" "[]"] by (simp add: chunks64_append)
    ultimately show ?thesis
      using True r full_iff len
      by (simp add: sha256_update_byte_def Let_def sha256_transform_compress sha_repr_def
            algebra_simps)
  next
    case False
    then show ?thesis
      using r full_iff len pre
      by (simp add: sha256_update_byte_def Let_def sha_repr_def)
  qed
qed

lemma sha_repr_update:
  assumes "sha_repr ctx full rest"
  shows "\<exists>full' rest'. sha_repr (sha256_update ctx bs) full' rest' \<and> full' @ rest' = full @ rest @ bs"
  using assms
proof (induction bs arbitrary: ctx full rest)
  case Nil
  then show ?case by (auto intro!: exI)
next
  case (Cons b bs)
  from sha_repr_update_byte [OF Cons.prems, of b]
  obtain full1 rest1 where 1: "sha_repr (sha256_update_byte ctx b) full1 rest1"
    and eq: "full1 @ rest1 = full @ rest @ [b]"
    by (cases "length rest = 63") (fastforce split: if_splits)+
  from Cons.IH [OF 1] obtain full' rest'
    where "sha_repr (sha256_update (sha256_update_byte ctx b) bs) full' rest'"
      and "full' @ rest' = full1 @ rest1 @ bs" by blast
  with eq show ?case
    by (metis append.assoc append_Cons append_Nil sha256_update.simps(2))
qed

lemma store_bitlen_be64:
  assumes "length d = 64"
  shows "store_bitlen w d = take 56 d @ be64 w"
proof (rule nth_equalityI)
  show "length (store_bitlen w d) = length (take 56 d @ be64 w)"
    using assms by (simp add: store_bitlen_def be64_def)
  fix i
  assume "i < length (store_bitlen w d)"
  then have i: "i < 64" using assms by (simp add: store_bitlen_def)
  show "store_bitlen w d ! i = (take 56 d @ be64 w) ! i"
  proof (cases "i < 56")
    case True
    then show ?thesis using assms by (simp add: store_bitlen_def nth_append)
  next
    case False
    then have "i - 56 \<in> {0, 1, 2, 3, 4, 5, 6, 7}" using i by auto
    then obtain k where k: "i = 56 + k" "k \<in> {0, 1, 2, 3, 4, 5, 6, 7}"
      using False by (metis le_add_diff_inverse not_less)
    then show ?thesis
      using assms by (auto simp: store_bitlen_def be64_def nth_append)
  qed
qed

lemma length_be64 [simp]: "length (be64 w) = 8"
  by (simp add: be64_def)

lemma buf_zero_tail:
  "length d = 64 \<Longrightarrow> take k d = p \<Longrightarrow> k + n \<le> 64
     \<Longrightarrow> take (k + n) (buf_zero d k n) = p @ replicate n 0"
  by (auto simp: buf_zero_def)

lemma length_buf_zero: "length d = 64 \<Longrightarrow> k + n \<le> 64 \<Longrightarrow> length (buf_zero d k n) = 64"
  by (simp add: buf_zero_def)

lemma total_bitlen:
  assumes "n < 64"
  shows "(of_nat (8 * l) :: u64) + ucast ((of_nat n :: u32) * 8) = of_nat (8 * (l + n))"
proof -
  have "(of_nat n :: u32) * 8 = of_nat (8 * n)" by simp
  moreover have "ucast (of_nat (8 * n) :: u32) = (of_nat (8 * n) :: u64)"
    using assms by (simp add: word_eq_iff_unsigned [where 'a = nat] unat_of_nat unsigned_ucast_eq
        take_bit_eq_mod del: of_nat_mult)
  ultimately show ?thesis by (simp add: algebra_simps)
qed

lemma pad_zeros:
  assumes "64 dvd length full" and "length rest < 64"
  shows "(119 - length (full @ rest) mod 64) mod 64
       = (if length rest < 56 then 55 - length rest else 119 - length rest)"
proof -
  have "length (full @ rest) mod 64 = length rest"
    using assms by (auto simp: mod_add_eq elim!: dvdE)
  then show ?thesis using assms by (simp add: mod_if [of "119 - length rest"])
qed

lemma sha256_final_block:
  assumes "sha_repr ctx full rest" and "length rest < 56"
  shows "snd (sha256_final ctx) = sha256_spec (full @ rest)"
proof -
  note r = assms(1) [unfolded sha_repr_def]
  let ?n = "length rest"
  define w where "w = ctx_bitlen ctx + ucast (ctx_datalen ctx * 8)"
  have w: "w = of_nat (8 * length (full @ rest))"
    using r total_bitlen [of ?n "length full"] by (simp add: w_def)
  let ?blk = "rest @ [0x80] @ replicate (55 - ?n) 0 @ be64 w"
  have lt: "ctx_datalen ctx < 56"
    using r assms(2) by (simp add: word_less_nat_alt unat_small_u32)
  have un: "unat (ctx_datalen ctx) = ?n" by (rule sha_repr_datalen [OF assms(1)])
  let ?d = "(ctx_data ctx)[?n := 0x80]"
  have "take (Suc ?n) ?d = rest @ [0x80]" using r by (simp add: take_Suc_update)
  then have "take 56 (buf_zero ?d (Suc ?n) (55 - ?n)) = (rest @ [0x80]) @ replicate (55 - ?n) 0"
    using buf_zero_tail [of ?d "Suc ?n" "rest @ [0x80]" "55 - ?n"] r assms(2) by simp
  then have data: "store_bitlen w (buf_zero ?d (Suc ?n) (55 - ?n)) = ?blk"
    using r assms(2) by (simp add: store_bitlen_be64 length_buf_zero)
  have "snd (sha256_final ctx) = concat (map be32 (sha_compress (ctx_state ctx) ?blk))"
    unfolding sha256_final_def Let_def
    by (simp add: lt un data sha256_transform_compress flip: w_def)
  moreover have "sha_pad (full @ rest) = full @ ?blk"
    unfolding sha_pad_def pad_zeros [OF r [THEN conjunct1] r [THEN conjunct2, THEN conjunct1]]
    using assms(2) by (simp add: w)
  moreover have "chunks64 (full @ ?blk) = chunks64 full @ [?blk]"
    using r assms(2) chunks64_block [of ?blk "[]"] by (simp add: chunks64_append)
  ultimately show ?thesis using r by (simp add: sha256_spec_def)
qed

lemma sha256_final_two_blocks:
  assumes "sha_repr ctx full rest" and "\<not> length rest < 56"
  shows "snd (sha256_final ctx) = sha256_spec (full @ rest)"
proof -
  note r = assms(1) [unfolded sha_repr_def]
  let ?n = "length rest"
  define w where "w = ctx_bitlen ctx + ucast (ctx_datalen ctx * 8)"
  have w: "w = of_nat (8 * length (full @ rest))"
    using r total_bitlen [of ?n "length full"] by (simp add: w_def)
  let ?b1 = "rest @ [0x80] @ replicate (63 - ?n) 0"
  let ?b2 = "replicate 56 0 @ be64 w"
  have lt: "\<not> ctx_datalen ctx < 56"
    using r assms(2) by (simp add: word_less_nat_alt unat_small_u32)
  have un: "unat (ctx_datalen ctx) = ?n" by (rule sha_repr_datalen [OF assms(1)])
  let ?d = "(ctx_data ctx)[?n := 0x80]"
  have "take (Suc ?n) ?d = rest @ [0x80]" using r by (simp add: take_Suc_update)
  then have d1: "buf_zero ?d (Suc ?n) (63 - ?n) = ?b1"
    using r by (auto simp: buf_zero_def)
  have d2: "store_bitlen w (buf_zero ?b1 0 56) = ?b2"
    using r assms(2) store_bitlen_be64 [of "buf_zero ?b1 0 56" w] by (simp add: buf_zero_def)
  have "snd (sha256_final ctx)
      = concat (map be32 (sha_compress (sha_compress (ctx_state ctx) ?b1) ?b2))"
    unfolding sha256_final_def Let_def
    by (simp add: lt un d1 d2 [simplified] sha256_transform_compress flip: w_def)
  moreover have "sha_pad (full @ rest) = full @ ?b1 @ ?b2"
  proof -
    have "(63 - ?n) + 56 = 119 - ?n" using r by simp
    then have "replicate (119 - ?n) (0 :: u8) = replicate (63 - ?n) 0 @ replicate 56 0"
      by (simp only: replicate_add [symmetric])
    then show ?thesis
      unfolding sha_pad_def pad_zeros [OF r [THEN conjunct1] r [THEN conjunct2, THEN conjunct1]]
      using assms(2) by (simp add: w)
  qed
  moreover have "chunks64 (full @ ?b1 @ ?b2) = chunks64 full @ [?b1, ?b2]"
    using r chunks64_block [of ?b1 ?b2] chunks64_block [of ?b2 "[]"]
    by (simp add: chunks64_append)
  ultimately show ?thesis using r by (simp add: sha256_spec_def)
qed

text \<open>One-shot hashing as the callers do it: initialise, absorb, finalise.\<close>

lemma sha256_stream_spec:
  assumes "length (ctx_data ctx) = 64"
  shows "snd (sha256_final (sha256_update (sha256_init ctx) msg)) = sha256_spec msg"
proof -
  from sha_repr_update [OF sha_repr_init [OF assms], of msg]
  obtain full rest where "sha_repr (sha256_update (sha256_init ctx) msg) full rest"
    and "full @ rest = msg" by auto
  then show ?thesis
    using sha256_final_block sha256_final_two_blocks by metis
qed

lemma sha256_update_append: "sha256_update (sha256_update ctx xs) ys = sha256_update ctx (xs @ ys)"
  by (induction xs arbitrary: ctx) simp_all

lemma length_store_bitlen [simp]: "length (store_bitlen w d) = length d"
  by (simp add: store_bitlen_def)

lemma sha256_final_data_length:
  assumes "sha_repr ctx full rest"
  shows "length (ctx_data (fst (sha256_final ctx))) = 64"
proof -
  have n: "length rest < 64" "length (ctx_data ctx) = 64"
    using assms by (simp_all add: sha_repr_def)
  have lt: "ctx_datalen ctx < 56 \<longleftrightarrow> length rest < 56"
    using sha_repr_datalen [OF assms] by (simp add: word_less_nat_alt)
  show ?thesis
    using n by (simp add: sha256_final_def Let_def lt sha_repr_datalen [OF assms]
        sha256_transform_compress length_buf_zero)
qed

text \<open>The context can be reused for another message, as the HMAC code does.\<close>

lemma sha256_stream_data_length:
  assumes "length (ctx_data ctx) = 64"
  shows "length (ctx_data (fst (sha256_final (sha256_update (sha256_init ctx) msg)))) = 64"
  using sha_repr_update [OF sha_repr_init [OF assms], of msg] sha256_final_data_length by blast

end
