(* ===== verification/HK_Fips180.thy ===== *)
theory HK_Fips180
  imports HK_Sha256 Complex_Main
begin

text \<open>
  The SHA-256 of FIPS 180-4 written from the standard's definitions, sharing with the code in
  tpm.c nothing but the word type: rotations by the library's \<open>word_rotr\<close>, words and bytes by
  positional arithmetic, the round constants and the initial value as fractions of cube and
  square roots of primes. The lemmas identify each ingredient with the one of the
  implementation, so the table of constants in tpm.c is checked against its definition.
\<close>

section \<open>The standard\<close>

definition first_primes :: "nat list" where
  "first_primes = [2, 3, 5, 7, 11, 13, 17, 19, 23, 29, 31, 37, 41, 43, 47, 53,
    59, 61, 67, 71, 73, 79, 83, 89, 97, 101, 103, 107, 109, 113, 127, 131,
    137, 139, 149, 151, 157, 163, 167, 173, 179, 181, 191, 193, 197, 199, 211, 223,
    227, 229, 233, 239, 241, 251, 257, 263, 269, 271, 277, 281, 283, 293, 307, 311]"

definition root_fraction :: "nat \<Rightarrow> nat \<Rightarrow> u32" where
  "root_fraction e p = of_int \<lfloor>root e (real p) * 2 ^ 32\<rfloor>"

definition fips_Ch :: "u32 \<Rightarrow> u32 \<Rightarrow> u32 \<Rightarrow> u32" where
  "fips_Ch x y z = ((x AND y) XOR (NOT x AND z))"

definition fips_Maj :: "u32 \<Rightarrow> u32 \<Rightarrow> u32 \<Rightarrow> u32" where
  "fips_Maj x y z = ((x AND y) XOR (x AND z) XOR (y AND z))"

definition fips_Sigma :: "nat \<Rightarrow> nat \<Rightarrow> nat \<Rightarrow> u32 \<Rightarrow> u32" where
  "fips_Sigma i j k x = (word_rotr i x XOR word_rotr j x XOR word_rotr k x)"

definition fips_sigma :: "nat \<Rightarrow> nat \<Rightarrow> nat \<Rightarrow> u32 \<Rightarrow> u32" where
  "fips_sigma i j k x = (word_rotr i x XOR word_rotr j x XOR drop_bit k x)"

text \<open>Word \<open>t\<close> of a block, most significant byte first.\<close>

definition fips_M :: "u8 list \<Rightarrow> nat \<Rightarrow> u32" where
  "fips_M blk t = of_nat (16777216 * unat (blk ! (4 * t)) + 65536 * unat (blk ! (4 * t + 1))
                          + 256 * unat (blk ! (4 * t + 2)) + unat (blk ! (4 * t + 3)))"

fun fips_W :: "u8 list \<Rightarrow> nat \<Rightarrow> u32" where
  "fips_W blk t = (if t < 16 then fips_M blk t
     else fips_sigma 17 19 10 (fips_W blk (t - 2)) + fips_W blk (t - 7)
          + fips_sigma 7 18 3 (fips_W blk (t - 15)) + fips_W blk (t - 16))"

declare fips_W.simps [simp del]

fun fips_round :: "u8 list \<Rightarrow> sha_vars \<Rightarrow> nat \<Rightarrow> sha_vars" where
  "fips_round blk (a, b, c, d, e, f, g, h) t =
     (let T1 = h + fips_Sigma 6 11 25 e + fips_Ch e f g + root_fraction 3 (first_primes ! t) + fips_W blk t;
          T2 = fips_Sigma 2 13 22 a + fips_Maj a b c
      in (T1 + T2, a, b, c, d + T1, e, f, g))"

definition fips_compress :: "u32 list \<Rightarrow> u8 list \<Rightarrow> u32 list" where
  "fips_compress H blk =
     (case foldl (fips_round blk) (H ! 0, H ! 1, H ! 2, H ! 3, H ! 4, H ! 5, H ! 6, H ! 7) [0..<64]
      of (a, b, c, d, e, f, g, h) \<Rightarrow>
         [a + H ! 0, b + H ! 1, c + H ! 2, d + H ! 3, e + H ! 4, f + H ! 5, g + H ! 6, h + H ! 7])"

definition fips_bytes :: "u32 \<Rightarrow> u8 list" where
  "fips_bytes w = map (\<lambda>i. of_nat (unat w div 256 ^ (3 - i))) [0..<4]"

definition fips_sha256 :: "u8 list \<Rightarrow> u8 list" where
  "fips_sha256 msg = concat (map fips_bytes
     (foldl fips_compress (map (root_fraction 2) (take 8 first_primes)) (chunks64 (sha_pad msg))))"

section \<open>The constants\<close>

lemma root_fraction_eq:
  assumes e: "0 < e" and lo: "n ^ e \<le> p * 2 ^ (32 * e)" and hi: "p * 2 ^ (32 * e) < Suc n ^ e"
  shows "root_fraction e p = of_nat n"
proof -
  let ?x = "real p * (2 ^ 32) ^ e"
  have x: "root e (real p) * 2 ^ 32 = root e ?x"
    using e by (simp add: real_root_mult real_root_power_cancel)
  have "real (n ^ e) \<le> real (p * 2 ^ (32 * e))" "real (p * 2 ^ (32 * e)) < real (Suc n ^ e)"
    using lo hi by (simp_all only: of_nat_le_iff of_nat_less_iff)
  then have "real n ^ e \<le> ?x" "?x < (real n + 1) ^ e"
    by (simp_all add: power_mult add.commute)
  then have "root e (real n ^ e) \<le> root e ?x" "root e ?x < root e ((real n + 1) ^ e)"
    using e by (simp_all add: real_root_le_mono real_root_less_mono)
  then have "real n \<le> root e ?x" "root e ?x < real n + 1"
    using e by (simp_all add: real_root_power_cancel)
  then have "\<lfloor>root e ?x\<rfloor> = int n" by (simp add: floor_eq_iff)
  then show ?thesis by (simp only: root_fraction_def x of_int_of_nat_eq)
qed

lemma iv_is_square_roots: "map (root_fraction 2) (take 8 first_primes) = sha256_iv"
  by (simp add: first_primes_def sha256_iv_def root_fraction_eq [of 2 6074000999 2]
     root_fraction_eq [of 2 7439101573 3]
     root_fraction_eq [of 2 9603838834 5]
     root_fraction_eq [of 2 11363415354 7]
     root_fraction_eq [of 2 14244795007 11]
     root_fraction_eq [of 2 15485724812 13]
     root_fraction_eq [of 2 17708603819 17]
     root_fraction_eq [of 2 18721328409 19])

text \<open>The integer parts of the scaled cube roots, as certificates.\<close>

definition roots3 :: "nat list" where
  "roots3 = [5411319704, 6194414737, 7344290767, 8215976869, 9551921755, 10098905585,
    11043570340, 11460697813, 12214315672, 13195500289, 13492127166, 14311783875,
    14809980276, 15046980094, 15499789991, 16133124468, 16720292289, 16907126662,
    17444216262, 17784676812, 17950125167, 18429019306, 18734950876, 19175934170,
    19734090066, 20001703533, 20132865992, 20390182855, 20516441075, 20764397895,
    21588763473, 21813078375, 22141143685, 22248366392, 22769593852, 22871018771,
    23170020180, 23461497531, 23651862830, 23931792517, 24205322401, 24295138891,
    24734567280, 24820601251, 24990902297, 25075189284, 25569408389, 26045227120,
    26200031510, 26276752392, 26428864332, 26653801653, 26727943347, 27092625994,
    27306805839, 27517677555, 27725365998, 27793908591, 27997534228, 28131656200,
    28198240250, 28526537963, 28973835255, 29099129074]"

lemma roots3: "list_all2 (\<lambda>p n. n ^ 3 \<le> p * 2 ^ 96 \<and> p * 2 ^ 96 < Suc n ^ 3) first_primes roots3"
  by (simp add: first_primes_def roots3_def)

lemma k_is_cube_roots: "map (root_fraction 3) first_primes = sha256_k"
proof -
  have "map (root_fraction 3) first_primes = map of_nat roots3"
    using roots3 by (induction rule: list_all2_induct) (simp_all add: root_fraction_eq)
  also have "\<dots> = sha256_k" by (simp add: roots3_def sha256_k_def)
  finally show ?thesis .
qed
lemma length_first_primes: "length first_primes = 64"
  by (simp add: first_primes_def)

lemma k_nth: "t < 64 \<Longrightarrow> root_fraction 3 (first_primes ! t) = sha256_k ! t"
  by (simp add: k_is_cube_roots [symmetric] length_first_primes)

section \<open>The functions\<close>

lemma ROTR_word_rotr: "0 < n \<Longrightarrow> n < 32 \<Longrightarrow> ROTR x n = word_rotr n x"
proof (rule bit_word_eqI)
  fix k
  assume n: "0 < n" "n < 32" and k: "k < LENGTH(32)"
  have w: "(k + n) mod 32 = (if k + n < 32 then k + n else k + n - 32)"
    using n k by (auto simp: mod_if)
  have "\<not> bit x (k + n)" if "\<not> k + n < 32" using that bit_imp_le_length [of x "k + n"] by auto
  then show "bit (ROTR x n) k \<longleftrightarrow> bit (word_rotr n x) k"
    using n k w
    by (auto simp: ROTR_def bit_word_rotr_iff bit_or_iff bit_drop_bit_eq bit_push_bit_iff add.commute)
qed

lemma fips_functions:
  "CH = fips_Ch" "MAJ = fips_Maj" "EP0 = fips_Sigma 2 13 22" "EP1 = fips_Sigma 6 11 25"
  "SIG0 = fips_sigma 7 18 3" "SIG1 = fips_sigma 17 19 10"
  by (auto simp: fun_eq_iff CH_def fips_Ch_def MAJ_def fips_Maj_def EP0_def EP1_def SIG0_def SIG1_def
      fips_Sigma_def fips_sigma_def ROTR_word_rotr)

lemma or_plus: "(\<And>n. \<not> bit (x :: u32) n \<or> \<not> bit y n) \<Longrightarrow> x OR y = x + y"
  by (rule disjunctive_add [symmetric])

lemma bit_byte: "bit (ucast (b :: u8) :: u32) n \<Longrightarrow> n < 8"
  using bit_imp_le_length [of b n] by (auto simp: bit_ucast_iff)

lemma block_word_fips: "block_word blk (4 * t) = fips_M blk t"
proof -
  have *: "push_bit 24 (ucast a) OR push_bit 16 (ucast b) OR push_bit 8 (ucast c) OR (ucast d :: u32)
      = push_bit 24 (ucast a) + (push_bit 16 (ucast b) + (push_bit 8 (ucast c) + ucast d))"
    for a b c d :: u8
    by (subst or_plus, fastforce simp: bit_push_bit_iff bit_or_iff dest: bit_byte)+ simp
  show ?thesis
    unfolding block_word_def * fips_M_def by (simp add: push_bit_eq_mult)
qed

lemma be32_fips: "be32 = fips_bytes"
proof
  have *: "(ucast (drop_bit k w) :: u8) = of_nat (unat w div 2 ^ k)" for w :: u32 and k
  proof -
    have "unat (drop_bit k w) = unat w div 2 ^ k"
      unfolding unat_drop_bit_eq by (rule drop_bit_eq_div)
    then show ?thesis by (metis of_nat_unat)
  qed
  show "be32 w = fips_bytes w" for w
    using * [of 24 w] * [of 16 w] * [of 8 w] * [of 0 w]
    by (simp add: be32_def fips_bytes_def upt_rec)
qed

lemma W_fips: "W blk t = fips_W blk t"
proof (induction t rule: less_induct)
  case (less t)
  then show ?case
    by (simp add: W.simps [of blk t] fips_W.simps [of blk t] block_word_fips fips_functions)
qed

lemma round_fips: "t < 64 \<Longrightarrow> sha_round v (sha256_k ! t, W blk t) = fips_round blk v t"
  by (induction blk v t rule: fips_round.induct) (simp add: k_nth W_fips fips_functions)

lemma compress_fips: "sha_compress H blk = fips_compress H blk"
proof -
  have "foldl (\<lambda>v t. sha_round v (sha256_k ! t, W blk t)) v [0..<64] = foldl (fips_round blk) v [0..<64]" for v
    by (rule foldl_cong) (simp_all add: round_fips)
  then show ?thesis
    by (simp add: sha_compress_def fips_compress_def add.commute split: prod.split del: upt_Suc)
qed

lemma sha256_spec_fips: "sha256_spec msg = fips_sha256 msg"
  by (simp add: sha256_spec_def fips_sha256_def be32_fips iv_is_square_roots compress_fips [abs_def])

end
