(* ===== verification/HK_Tpm.thy ===== *)
theory HK_Tpm
  imports HK_Fips180
begin

text \<open>
  The fTPM component (tpm.c, lines 117-194): the fused key, the truncated HMAC-SHA256 and the
  two RPC procedures of TpmInterface. The console output of the procedures is not modelled.
  The contents of the uninitialised stack frame that holds the hash context is an explicit
  argument \<open>g\<close>; the lemmas show that no result depends on it.

  The locale \<open>attestation\<close> is the contract the clients of the fTPM rely on (the Repository
  signs, the Dispatcher verifies): a signature is accepted exactly when it is the one the
  signing procedure returns for the same hash. The fTPM is its interpretation.
\<close>

definition tpm_secret_key :: "u8 list" where
  "tpm_secret_key = [
    0x12, 0x34, 0x56, 0x78, 0x9A, 0xBC, 0xDE, 0xF0,
    0x11, 0x22, 0x33, 0x44, 0x55, 0x66, 0x77, 0x88,
    0x99, 0xAA, 0xBB, 0xCC, 0xDD, 0xEE, 0xFF, 0x00,
    0xAB, 0xCD, 0xEF, 0x01, 0x23, 0x45, 0x67, 0x89]"

text \<open>\<^verbatim>\<open>SHA256_CTX ctx;\<close> without initialiser: 64 bytes of whatever the stack holds.\<close>

definition stack_frame :: "u8 list \<Rightarrow> SHA256_CTX" where
  "stack_frame g = \<lparr>ctx_data = take 64 (g @ replicate 64 0), ctx_datalen = 0,
                    ctx_bitlen = 0, ctx_state = []\<rparr>"

text \<open>The loop that mixes the key into a pad, from index \<open>i\<close>, \<open>n\<close> iterations.\<close>

fun mix_key :: "nat \<Rightarrow> nat \<Rightarrow> u8 list \<Rightarrow> u8 list" where
  "mix_key i 0 pad = pad"
| "mix_key i (Suc n) pad = mix_key (Suc i) n (pad[i := pad ! i XOR tpm_secret_key ! i])"

definition compute_hmac_sha256_trunc :: "u8 list \<Rightarrow> u32 \<Rightarrow> u32" where
  "compute_hmac_sha256_trunc g data =
     (let k_ipad = mix_key 0 32 (replicate 64 0x36);
          k_opad = mix_key 0 32 (replicate 64 0x5c);
          ctx = sha256_init (stack_frame g);
          ctx = sha256_update ctx k_ipad;
          ctx = sha256_update ctx (le32 data);
          (ctx, inner_hash) = sha256_final ctx;
          ctx = sha256_init ctx;
          ctx = sha256_update ctx k_opad;
          ctx = sha256_update ctx inner_hash;
          (ctx, final_hash) = sha256_final ctx
      in of_le32 (take 4 final_hash))"

definition crypto_api_sign_data :: "u8 list \<Rightarrow> u32 \<Rightarrow> u32" where
  "crypto_api_sign_data g raw_hash = compute_hmac_sha256_trunc g raw_hash"

definition crypto_api_verify_signature :: "u8 list \<Rightarrow> u32 \<Rightarrow> u32 \<Rightarrow> c_int" where
  "crypto_api_verify_signature g data_hash signature =
     (let valid_sig = compute_hmac_sha256_trunc g data_hash
      in if signature = valid_sig then 1 else 0)"

section \<open>The reference: HMAC of RFC 2104 over the SHA-256 of the standard\<close>

definition hmac_key_block :: "u8 list" where
  "hmac_key_block = tpm_secret_key @ replicate 32 0"

definition hmac_spec :: "u8 list \<Rightarrow> u8 list" where
  "hmac_spec msg =
     fips_sha256 (map (\<lambda>k. k XOR 0x5c) hmac_key_block
                  @ fips_sha256 (map (\<lambda>k. k XOR 0x36) hmac_key_block @ msg))"

section \<open>The contract of the attestation service\<close>

locale attestation =
  fixes sign :: "u32 \<Rightarrow> u32"
    and verify :: "u32 \<Rightarrow> u32 \<Rightarrow> c_int"
  assumes verify_sign: "verify h (sign h) = 1"
    and verify_only: "verify h s \<noteq> 0 \<Longrightarrow> s = sign h"
begin

lemma verify_iff: "verify h s \<noteq> 0 \<longleftrightarrow> s = sign h"
  using verify_sign verify_only by auto

lemma verify_reject: "s \<noteq> sign h \<Longrightarrow> verify h s = 0"
  using verify_only by blast

text \<open>Two hashes accept the same signature only if the service signs them alike.\<close>

lemma verify_two: "verify h s \<noteq> 0 \<Longrightarrow> verify h' s \<noteq> 0 \<Longrightarrow> sign h = sign h'"
  using verify_only by metis

end

section \<open>The implementation computes the reference\<close>

lemma length_stack_frame [simp]: "length (ctx_data (stack_frame g)) = 64"
  by (simp add: stack_frame_def)

lemma mix_key_ipad:
  "mix_key 0 32 (replicate 64 0x36) = map (\<lambda>k. k XOR 0x36) hmac_key_block"
  by (simp add: numeral_eq_Suc hmac_key_block_def tpm_secret_key_def)

lemma mix_key_opad:
  "mix_key 0 32 (replicate 64 0x5c) = map (\<lambda>k. k XOR 0x5c) hmac_key_block"
  by (simp add: numeral_eq_Suc hmac_key_block_def tpm_secret_key_def)

lemma compute_hmac_spec:
  "compute_hmac_sha256_trunc g data = of_le32 (take 4 (hmac_spec (le32 data)))"
proof -
  let ?i = "map (\<lambda>k. k XOR 0x36) hmac_key_block" and ?o = "map (\<lambda>k. k XOR 0x5c) hmac_key_block"
  let ?c = "sha256_final (sha256_update (sha256_init (stack_frame g)) (?i @ le32 data))"
  have "snd ?c = fips_sha256 (?i @ le32 data)"
    by (simp add: sha256_stream_spec sha256_spec_fips)
  moreover have "length (ctx_data (fst ?c)) = 64"
    by (rule sha256_stream_data_length) simp
  ultimately have
    "snd (sha256_final (sha256_update (sha256_init (fst ?c)) (?o @ snd ?c))) = hmac_spec (le32 data)"
    by (simp add: sha256_stream_spec sha256_spec_fips hmac_spec_def)
  then show ?thesis
    by (simp add: compute_hmac_sha256_trunc_def Let_def mix_key_ipad mix_key_opad
        sha256_update_append split_beta)
qed

interpretation tpm: attestation "crypto_api_sign_data g" "crypto_api_verify_signature g'" for g g'
  by unfold_locales
     (auto simp: crypto_api_sign_data_def crypto_api_verify_signature_def Let_def compute_hmac_spec
       split: if_splits)

section \<open>Properties\<close>

text \<open>C3. The hash context of the fTPM computes SHA-256: for every message and every initial
  contents of the buffer, initialising, absorbing the message and finalising returns the digest
  that FIPS 180-4 defines (padding with a one bit, zeros and the 64-bit length, then the
  iteration of the compression function over the 64-byte blocks, with the round constants and
  the initial value as roots of primes).\<close>

theorem sha256_digest_correct:
  assumes "length (ctx_data ctx) = 64"
  shows "snd (sha256_final (sha256_update (sha256_init ctx) msg)) = fips_sha256 msg"
  using sha256_stream_spec [OF assms] by (simp add: sha256_spec_fips)

theorem sha256_digest_correct_witness:
  "length (ctx_data (stack_frame [])) = 64
   \<and> snd (sha256_final (sha256_update (sha256_init (stack_frame [])) [0x61, 0x62, 0x63]))
     = fips_sha256 [0x61, 0x62, 0x63]"
proof -
  have h: "length (ctx_data (stack_frame [])) = 64" by simp
  show ?thesis using h sha256_digest_correct [OF h] by blast
qed

text \<open>The digest of the three-byte message "abc" is the one FIPS 180-4 prints, evaluated on
  the code itself: the round constants and the initial state are the published ones as far as
  this vector exercises them.\<close>

lemma sha256_abc_vector:
  "snd (sha256_final (sha256_update (sha256_init (stack_frame [])) [0x61, 0x62, 0x63])) =
     [0xba, 0x78, 0x16, 0xbf, 0x8f, 0x01, 0xcf, 0xea, 0x41, 0x41, 0x40, 0xde, 0x5d, 0xae, 0x22, 0x23,
      0xb0, 0x03, 0x61, 0xa3, 0x96, 0x17, 0x7a, 0x9c, 0xb4, 0x10, 0xff, 0x61, 0xf2, 0x00, 0x15, 0xad]"
  by code_simp

text \<open>C9. The signature of the fTPM is the first four bytes, in memory order, of the RFC 2104
  HMAC-SHA256 of the little-endian hash under the fused key, whatever the stack held before.\<close>

theorem sign_data_is_truncated_hmac:
  "crypto_api_sign_data g h = of_le32 (take 4 (hmac_spec (le32 h)))"
  by (simp add: crypto_api_sign_data_def compute_hmac_spec)

text \<open>C10. Signing and verifying agree: verification returns 1 for exactly the signature that
  signing returns for the same hash, and 0 for every other value.\<close>

theorem verify_accepts_exactly_signed:
  "crypto_api_verify_signature g' h s = (if s = crypto_api_sign_data g h then 1 else 0)"
  using tpm.verify_sign tpm.verify_reject by auto

end
