(* ===== verification/HK_Repository.thy ===== *)
theory HK_Repository
  imports HK_Jenkins HK_State HK_Tpm
begin

text \<open>
  The Repository component (repository.c). It hashes the payload the Generator left in the
  transfer buffer, has the hash signed over its tpm_api connection (the argument
  \<open>tpm_api_sign_data\<close>) and commits the identifier, the size and the signature to the first
  three words of the secure storage.

  The locale \<open>jenkins_loop\<close> states what the three copies of the hash loop in the sources have
  in common; the copies of the Repository, the Dispatcher and the Worker are its
  interpretations.
\<close>

section \<open>The hash loop over a region\<close>

locale jenkins_loop =
  fixes loop :: "region \<Rightarrow> nat \<Rightarrow> nat \<Rightarrow> u32 \<Rightarrow> u32 option"
  assumes loop_0: "loop data i 0 hash = Some hash"
    and loop_Suc: "loop data i (Suc n) hash =
      (case data i of None \<Rightarrow> None | Some b \<Rightarrow> loop data (Suc i) n (jenkins_step hash b))"
begin

lemma loop_bytes:
  "loop data i n hash = map_option (foldl jenkins_step hash) (load_bytes data i n)"
proof (induction n arbitrary: i hash)
  case 0
  then show ?case by (simp add: loop_0)
next
  case (Suc n)
  then show ?case
    by (cases "data i"; cases "load_bytes data (Suc i) n") (simp_all add: loop_Suc)
qed

lemma loop_fault: "\<not> mapped data i (i + n) \<Longrightarrow> loop data i n hash = None"
  by (simp add: loop_bytes load_bytes_closed)

end

section \<open>Operations\<close>

fun compute_jenkins_hash_loop :: "region \<Rightarrow> nat \<Rightarrow> nat \<Rightarrow> u32 \<Rightarrow> u32 option" where
  "compute_jenkins_hash_loop data i 0 hash = Some hash"
| "compute_jenkins_hash_loop data i (Suc n) hash =
     (case data i of
        None \<Rightarrow> None
      | Some b \<Rightarrow>
          (let hash = hash + ucast b;
               hash = hash + push_bit 10 hash;
               hash = hash XOR drop_bit 6 hash
           in compute_jenkins_hash_loop data (Suc i) n hash))"

definition compute_jenkins_hash :: "region \<Rightarrow> nat \<Rightarrow> u32 option" where
  "compute_jenkins_hash data len =
     (case compute_jenkins_hash_loop data 0 len 0 of
        None \<Rightarrow> None
      | Some hash \<Rightarrow>
          (let hash = hash + push_bit 3 hash;
               hash = hash XOR drop_bit 11 hash;
               hash = hash + push_bit 15 hash
           in Some hash))"

definition repo_write_api_add_variant ::
    "(u32 \<Rightarrow> u32) \<Rightarrow> c_int \<Rightarrow> c_int \<Rightarrow> hk_state \<Rightarrow> hk_state option" where
  "repo_write_api_add_variant tpm_api_sign_data variant_id sz s =
     do { hash \<leftarrow> compute_jenkins_hash (gen_buf s) (size_t_of_int sz);
          let signature = tpm_api_sign_data hash;
          m \<leftarrow> store_word32 (metadata s) 0 variant_id;
          m \<leftarrow> store_word32 m 1 sz;
          m \<leftarrow> store_word32 m 2 signature;
          Some (s\<lparr>metadata := m\<rparr>) }"

definition repo_api_get_variant_address :: "c_int \<Rightarrow> hk_state \<Rightarrow> c_int \<times> hk_state" where
  "repo_api_get_variant_address variant_id s = (0, s)"

section \<open>Lemmas\<close>

interpretation repo_hash: jenkins_loop compute_jenkins_hash_loop
  by unfold_locales (simp_all add: jenkins_step_def Let_def split: option.split)

lemma compute_jenkins_hash_bytes:
  "compute_jenkins_hash data len = map_option jenkins (load_bytes data 0 len)"
  by (cases "load_bytes data 0 len")
     (simp_all add: compute_jenkins_hash_def repo_hash.loop_bytes jenkins_def jenkins_final_def Let_def)

lemma store_three_words:
  assumes "mapped m 0 12"
  obtains m1 m2 m3 where "store_word32 m 0 a = Some m1" "store_word32 m1 1 b = Some m2"
    "store_word32 m2 2 c = Some m3"
    "load_word32 m3 0 = Some a" "load_word32 m3 1 = Some b" "load_word32 m3 2 = Some c"
    "dom m3 = dom m"
proof -
  have mm: "mapped m 0 4" "mapped m 4 8" "mapped m 8 12"
    by (simp_all add: mapped_subrange [OF assms])
  obtain m1 where 1: "store_word32 m 0 a = Some m1"
    using store_word32_succeeds [of m 0 a] mm by auto
  obtain m2 where 2: "store_word32 m1 1 b = Some m2"
    using store_word32_succeeds [of m1 1 b] mm by (auto simp: store_word32_mapped [OF 1])
  obtain m3 where 3: "store_word32 m2 2 c = Some m3"
    using store_word32_succeeds [of m2 2 c] mm
    by (auto simp: store_word32_mapped [OF 1] store_word32_mapped [OF 2])
  show ?thesis
    by (rule that [OF 1 2 3])
       (simp_all add: load_store_word32_same [OF 1] load_store_word32_same [OF 2]
         load_store_word32_same [OF 3] load_store_word32_other [OF 2] load_store_word32_other [OF 3]
         dom_store_word32 [OF 1] dom_store_word32 [OF 2] dom_store_word32 [OF 3] del: One_nat_def)
qed

text \<open>What a registration leaves behind: the three metadata words, nothing else changed.\<close>

lemma add_variant_result:
  assumes "mapped (gen_buf s) 0 (size_t_of_int sz)" and "mapped (metadata s) 0 12"
  obtains m where
    "repo_write_api_add_variant sign vid sz s = Some (s\<lparr>metadata := m\<rparr>)"
    "load_word32 m 0 = Some vid" "load_word32 m 1 = Some sz"
    "load_word32 m 2 = Some (sign (jenkins (map (\<lambda>j. the (gen_buf s j)) [0..<size_t_of_int sz])))"
    "dom m = dom (metadata s)"
proof -
  let ?h = "jenkins (map (\<lambda>j. the (gen_buf s j)) [0..<size_t_of_int sz])"
  have h: "compute_jenkins_hash (gen_buf s) (size_t_of_int sz) = Some ?h"
    using assms(1) by (simp add: compute_jenkins_hash_bytes load_bytes_closed)
  from store_three_words [OF assms(2), of vid sz "sign ?h"]
  obtain m1 m2 m3 where m: "store_word32 (metadata s) 0 vid = Some m1"
      "store_word32 m1 1 sz = Some m2" "store_word32 m2 2 (sign ?h) = Some m3"
    and r: "load_word32 m3 0 = Some vid" "load_word32 m3 1 = Some sz"
      "load_word32 m3 2 = Some (sign ?h)" "dom m3 = dom (metadata s)" by blast
  have "repo_write_api_add_variant sign vid sz s = Some (s\<lparr>metadata := m3\<rparr>)"
    by (simp add: repo_write_api_add_variant_def h m Let_def del: One_nat_def)
  with r show ?thesis by (rule that [rotated])
qed

lemma add_variant_fault:
  "\<not> mapped (gen_buf s) 0 (size_t_of_int sz) \<Longrightarrow> repo_write_api_add_variant sign vid sz s = None"
  by (simp add: repo_write_api_add_variant_def compute_jenkins_hash_bytes load_bytes_closed)

end
