(* ===== verification/HK_X86.thy ===== *)
theory HK_X86
  imports HK_Prelude
begin

text \<open>
  The machine language of the generated payload. The Generator emits eight encodings, each
  named in a comment next to the bytes (generator.c, lines 91-105); the Worker calls the
  arena as a function returning a 32-bit integer. The interpreter below executes exactly these
  encodings; the status flags are left out because none of them reads a flag. Any other byte
  sequence is outside the modelled subset, a fetch outside the mapped region is a page fault.
\<close>

record x86 =
  eax :: u32
  ecx :: u32
  ip :: nat

datatype exec_result = Returned u32 | PageFault | Unmodelled | OutOfFuel

datatype x86_outcome = Continue x86 | Done exec_result

definition fetch32 :: "region \<Rightarrow> nat \<Rightarrow> u32 option" where
  "fetch32 r i = map_option of_le32 (load_bytes r i 4)"

definition x86_step :: "region \<Rightarrow> x86 \<Rightarrow> x86_outcome" where
  "x86_step r c =
     (case r (ip c) of
        None \<Rightarrow> Done PageFault
      | Some op \<Rightarrow>
          if op = 0x90 \<or> op = 0xFC \<or> op = 0xF8 then Continue (c\<lparr>ip := ip c + 1\<rparr>)
          else if op = 0x87 \<or> op = 0x31 then
            (case r (ip c + 1) of
               None \<Rightarrow> Done PageFault
             | Some modrm \<Rightarrow>
                 if op = 0x87 \<and> modrm = 0xC9
                 then Continue (c\<lparr>ecx := ecx c, ip := ip c + 2\<rparr>)
                 else if op = 0x31 \<and> modrm = 0xC0
                 then Continue (c\<lparr>eax := eax c XOR eax c, ip := ip c + 2\<rparr>)
                 else Done Unmodelled)
          else if op = 0x05 \<or> op = 0x35 then
            (case fetch32 r (ip c + 1) of
               None \<Rightarrow> Done PageFault
             | Some imm \<Rightarrow>
                 Continue (c\<lparr>eax := (if op = 0x05 then eax c + imm else eax c XOR imm),
                             ip := ip c + 5\<rparr>))
          else if op = 0xC3 then Done (Returned (eax c))
          else Done Unmodelled)"

fun x86_run :: "nat \<Rightarrow> region \<Rightarrow> x86 \<Rightarrow> exec_result" where
  "x86_run 0 r c = OutOfFuel"
| "x86_run (Suc fuel) r c =
     (case x86_step r c of Continue c' \<Rightarrow> x86_run fuel r c' | Done res \<Rightarrow> res)"

section \<open>Fuel\<close>

lemma x86_step_advances: "x86_step r c = Continue c' \<Longrightarrow> ip c < ip c'"
  by (auto simp: x86_step_def split: option.splits if_splits)

text \<open>Execution is straight-line, so one unit of fuel per mapped byte is enough.\<close>

lemma x86_run_enough_fuel:
  assumes unmapped: "\<And>i. n \<le> i \<Longrightarrow> r i = None" and "n - ip c < fuel"
  shows "x86_run fuel r c \<noteq> OutOfFuel"
  using assms(2)
proof (induction fuel arbitrary: c)
  case 0
  then show ?case by simp
next
  case (Suc fuel)
  show ?case
  proof (cases "x86_step r c")
    case (Continue c')
    have "ip c < n"
      using Continue unmapped [of "ip c"] by (auto simp: x86_step_def not_le [symmetric])
    with x86_step_advances [OF Continue] Suc.prems have "n - ip c' < fuel" by simp
    with Continue Suc.IH show ?thesis by simp
  next
    case (Done res)
    then show ?thesis
      by (auto simp: x86_step_def split: option.splits if_splits)
  qed
qed

section \<open>Code at an offset\<close>

definition code_at :: "region \<Rightarrow> nat \<Rightarrow> u8 list \<Rightarrow> bool" where
  "code_at r k bs \<longleftrightarrow> (\<forall>j < length bs. r (k + j) = Some (bs ! j))"

lemma code_at_Nil [simp]: "code_at r k []"
  by (simp add: code_at_def)

lemma code_at_Cons [simp]: "code_at r k (b # bs) \<longleftrightarrow> r k = Some b \<and> code_at r (Suc k) bs"
  by (auto simp: code_at_def All_less_Suc2)

lemma code_at_append [simp]:
  "code_at r k (xs @ ys) \<longleftrightarrow> code_at r k xs \<and> code_at r (k + length xs) ys"
  by (induction xs arbitrary: k) auto

lemma load_bytes_code_at: "code_at r k bs \<Longrightarrow> load_bytes r k (length bs) = Some bs"
  by (induction bs arbitrary: k) simp_all

lemma fetch32_code_at: "code_at r k (le32 v) \<Longrightarrow> fetch32 r k = Some v"
  using load_bytes_code_at [of r k "le32 v"] by (simp add: fetch32_def)

lemma store_bytes_code_at: "store_bytes r off bs = Some r' \<Longrightarrow> code_at r' off bs"
  by (auto simp: store_bytes_closed code_at_def split: if_splits)

end
