(* ===== verification/HK_Generator.thy ===== *)
theory HK_Generator
  imports HK_Repository HK_X86
begin

text \<open>
  The Generator component (generator.c): the random number generator built on a ChaCha-style
  block function and the synthesis of one payload. The time stamp counter is hardware: its
  value at the read of loop iteration \<open>i\<close> is the argument \<open>rdtsc i\<close>, a pair of the low and
  the high half. Writes through the cursor are stores at an offset of guest_ram.
\<close>

section \<open>The random number generator\<close>

definition ROTL :: "u32 \<Rightarrow> nat \<Rightarrow> u32" where
  "ROTL a b = (push_bit b a OR drop_bit (32 - b) a)"

text \<open>The macro QR as it is written: the third line rotates \<open>b\<close>, not \<open>d\<close>.\<close>

definition QR :: "u32 \<Rightarrow> u32 \<Rightarrow> u32 \<Rightarrow> u32 \<Rightarrow> u32 \<times> u32 \<times> u32 \<times> u32" where
  "QR a b c d =
     (let a = a + b; d = d XOR a; d = ROTL d 16;
          c = c + d; b = b XOR c; b = ROTL b 12;
          a = a + b; d = d XOR a; d = ROTL b 8;
          c = c + d; b = b XOR c; b = ROTL b 7
      in (a, b, c, d))"

definition QR_at :: "nat \<Rightarrow> nat \<Rightarrow> nat \<Rightarrow> nat \<Rightarrow> u32 list \<Rightarrow> u32 list" where
  "QR_at i j k l x =
     (let (a, b, c, d) = QR (x ! i) (x ! j) (x ! k) (x ! l)
      in x[i := a, j := b, k := c, l := d])"

definition double_round :: "u32 list \<Rightarrow> u32 list" where
  "double_round x =
     (let x = QR_at 0 4 8 12 x; x = QR_at 1 5 9 13 x; x = QR_at 2 6 10 14 x; x = QR_at 3 7 11 15 x;
          x = QR_at 0 5 10 15 x; x = QR_at 1 6 11 12 x; x = QR_at 2 7 8 13 x; x = QR_at 3 4 9 14 x
      in x)"

definition chacha_permute_block :: "u32 list \<Rightarrow> u32 list" where
  "chacha_permute_block inp =
     (let out = (double_round ^^ 10) inp
      in map (\<lambda>i. out ! i + inp ! i) [0..<16])"

text \<open>\<^verbatim>\<open>i * 0x9E3779B9\<close> is an unsigned product: the constant does not fit an int.\<close>

definition initialize_hardware_entropy :: "(nat \<Rightarrow> u32 \<times> u32) \<Rightarrow> csprng \<Rightarrow> csprng" where
  "initialize_hardware_entropy rdtsc r =
     r\<lparr>chacha_state := [0x61707865, 0x3320646e, 0x79622d32, 0x6b206574]
         @ map (\<lambda>i. fst (rdtsc i) XOR snd (rdtsc i) XOR (of_nat i * 0x9E3779B9)) [4..<16],
       is_csprng_ready := True\<rparr>"

definition request_secure_random :: "(nat \<Rightarrow> u32 \<times> u32) \<Rightarrow> csprng \<Rightarrow> u32 \<times> csprng" where
  "request_secure_random rdtsc r =
     (let r = (if is_csprng_ready r then r else initialize_hardware_entropy rdtsc r);
          r = (if chacha_index r = 16
               then r\<lparr>chacha_stream := chacha_permute_block (chacha_state r),
                      chacha_state := (chacha_state r)[12 := chacha_state r ! 12 + 1],
                      chacha_index := 0\<rparr>
               else r)
      in (chacha_stream r ! chacha_index r, r\<lparr>chacha_index := chacha_index r + 1\<rparr>))"

section \<open>Synthesis of a payload\<close>

text \<open>\<^verbatim>\<open>*cursor++ = b\<close>\<close>

definition emit8 :: "u8 \<Rightarrow> region \<times> nat \<Rightarrow> (region \<times> nat) option" where
  "emit8 b rc = (case rc of (ram, cur) \<Rightarrow> do { ram \<leftarrow> store8 ram cur b; Some (ram, cur + 1) })"

definition stream_emit_32 :: "u32 \<Rightarrow> region \<times> nat \<Rightarrow> (region \<times> nat) option" where
  "stream_emit_32 v rc =
     (case rc of (ram, cur) \<Rightarrow> do { ram \<leftarrow> store_bytes ram cur (le32 v); Some (ram, cur + 4) })"

fun emit_junk ::
    "(nat \<Rightarrow> u32 \<times> u32) \<Rightarrow> nat \<Rightarrow> csprng \<Rightarrow> region \<times> nat \<Rightarrow> (csprng \<times> region \<times> nat) option" where
  "emit_junk rdtsc 0 g rc = Some (g, rc)"
| "emit_junk rdtsc (Suc n) g rc =
     (let (v, g) = request_secure_random rdtsc g;
          r = v mod 4
      in do { rc \<leftarrow> (if r = 0 then emit8 0x90 rc
                     else if r = 1 then emit8 0xFC rc
                     else if r = 2 then emit8 0xF8 rc
                     else do { rc \<leftarrow> emit8 0x87 rc; emit8 0xC9 rc });
              emit_junk rdtsc n g rc })"

definition logic_payload :: u32 where
  "logic_payload = 0xDEADBEEF"

definition gen_api_request_generation ::
    "(nat \<Rightarrow> u32 \<times> u32) \<Rightarrow> (u32 \<Rightarrow> u32) \<Rightarrow> u64 \<Rightarrow> c_int \<Rightarrow> c_int \<Rightarrow> hk_state \<Rightarrow> hk_state option" where
  "gen_api_request_generation rdtsc tpm_api_sign_data base_addr variant_id complexity s =
     (let (v, g) = request_secure_random rdtsc (rng s);
          junk_len = unat (5 + v mod 25)
      in do { (g, rc) \<leftarrow> emit_junk rdtsc junk_len g (guest_ram s, 0);
              let (mask, g) = request_secure_random rdtsc g;
              let obfuscated_val = logic_payload XOR mask;
              rc \<leftarrow> emit8 0x31 rc; rc \<leftarrow> emit8 0xC0 rc;
              rc \<leftarrow> emit8 0x05 rc; rc \<leftarrow> stream_emit_32 mask rc;
              rc \<leftarrow> emit8 0x35 rc; rc \<leftarrow> stream_emit_32 obfuscated_val rc;
              (ram, cur) \<leftarrow> emit8 0xC3 rc;
              let total_size = cur;
              gb \<leftarrow> c_memcpy (gen_buf s) ram total_size;
              repo_write_api_add_variant tpm_api_sign_data variant_id (of_nat total_size)
                (s\<lparr>rng := g, guest_ram := ram, gen_buf := gb\<rparr>) })"

section \<open>The payload as a byte list\<close>

definition junk_bytes :: "u32 \<Rightarrow> u8 list" where
  "junk_bytes v =
     (if v mod 4 = 0 then [0x90] else if v mod 4 = 1 then [0xFC]
      else if v mod 4 = 2 then [0xF8] else [0x87, 0xC9])"

fun draws :: "(nat \<Rightarrow> u32 \<times> u32) \<Rightarrow> nat \<Rightarrow> csprng \<Rightarrow> u32 list \<times> csprng" where
  "draws rdtsc 0 g = ([], g)"
| "draws rdtsc (Suc n) g =
     (let (v, g) = request_secure_random rdtsc g; (vs, g) = draws rdtsc n g in (v # vs, g))"

definition payload_tail :: "u32 \<Rightarrow> u8 list" where
  "payload_tail msk = [0x31, 0xC0, 0x05] @ le32 msk @ [0x35] @ le32 (logic_payload XOR msk) @ [0xC3]"

definition payload :: "u32 list \<Rightarrow> u32 \<Rightarrow> u8 list" where
  "payload vs msk = concat (map junk_bytes vs) @ payload_tail msk"

section \<open>Emission refines the byte list\<close>

text \<open>Emitting a byte list at the cursor; the emitters of the code are instances, and a sequence
  of them emits the concatenation.\<close>

definition emits :: "u8 list \<Rightarrow> region \<times> nat \<Rightarrow> (region \<times> nat) option" where
  "emits bs rc = (case rc of (ram, cur) \<Rightarrow> map_option (\<lambda>r. (r, cur + length bs)) (store_bytes ram cur bs))"

lemma emit8_emits: "emit8 b = emits [b]"
proof
  show "emit8 b rc = emits [b] rc" for rc
    by (cases rc; cases "store8 (fst rc) (snd rc) b") (simp_all add: emit8_def emits_def)
qed

lemma stream_emit_32_emits: "stream_emit_32 v = emits (le32 v)"
proof
  show "stream_emit_32 v rc = emits (le32 v) rc" for rc
    by (cases rc; cases "store_bytes (fst rc) (snd rc) (le32 v)")
       (simp_all add: stream_emit_32_def emits_def)
qed

lemma emits_emits: "Option.bind (emits xs rc) (emits ys) = emits (xs @ ys) rc"
  by (cases rc; cases "store_bytes (fst rc) (snd rc) xs")
     (simp_all add: emits_def store_bytes_append add.assoc)

lemma emits_emits_bind:
  "Option.bind (emits xs rc) (\<lambda>rc. Option.bind (emits ys rc) f) = Option.bind (emits (xs @ ys) rc) f"
  by (simp add: emits_emits [symmetric] bind_assoc)

lemma emit_junk_emits:
  "emit_junk rdtsc n g rc =
     (case draws rdtsc n g of (vs, g') \<Rightarrow> map_option (Pair g') (emits (concat (map junk_bytes vs)) rc))"
proof (induction n arbitrary: g rc)
  case 0
  then show ?case by (cases rc) (simp add: emits_def)
next
  case (Suc n)
  obtain v g1 where v: "request_secure_random rdtsc g = (v, g1)" by fastforce
  obtain vs g2 where vs: "draws rdtsc n g1 = (vs, g2)" by fastforce
  have "(if v mod 4 = 0 then emit8 0x90 rc
         else if v mod 4 = 1 then emit8 0xFC rc
         else if v mod 4 = 2 then emit8 0xF8 rc
         else do { rc \<leftarrow> emit8 0x87 rc; emit8 0xC9 rc }) = emits (junk_bytes v) rc"
    by (simp add: junk_bytes_def emit8_emits emits_emits)
  then have "emit_junk rdtsc (Suc n) g rc
      = do { rc \<leftarrow> emits (junk_bytes v) rc;
             map_option (Pair g2) (emits (concat (map junk_bytes vs)) rc) }"
    using vs by (simp add: v ext [OF Suc.IH [of g1]])
  also have "\<dots> = map_option (Pair g2) (emits (junk_bytes v @ concat (map junk_bytes vs)) rc)"
    by (cases "emits (junk_bytes v) rc") (simp_all add: emits_emits [symmetric])
  finally show ?case by (simp add: v vs)
qed

lemma length_junk_bytes: "1 \<le> length (junk_bytes v)" "length (junk_bytes v) \<le> 2"
  by (simp_all add: junk_bytes_def)

lemma length_draws: "length (fst (draws rdtsc n g)) = n"
  by (induction n arbitrary: g) (auto simp: split_beta Let_def)

lemma length_junk:
  "length vs \<le> length (concat (map junk_bytes vs))" "length (concat (map junk_bytes vs)) \<le> 2 * length vs"
proof (induction vs)
  case Nil
  { case 1 show ?case by simp next case 2 show ?case by simp }
next
  case (Cons v vs)
  { case 1 show ?case using Cons length_junk_bytes(1) [of v] by simp
  next case 2 show ?case using Cons length_junk_bytes(2) [of v] by simp }
qed

lemma length_payload_tail [simp]: "length (payload_tail msk) = 13"
  by (simp add: payload_tail_def)

lemma payload_size_bounds: "length vs + 13 \<le> length (payload vs msk)" "length (payload vs msk) \<le> 2 * length vs + 13"
  using length_junk [of vs] by (simp_all add: payload_def)

lemma junk_len_bounds: "5 \<le> unat (5 + (v :: u32) mod 25)" "unat (5 + (v :: u32) mod 25) \<le> 29"
proof -
  have "unat (v mod 25) < 25" by (simp add: unat_mod_distrib)
  then show "5 \<le> unat (5 + v mod 25)" "unat (5 + v mod 25) \<le> 29"
    by (simp_all add: unat_word_ariths)
qed

section \<open>Running the payload\<close>

lemma run_junk_step:
  "code_at r k (junk_bytes v) \<Longrightarrow>
     x86_step r \<lparr>eax = a, ecx = c, ip = k\<rparr> = Continue \<lparr>eax = a, ecx = c, ip = k + length (junk_bytes v)\<rparr>"
  by (auto simp: junk_bytes_def x86_step_def split: if_splits)

lemma run_junk:
  "code_at r k (concat (map junk_bytes vs)) \<Longrightarrow>
     x86_run (length vs + fuel) r \<lparr>eax = a, ecx = c, ip = k\<rparr>
     = x86_run fuel r \<lparr>eax = a, ecx = c, ip = k + length (concat (map junk_bytes vs))\<rparr>"
proof (induction vs arbitrary: k)
  case Nil
  then show ?case by simp
next
  case (Cons v vs)
  then have "code_at r k (junk_bytes v)"
    and rest: "code_at r (k + length (junk_bytes v)) (concat (map junk_bytes vs))" by simp_all
  then have "x86_run (length (v # vs) + fuel) r \<lparr>eax = a, ecx = c, ip = k\<rparr>
      = x86_run (length vs + fuel) r \<lparr>eax = a, ecx = c, ip = k + length (junk_bytes v)\<rparr>"
    by (simp add: run_junk_step)
  also have "\<dots> = x86_run fuel r
      \<lparr>eax = a, ecx = c, ip = k + length (junk_bytes v) + length (concat (map junk_bytes vs))\<rparr>"
    by (rule Cons.IH [OF rest])
  finally show ?case by (simp add: add.assoc)
qed

lemma step_xor_eax:
  "r k = Some 0x31 \<Longrightarrow> r (k + 1) = Some 0xC0 \<Longrightarrow>
     x86_step r \<lparr>eax = a, ecx = c, ip = k\<rparr> = Continue \<lparr>eax = 0, ecx = c, ip = k + 2\<rparr>"
  by (simp add: x86_step_def)

lemma step_add_eax:
  "r k = Some 0x05 \<Longrightarrow> fetch32 r (k + 1) = Some v \<Longrightarrow>
     x86_step r \<lparr>eax = a, ecx = c, ip = k\<rparr> = Continue \<lparr>eax = a + v, ecx = c, ip = k + 5\<rparr>"
  by (simp add: x86_step_def)

lemma step_xor_eax_imm:
  "r k = Some 0x35 \<Longrightarrow> fetch32 r (k + 1) = Some v \<Longrightarrow>
     x86_step r \<lparr>eax = a, ecx = c, ip = k\<rparr> = Continue \<lparr>eax = a XOR v, ecx = c, ip = k + 5\<rparr>"
  by (simp add: x86_step_def)

lemma step_ret:
  "r k = Some 0xC3 \<Longrightarrow> x86_step r \<lparr>eax = a, ecx = c, ip = k\<rparr> = Done (Returned a)"
  by (simp add: x86_step_def)

lemma x86_run_Continue:
  "x86_step r c = Continue c' \<Longrightarrow> x86_run (Suc n) r c = x86_run n r c'"
  by simp

lemma payload_tail_at:
  assumes "code_at r k (payload_tail msk)"
  shows "r k = Some 0x31" "r (k + 1) = Some 0xC0" "r (k + 2) = Some 0x05"
    "fetch32 r (k + 2 + 1) = Some msk" "r (k + 2 + 5) = Some 0x35"
    "fetch32 r (k + 2 + 5 + 1) = Some (logic_payload XOR msk)" "r (k + 2 + 5 + 5) = Some 0xC3"
  using assms by (simp_all add: payload_tail_def fetch32_code_at)

lemma run_payload_tail:
  assumes "code_at r k (payload_tail msk)"
  shows "x86_run (4 + fuel) r \<lparr>eax = a, ecx = c, ip = k\<rparr> = Returned logic_payload"
proof -
  note at = payload_tail_at [OF assms]
  have n: "4 + fuel = Suc (Suc (Suc (Suc fuel)))" by simp
  have "msk XOR (logic_payload XOR msk) = logic_payload"
    by (metis xor.commute xor.left_commute xor_self_eq xor.right_neutral)
  moreover have "x86_step r \<lparr>eax = logic_payload, ecx = c, ip = k + 2 + 5 + 5\<rparr> = Done (Returned logic_payload)"
    by (rule step_ret) (rule at(7))
  ultimately show ?thesis
    unfolding n x86_run_Continue [OF step_xor_eax [OF at(1,2)]]
      x86_run_Continue [OF step_add_eax [OF at(3,4)]]
      x86_run_Continue [OF step_xor_eax_imm [OF at(5,6)]]
    by (simp add: add.assoc add.commute [of k])
qed

lemma run_payload:
  assumes "code_at r 0 (payload vs msk)" and "length vs + 4 \<le> fuel"
  shows "x86_run fuel r \<lparr>eax = a, ecx = c, ip = 0\<rparr> = Returned logic_payload"
proof -
  obtain k where k: "fuel = length vs + (4 + k)"
    using assms(2) by (metis add.assoc le_iff_add)
  have "code_at r 0 (concat (map junk_bytes vs))"
    and "code_at r (0 + length (concat (map junk_bytes vs))) (payload_tail msk)"
    using assms(1) by (simp_all only: payload_def code_at_append)
  then show ?thesis by (simp only: k run_junk run_payload_tail)
qed

section \<open>The effect of a generation request\<close>

definition write_at0 :: "u8 list \<Rightarrow> region \<Rightarrow> region" where
  "write_at0 bs r = (\<lambda>j. if j < length bs then Some (bs ! j) else r j)"

lemma store_bytes_at0: "mapped r 0 (length bs) \<Longrightarrow> store_bytes r 0 bs = Some (write_at0 bs r)"
  by (simp add: store_bytes_closed write_at0_def fun_eq_iff)

lemma dom_write_at0: "mapped r 0 (length bs) \<Longrightarrow> dom (write_at0 bs r) = dom r"
  by (auto simp: write_at0_def mapped_def dom_def)

lemma code_at_write_at0: "code_at (write_at0 bs r) 0 bs"
  by (simp add: code_at_def write_at0_def)

lemma bytes_write_at0: "map (\<lambda>j. the (write_at0 bs r j)) [0..<length bs] = bs"
  by (rule nth_equalityI) (simp_all add: write_at0_def)

lemma emit_tail:
  "do { rc \<leftarrow> emit8 0x31 rc; rc \<leftarrow> emit8 0xC0 rc; rc \<leftarrow> emit8 0x05 rc; rc \<leftarrow> stream_emit_32 msk rc;
        rc \<leftarrow> emit8 0x35 rc; rc \<leftarrow> stream_emit_32 (logic_payload XOR msk) rc;
        rc \<leftarrow> emit8 0xC3 rc; f rc }
   = Option.bind (emits (payload_tail msk) rc) f"
  by (simp add: emit8_emits stream_emit_32_emits emits_emits_bind payload_tail_def)

text \<open>A request whose regions have room for 71 bytes succeeds: guest_ram and the transfer buffer
  start with a payload of the drawn numbers, the Repository has committed its metadata.\<close>

lemma generation_result:
  assumes g: "mapped (guest_ram s) 0 71" and b: "mapped (gen_buf s) 0 71" and m: "mapped (metadata s) 0 12"
  obtains vs msk r ma where
    "gen_api_request_generation rdtsc sign base vid cplx s =
       Some (s\<lparr>rng := r, guest_ram := write_at0 (payload vs msk) (guest_ram s),
               gen_buf := write_at0 (payload vs msk) (gen_buf s), metadata := ma\<rparr>)"
    "5 \<le> length vs" "length vs \<le> 29"
    "load_word32 ma 0 = Some vid" "load_word32 ma 1 = Some (of_nat (length (payload vs msk)))"
    "load_word32 ma 2 = Some (sign (jenkins (payload vs msk)))" "dom ma = dom (metadata s)"
proof -
  obtain v g1 where v: "request_secure_random rdtsc (rng s) = (v, g1)" by fastforce
  let ?n = "unat (5 + v mod 25)"
  obtain vs g2 where vs: "draws rdtsc ?n g1 = (vs, g2)" by fastforce
  obtain msk g3 where k: "request_secure_random rdtsc g2 = (msk, g3)" by fastforce
  let ?code = "payload vs msk"
  have "length vs = ?n" using length_draws [of rdtsc ?n g1] vs by simp
  then have len: "5 \<le> length vs" "length vs \<le> 29" using junk_len_bounds [of v] by simp_all
  then have sz: "length ?code \<le> 71" using payload_size_bounds(2) [of vs msk] by simp
  let ?ram = "write_at0 ?code (guest_ram s)"
  let ?gb = "write_at0 ?code (gen_buf s)"
  have mg: "mapped (guest_ram s) 0 (length ?code)" and mb: "mapped (gen_buf s) 0 (length ?code)"
    using g b sz by (auto simp: mapped_def)
  have em: "emits ?code (guest_ram s, 0) = Some (?ram, length ?code)"
    using mg by (simp add: emits_def store_bytes_at0)
  have cp: "c_memcpy (gen_buf s) ?ram (length ?code) = Some ?gb"
    using mg mb by (simp add: c_memcpy_closed mapped_def write_at0_def fun_eq_iff)
  let ?s = "s\<lparr>rng := g3, guest_ram := ?ram, gen_buf := ?gb\<rparr>"
  have st: "size_t_of_int (of_nat (length ?code)) = length ?code"
    using sz by (intro size_t_of_int_nonneg) simp
  have "mapped (gen_buf ?s) 0 (size_t_of_int (of_nat (length ?code)))"
    and "mapped (metadata ?s) 0 12"
    using m by (simp_all add: st, simp add: mapped_def write_at0_def)
  from add_variant_result [OF this, of sign vid]
  obtain m where m: "repo_write_api_add_variant sign vid (of_nat (length ?code)) ?s = Some (?s\<lparr>metadata := m\<rparr>)"
    and mr: "load_word32 m 0 = Some vid" "load_word32 m 1 = Some (of_nat (length ?code))"
      "load_word32 m 2 = Some (sign (jenkins ?code))" "dom m = dom (metadata s)"
    by (auto simp: st bytes_write_at0)
  have "gen_api_request_generation rdtsc sign base vid cplx s = Some (?s\<lparr>metadata := m\<rparr>)"
  proof -
    have split: "emits ?code rc = do { rc \<leftarrow> emits (concat (map junk_bytes vs)) rc; emits (payload_tail msk) rc }" for rc
      by (simp add: payload_def emits_emits)
    show ?thesis
      using em cp m
      by (cases "emits (concat (map junk_bytes vs)) (guest_ram s, 0)")
         (simp_all add: gen_api_request_generation_def v vs k emit_junk_emits emit_tail split Let_def)
  qed
  with mr len show ?thesis by (intro that [where r = g3 and vs = vs and msk = msk and ma = m]) simp_all
qed

section \<open>The stream of drawn numbers\<close>

text \<open>Block \<open>k\<close> of the key stream of an initial state: its counter word advanced by \<open>k\<close>.\<close>

definition keystream_block :: "u32 list \<Rightarrow> nat \<Rightarrow> u32 list" where
  "keystream_block st k = chacha_permute_block (st[12 := st ! 12 + of_nat k])"

text \<open>The generator after \<open>n\<close> draws from the seeded state \<open>st\<close>: \<open>k\<close> blocks are produced.\<close>

definition csprng_at :: "u32 list \<Rightarrow> nat \<Rightarrow> csprng \<Rightarrow> bool" where
  "csprng_at st n r \<longleftrightarrow> length st = 16 \<and> is_csprng_ready r \<and>
     1 \<le> chacha_index r \<and> chacha_index r \<le> 16 \<and>
     (\<exists>k. n + 16 = 16 * k + chacha_index r \<and> chacha_state r = st[12 := st ! 12 + of_nat k]
        \<and> (0 < k \<longrightarrow> chacha_stream r = keystream_block st (k - 1)))"

lemma csprng_at_draw:
  assumes "csprng_at st n r"
  shows "\<exists>r'. request_secure_random rdtsc r = (keystream_block st (n div 16) ! (n mod 16), r')
           \<and> csprng_at st (Suc n) r'"
proof -
  from assms obtain k where k: "n + 16 = 16 * k + chacha_index r"
    "chacha_state r = st[12 := st ! 12 + of_nat k]"
    "0 < k \<longrightarrow> chacha_stream r = keystream_block st (k - 1)"
    and ok: "length st = 16" "is_csprng_ready r" "1 \<le> chacha_index r" "chacha_index r \<le> 16"
    by (auto simp: csprng_at_def)
  show ?thesis
  proof (cases "chacha_index r = 16")
    case True
    with k have "n = 16 * k" by simp
    with True k ok show ?thesis
      by (auto simp: request_secure_random_def csprng_at_def keystream_block_def add.assoc add.commute
          intro!: exI [of _ "Suc k"])
  next
    case False
    with k ok have "0 < k" "n = 16 * (k - 1) + chacha_index r" "chacha_index r < 16" by auto
    then have "n div 16 = k - 1" "n mod 16 = chacha_index r" by simp_all
    with False k ok \<open>0 < k\<close> show ?thesis
      by (auto simp: request_secure_random_def csprng_at_def intro!: exI [of _ k])
  qed
qed

lemma draws_csprng_at:
  assumes "csprng_at st n r"
  shows "fst (draws rdtsc m r) = map (\<lambda>i. keystream_block st (i div 16) ! (i mod 16)) [n..<n + m]"
  using assms
proof (induction m arbitrary: n r)
  case 0
  then show ?case by simp
next
  case (Suc m)
  from csprng_at_draw [OF Suc.prems, of rdtsc]
  obtain r' where r: "request_secure_random rdtsc r = (keystream_block st (n div 16) ! (n mod 16), r')"
    "csprng_at st (Suc n) r'" by blast
  from Suc.IH [OF r(2)] r(1) show ?case
    by (simp add: upt_conv_Cons split_beta del: upt_Suc)
qed

definition seeded :: "(nat \<Rightarrow> u32 \<times> u32) \<Rightarrow> u32 list" where
  "seeded rdtsc = chacha_state (initialize_hardware_entropy rdtsc csprng_boot)"

lemma csprng_at_boot:
  "csprng_at (seeded rdtsc) 0 (initialize_hardware_entropy rdtsc csprng_boot)"
  by (auto simp: csprng_at_def seeded_def initialize_hardware_entropy_def csprng_boot_def
      list_update_id intro!: exI [of _ 0])

lemma request_unseeded:
  "request_secure_random rdtsc csprng_boot
     = request_secure_random rdtsc (initialize_hardware_entropy rdtsc csprng_boot)"
  by (simp add: request_secure_random_def initialize_hardware_entropy_def csprng_boot_def)

lemma draws_unseeded:
  "fst (draws rdtsc n csprng_boot)
     = fst (draws rdtsc n (initialize_hardware_entropy rdtsc csprng_boot))"
  by (cases n) (simp_all add: request_unseeded)

text \<open>C11. The numbers drawn by the Generator since boot are the key stream in counter mode: draw
  number i is word i mod 16 of the block function applied to the seeded state whose counter word
  is advanced by i div 16; no word of the stream is used twice and none is skipped.\<close>

theorem random_is_counter_mode:
  "fst (draws rdtsc n csprng_boot)
     = map (\<lambda>i. chacha_permute_block
                  ((seeded rdtsc)[12 := seeded rdtsc ! 12 + of_nat (i div 16)]) ! (i mod 16)) [0..<n]"
  using draws_csprng_at [OF csprng_at_boot] by (simp add: draws_unseeded keystream_block_def)

text \<open>C12. The quarter round as written is not the ChaCha permutation: it does not depend on the
  words c and d separately but only on one word computed from them, so for every choice of e
  there is a c' whose quarter round with e gives the same result, and the quarter round is not
  injective.\<close>

theorem QR_not_a_permutation:
  "QR a b (c + ROTL (d XOR (a + b)) 16 - ROTL (e XOR (a + b)) 16) e = QR a b c d
   \<and> \<not> inj (\<lambda>(a, b, c, d). QR a b c d)"
proof
  have collide: "QR a b (c + ROTL (d XOR (a + b)) 16 - ROTL (e XOR (a + b)) 16) e = QR a b c d"
    for a b c d e
    by (simp add: QR_def Let_def)
  show "QR a b (c + ROTL (d XOR (a + b)) 16 - ROTL (e XOR (a + b)) 16) e = QR a b c d"
    by (rule collide)
  show "\<not> inj (\<lambda>(a, b, c, d). QR a b c d)"
    using collide [of 0 0 0 0 1] by (simp add: inj_def) (metis zero_neq_one)
qed

end
