(* ===== verification/HK_Worker.thy ===== *)
theory HK_Worker
  imports HK_Repository HK_X86
begin

text \<open>
  The Worker component (worker.c): the integrity hash of its execution arena and the control
  command that calls the arena. The registers at the call are whatever the calling code left
  there, an argument of the command. The arena is 4096 bytes, so 4097 units of fuel run any
  straight-line code in it (\<open>x86_run_enough_fuel\<close>).
\<close>

fun verifier_target_get_hash_loop :: "region \<Rightarrow> nat \<Rightarrow> nat \<Rightarrow> u32 \<Rightarrow> u32 option" where
  "verifier_target_get_hash_loop ram i 0 hash = Some hash"
| "verifier_target_get_hash_loop ram i (Suc n) hash =
     (case ram i of
        None \<Rightarrow> None
      | Some b \<Rightarrow>
          (let hash = hash + ucast b;
               hash = hash + push_bit 10 hash;
               hash = hash XOR drop_bit 6 hash
           in verifier_target_get_hash_loop ram (Suc i) n hash))"

definition verifier_target_get_hash :: "hk_state \<Rightarrow> u32 option" where
  "verifier_target_get_hash s =
     (case verifier_target_get_hash_loop (arena s) 0 4096 0 of
        None \<Rightarrow> None
      | Some hash \<Rightarrow>
          (let hash = hash + push_bit 3 hash;
               hash = hash XOR drop_bit 11 hash;
               hash = hash + push_bit 15 hash
           in Some hash))"

definition jit_fuel :: nat where
  "jit_fuel = 4097"

definition ctrl_api_cmd :: "u32 \<times> u32 \<Rightarrow> c_int \<Rightarrow> c_int \<Rightarrow> hk_state \<Rightarrow> exec_result" where
  "ctrl_api_cmd regs type payload s =
     (if type = 1
      then x86_run jit_fuel (arena s) \<lparr>eax = fst regs, ecx = snd regs, ip = 0\<rparr>
      else Returned 0)"

section \<open>Lemmas\<close>

interpretation worker_hash: jenkins_loop verifier_target_get_hash_loop
  by unfold_locales (simp_all add: jenkins_step_def Let_def split: option.split)

lemma get_hash_bytes:
  "verifier_target_get_hash s = map_option jenkins (load_bytes (arena s) 0 4096)"
  by (cases "load_bytes (arena s) 0 4096")
     (simp_all add: verifier_target_get_hash_def worker_hash.loop_bytes jenkins_def jenkins_final_def Let_def)

text \<open>The command never runs out of fuel: it returns, faults or leaves the modelled subset.\<close>

lemma ctrl_api_cmd_ends:
  assumes "dom (arena s) = {..<4096}"
  shows "ctrl_api_cmd regs type arg s \<noteq> OutOfFuel"
proof -
  have out: "arena s i = None" if "4096 \<le> i" for i
    using that assms by (metis domIff lessThan_iff not_le)
  have "x86_run 4097 (arena s) \<lparr>eax = fst regs, ecx = snd regs, ip = 0\<rparr> \<noteq> OutOfFuel"
    by (rule x86_run_enough_fuel [where n = 4096]) (rule out, assumption, simp)
  then show ?thesis by (simp add: ctrl_api_cmd_def jit_fuel_def)
qed

end
