(* ===== verification/HK_Dispatcher.thy ===== *)
theory HK_Dispatcher
  imports HK_Generator HK_Worker
begin

text \<open>
  The Dispatcher component (dispatcher.c): the check of a variant against its signed metadata,
  the copy into the Worker's arena and the mutation transaction that composes Generator,
  injection and Worker. The interfaces the component uses are arguments named after the CAmkES
  connections (\<open>tpm_verify_api_verify_signature\<close>, \<open>gen_api_request_generation\<close>,
  \<open>worker_ctrl_cmd\<close>). Incrementing an int at its maximum is undefined behaviour: \<open>None\<close>.

  The lemmas about injection are proved once in the context of the locale \<open>attestation\<close> and
  hold of the assembled system through the interpretation by the fTPM.
\<close>

section \<open>Operations\<close>

fun compute_integrity_hash_loop :: "region \<Rightarrow> nat \<Rightarrow> nat \<Rightarrow> u32 \<Rightarrow> u32 option" where
  "compute_integrity_hash_loop data i 0 hash = Some hash"
| "compute_integrity_hash_loop data i (Suc n) hash =
     (case data i of
        None \<Rightarrow> None
      | Some b \<Rightarrow>
          (let hash = hash + ucast b;
               hash = hash + push_bit 10 hash;
               hash = hash XOR drop_bit 6 hash
           in compute_integrity_hash_loop data (Suc i) n hash))"

definition compute_integrity_hash :: "region \<Rightarrow> nat \<Rightarrow> u32 option" where
  "compute_integrity_hash data len =
     (case compute_integrity_hash_loop data 0 len 0 of
        None \<Rightarrow> None
      | Some hash \<Rightarrow>
          (let hash = hash + push_bit 3 hash;
               hash = hash XOR drop_bit 11 hash;
               hash = hash + push_bit 15 hash
           in Some hash))"

definition int_inc :: "c_int \<Rightarrow> c_int option" where
  "int_inc n = (if n = 0x7FFFFFFF then None else Some (n + 1))"

definition execute_secure_runtime_injection ::
    "(u32 \<Rightarrow> u32 \<Rightarrow> c_int) \<Rightarrow> c_int \<Rightarrow> hk_state \<Rightarrow> hk_state option" where
  "execute_secure_runtime_injection tpm_verify_api_verify_signature variant_id s =
     do { stored_vid \<leftarrow> load_word32 (metadata s) 0;
          payload_size \<leftarrow> load_word32 (metadata s) 1;
          expected_signature \<leftarrow> load_word32 (metadata s) 2;
          if stored_vid \<noteq> variant_id then Some s
          else do {
            local_hash \<leftarrow> compute_integrity_hash (guest_ram s) (size_t_of_int payload_size);
            let is_verified = tpm_verify_api_verify_signature local_hash expected_signature;
            if is_verified \<noteq> 0 then do {
              a \<leftarrow> c_memcpy (arena s) (guest_ram s) 4096;
              n \<leftarrow> int_inc (total_mutations_count s);
              Some (s\<lparr>arena := a, current_active_variant := variant_id, total_mutations_count := n\<rparr>) }
            else Some s } }"

definition admin_api_force_mutation ::
    "(u32 \<Rightarrow> u32 \<Rightarrow> c_int) \<Rightarrow> (u64 \<Rightarrow> c_int \<Rightarrow> c_int \<Rightarrow> hk_state \<Rightarrow> hk_state option) \<Rightarrow>
     (c_int \<Rightarrow> c_int \<Rightarrow> hk_state \<Rightarrow> exec_result) \<Rightarrow> hk_state \<Rightarrow> (exec_result \<times> hk_state) option" where
  "admin_api_force_mutation tpm_verify_api_verify_signature gen_api_request worker_ctrl_cmd s =
     do { next_id \<leftarrow> int_inc (total_mutations_count s);
          s \<leftarrow> gen_api_request 0x1000 next_id 5 s;
          s \<leftarrow> execute_secure_runtime_injection tpm_verify_api_verify_signature next_id s;
          let worker_status = worker_ctrl_cmd 1 0 s;
          Some (worker_status, s) }"

text \<open>The two numbers the status report prints.\<close>

definition admin_api_print_status :: "hk_state \<Rightarrow> c_int \<times> c_int" where
  "admin_api_print_status s = (current_active_variant s, total_mutations_count s)"

definition dispatcher_hw_tick_handle :: "hk_state \<Rightarrow> hk_state" where
  "dispatcher_hw_tick_handle s = s"

section \<open>The hash\<close>

interpretation dispatcher_hash: jenkins_loop compute_integrity_hash_loop
  by unfold_locales (simp_all add: jenkins_step_def Let_def split: option.split)

lemma compute_integrity_hash_bytes:
  "compute_integrity_hash data len = map_option jenkins (load_bytes data 0 len)"
  by (cases "load_bytes data 0 len")
     (simp_all add: compute_integrity_hash_def dispatcher_hash.loop_bytes jenkins_def jenkins_final_def Let_def)

text \<open>The first \<open>n\<close> bytes of a region as a list.\<close>

definition first_bytes :: "region \<Rightarrow> nat \<Rightarrow> u8 list" where
  "first_bytes r n = map (\<lambda>j. the (r j)) [0..<n]"

lemma integrity_hash_first_bytes:
  "compute_integrity_hash r n = (if mapped r 0 n then Some (jenkins (first_bytes r n)) else None)"
  by (simp add: compute_integrity_hash_bytes load_bytes_closed first_bytes_def)

section \<open>Injection under the contract of the attestation service\<close>

definition arena_loaded :: "hk_state \<Rightarrow> region" where
  "arena_loaded s = (\<lambda>i. if i < 4096 then guest_ram s i else arena s i)"

context attestation
begin

lemma injection_accepts:
  assumes "load_word32 (metadata s) 0 = Some vid" "load_word32 (metadata s) 1 = Some sz"
    "load_word32 (metadata s) 2 = Some (sign (jenkins (first_bytes (guest_ram s) (size_t_of_int sz))))"
    "mapped (guest_ram s) 0 (size_t_of_int sz)" "mapped (guest_ram s) 0 4096" "mapped (arena s) 0 4096"
    "int_inc (total_mutations_count s) = Some n"
  shows "execute_secure_runtime_injection verify vid s =
    Some (s\<lparr>arena := arena_loaded s, current_active_variant := vid, total_mutations_count := n\<rparr>)"
  using assms
  by (simp add: execute_secure_runtime_injection_def integrity_hash_first_bytes verify_sign Let_def
      c_memcpy_closed arena_loaded_def del: One_nat_def)

lemma injection_changes_only_signed:
  assumes run: "execute_secure_runtime_injection verify vid s = Some s'"
    and changed: "arena s' \<noteq> arena s"
  shows "\<exists>sz. load_word32 (metadata s) 0 = Some vid \<and> load_word32 (metadata s) 1 = Some sz
    \<and> load_word32 (metadata s) 2 = Some (sign (jenkins (first_bytes (guest_ram s) (size_t_of_int sz))))
    \<and> s' = s\<lparr>arena := arena_loaded s, current_active_variant := vid,
             total_mutations_count := total_mutations_count s + 1\<rparr>"
proof -
  from run changed obtain sz sg h a n where
    m: "load_word32 (metadata s) 0 = Some vid" "load_word32 (metadata s) 1 = Some sz"
      "load_word32 (metadata s) 2 = Some sg"
    and h: "compute_integrity_hash (guest_ram s) (size_t_of_int sz) = Some h" "verify h sg \<noteq> 0"
    and a: "c_memcpy (arena s) (guest_ram s) 4096 = Some a"
    and n: "int_inc (total_mutations_count s) = Some n"
    and s': "s' = s\<lparr>arena := a, current_active_variant := vid, total_mutations_count := n\<rparr>"
    by (auto simp: execute_secure_runtime_injection_def Let_def bind_eq_Some_conv split: if_splits)
  have "sg = sign h" using h(2) by (rule verify_only)
  moreover have "h = jenkins (first_bytes (guest_ram s) (size_t_of_int sz))"
    using h(1) by (simp add: integrity_hash_first_bytes split: if_splits)
  moreover have "a = arena_loaded s"
    using a by (simp add: c_memcpy_closed arena_loaded_def split: if_splits)
  ultimately show ?thesis
    using m n s' by (auto simp: int_inc_def split: if_splits)
qed

lemma injection_blocks:
  assumes "load_word32 (metadata s) 0 = Some v" "load_word32 (metadata s) 1 = Some sz"
    "load_word32 (metadata s) 2 = Some sg" "mapped (guest_ram s) 0 (size_t_of_int sz)"
    "v \<noteq> vid \<or> sg \<noteq> sign (jenkins (first_bytes (guest_ram s) (size_t_of_int sz)))"
  shows "execute_secure_runtime_injection verify vid s = Some s"
  using assms
  by (auto simp: execute_secure_runtime_injection_def integrity_hash_first_bytes verify_reject Let_def
      simp del: One_nat_def)

end

end
