(* ===== verification/HK_Vfs.thy ===== *)
theory HK_Vfs
  imports HK_State
begin

text \<open>
  The VirtualFileSystem component (vfs_server.c) and the Worker's POSIX layer that calls it
  (posix_layer.c). The payload of a write travels in the shared buffer, the calls carry the
  byte count only; the state of the server is the offset of the log and the zeroed disk. The
  connection fs_api of the Worker is an argument of the POSIX layer's procedures. The text
  vsnprintf produces is an argument of \<open>print_posix\<close>, which truncates it to the buffer.
\<close>

section \<open>The server\<close>

definition lwip_socket :: "c_int \<Rightarrow> c_int \<Rightarrow> c_int \<Rightarrow> c_int" where
  "lwip_socket domain type protocol = 101"

definition lwip_send :: "c_int \<Rightarrow> u8 list \<Rightarrow> c_int \<Rightarrow> c_int \<Rightarrow> c_int" where
  "lwip_send sockfd buf len flags = len"

definition DISK_SIZE :: u32 where
  "DISK_SIZE = 1048576"

definition LOG_FD :: c_int where
  "LOG_FD = 5"

definition SOCKET_FD_BASE :: c_int where
  "SOCKET_FD_BASE = 100"

definition posix_api_open :: "string \<Rightarrow> c_int \<Rightarrow> c_int" where
  "posix_api_open path flags = (if path = ''/var/log/worker.log'' then LOG_FD else - 1)"

definition posix_api_read :: "c_int \<Rightarrow> c_int \<Rightarrow> hk_state \<Rightarrow> c_int" where
  "posix_api_read fd count s =
     (if fd = LOG_FD \<and> disk_offset s > 0
      then (let read_size = (if count < disk_offset s then count else disk_offset s) in read_size)
      else 0)"

definition posix_api_write :: "c_int \<Rightarrow> c_int \<Rightarrow> hk_state \<Rightarrow> c_int \<times> hk_state" where
  "posix_api_write fd count s =
     (if fd = LOG_FD then
        (if disk_offset s + count \<ge> DISK_SIZE then (- 1, s)
         else (count, s\<lparr>disk_offset := disk_offset s + count\<rparr>))
      else if fd = 1 \<or> fd = 2 then (count, s)
      else if SOCKET_FD_BASE \<le>s fd then (count, s)
      else (- 1, s))"

definition posix_api_close :: "c_int \<Rightarrow> c_int" where
  "posix_api_close fd = 0"

definition vfs_run :: "hk_state \<Rightarrow> hk_state option" where
  "vfs_run s = do { d \<leftarrow> c_memset (disk s) 0 (unat DISK_SIZE); Some (s\<lparr>disk := d\<rparr>) }"

section \<open>The Worker's POSIX layer\<close>

definition hk_posix_write ::
    "(c_int \<Rightarrow> c_int \<Rightarrow> hk_state \<Rightarrow> c_int \<times> hk_state) \<Rightarrow> c_int \<Rightarrow> u64 \<Rightarrow> hk_state \<Rightarrow> u64 \<times> hk_state" where
  "hk_posix_write fs_api_write fd count s =
     (let (r, s) = fs_api_write fd (ucast count) s in (scast r, s))"

definition open_file :: "(string \<Rightarrow> c_int \<Rightarrow> c_int) \<Rightarrow> string \<Rightarrow> c_int" where
  "open_file fs_api_open path = fs_api_open path 0"

definition read_file :: "(c_int \<Rightarrow> c_int \<Rightarrow> hk_state \<Rightarrow> c_int) \<Rightarrow> c_int \<Rightarrow> c_int \<Rightarrow> hk_state \<Rightarrow> c_int" where
  "read_file fs_api_read fd max_len s = fs_api_read fd max_len s"

text \<open>\<open>text\<close> is the formatted text; vsnprintf keeps its first 255 characters, strlen stops at
  the first NUL.\<close>

definition print_posix ::
    "(c_int \<Rightarrow> c_int \<Rightarrow> hk_state \<Rightarrow> c_int \<times> hk_state) \<Rightarrow> string \<Rightarrow> hk_state \<Rightarrow> hk_state" where
  "print_posix fs_api_write txt s =
     (let buffer = take 255 txt;
          len = length (takeWhile (\<lambda>c. c \<noteq> CHR 0x00) buffer)
      in snd (hk_posix_write fs_api_write 1 (of_nat len) s))"

section \<open>Sequences of calls\<close>

datatype vfs_call =
    VOpen string c_int
  | VRead c_int c_int
  | VWrite c_int c_int
  | VClose c_int

fun vfs_call_step :: "vfs_call \<Rightarrow> hk_state \<Rightarrow> c_int \<times> hk_state" where
  "vfs_call_step (VOpen path flags) s = (posix_api_open path flags, s)"
| "vfs_call_step (VRead fd count) s = (posix_api_read fd count s, s)"
| "vfs_call_step (VWrite fd count) s = posix_api_write fd count s"
| "vfs_call_step (VClose fd) s = (posix_api_close fd, s)"

fun vfs_calls :: "vfs_call list \<Rightarrow> hk_state \<Rightarrow> c_int list \<times> hk_state" where
  "vfs_calls [] s = ([], s)"
| "vfs_calls (c # cs) s =
     (let (r, s) = vfs_call_step c s; (rs, s) = vfs_calls cs s in (r # rs, s))"

text \<open>The bytes of the log writes that were accepted.\<close>

fun accepted :: "vfs_call \<times> c_int \<Rightarrow> int" where
  "accepted (VWrite fd count, r) = (if fd = LOG_FD \<and> r \<noteq> - 1 then sint count else 0)"
| "accepted (_, r) = 0"

fun counts_nonneg :: "vfs_call \<Rightarrow> bool" where
  "counts_nonneg (VWrite fd count) = (0 \<le> sint count)"
| "counts_nonneg _ = True"

section \<open>Lemmas\<close>

lemmas fd_defs = LOG_FD_def SOCKET_FD_BASE_def DISK_SIZE_def

lemma write_quota:
  assumes "disk_offset s < DISK_SIZE"
  shows "disk_offset (snd (posix_api_write fd count s)) < DISK_SIZE"
  using assms by (auto simp: posix_api_write_def not_le)

lemma call_step_quota:
  "disk_offset s < DISK_SIZE \<Longrightarrow> disk_offset (snd (vfs_call_step c s)) < DISK_SIZE"
  by (cases c) (simp_all add: write_quota)

lemma calls_quota: "disk_offset s < DISK_SIZE \<Longrightarrow> disk_offset (snd (vfs_calls cs s)) < DISK_SIZE"
  by (induction cs arbitrary: s) (simp_all add: split_beta call_step_quota)

text \<open>Below the quota the addition of a non-negative count does not wrap.\<close>

lemma write_log_uint:
  fixes off count :: u32
  assumes "off < DISK_SIZE" and "0 \<le> sint count"
  shows "uint (off + count) = uint off + sint count"
proof -
  have c: "sint count < 2147483648" using sint_lt [of count] by simp
  have u: "uint count = sint count"
    using assms(2) c by (simp add: uint_sint take_bit_int_eq_self)
  have "uint off < 1048576" using assms(1) by (simp add: word_less_def fd_defs)
  with u c show ?thesis by (simp add: uint_plus_if_size word_size)
qed

lemma call_step_accounting:
  assumes "disk_offset s < DISK_SIZE" and "counts_nonneg c" and "vfs_call_step c s = (r, s')"
  shows "uint (disk_offset s') = uint (disk_offset s) + accepted (c, r)"
proof (cases c)
  case (VWrite fd count)
  with assms(2) have nn: "0 \<le> sint count" by simp
  then have "count \<noteq> - 1" by auto
  with assms VWrite write_log_uint [OF assms(1) nn] show ?thesis
    by (auto simp: posix_api_write_def split: if_splits)
qed (use assms in auto)

lemma calls_accounting:
  assumes "disk_offset s < DISK_SIZE" and "list_all counts_nonneg cs"
  shows "uint (disk_offset (snd (vfs_calls cs s))) =
    uint (disk_offset s) + sum_list (map accepted (zip cs (fst (vfs_calls cs s))))"
  using assms
proof (induction cs arbitrary: s)
  case Nil
  then show ?case by simp
next
  case (Cons c cs)
  obtain r s1 where r: "vfs_call_step c s = (r, s1)" by fastforce
  with Cons.prems(1) have "disk_offset s1 < DISK_SIZE" using call_step_quota [of s c] by simp
  with Cons.IH [of s1] Cons.prems(2) call_step_accounting [OF Cons.prems(1) _ r] r show ?case
    by (simp add: split_beta)
qed

lemma read_bounds: "posix_api_read fd count s \<le> disk_offset s"
  by (auto simp: posix_api_read_def Let_def less_imp_le)

section \<open>Properties\<close>

text \<open>C14. Whatever sequence of open, read, write and close calls the Worker makes after boot,
  with any descriptors and any counts (negative ones included), the log never exceeds the disk,
  and a read never reports more bytes than the log holds.\<close>

theorem vfs_quota_never_exceeded:
  "disk_offset (snd (vfs_calls cs hk_boot)) < DISK_SIZE
   \<and> posix_api_read fd count (snd (vfs_calls cs hk_boot)) \<le> disk_offset (snd (vfs_calls cs hk_boot))"
proof -
  have "disk_offset hk_boot < DISK_SIZE" by (simp add: hk_boot_def fd_defs)
  then have "disk_offset (snd (vfs_calls cs hk_boot)) < DISK_SIZE" by (rule calls_quota)
  then show ?thesis by (simp add: read_bounds)
qed

text \<open>C15. If no call passes a negative count, the size of the log is exactly the number of bytes
  of the log writes that were acknowledged.\<close>

theorem vfs_log_accounting:
  assumes "list_all counts_nonneg cs"
  shows "uint (disk_offset (snd (vfs_calls cs hk_boot)))
    = sum_list (map accepted (zip cs (fst (vfs_calls cs hk_boot))))"
  using calls_accounting [OF _ assms, of hk_boot] by (simp add: hk_boot_def fd_defs)

theorem vfs_log_accounting_witness:
  "list_all counts_nonneg [VWrite 5 100, VWrite 1 7, VWrite 5 28]
   \<and> uint (disk_offset (snd (vfs_calls [VWrite 5 100, VWrite 1 7, VWrite 5 28] hk_boot)))
    = sum_list (map accepted (zip [VWrite 5 100, VWrite 1 7, VWrite 5 28]
        (fst (vfs_calls [VWrite 5 100, VWrite 1 7, VWrite 5 28] hk_boot))))"
proof -
  have h: "list_all counts_nonneg [VWrite 5 100, VWrite 1 7, VWrite 5 28]" by simp
  show ?thesis using h vfs_log_accounting [OF h] by blast
qed

text \<open>C16. A log write with a negative count is accepted as long as the log is that long: the
  addition wraps, the call reports the negative count as success and the log shrinks.\<close>

theorem vfs_negative_count_rewinds:
  assumes "k \<le> disk_offset s" and "disk_offset s < DISK_SIZE"
  shows "posix_api_write LOG_FD (- k) s = (- k, s\<lparr>disk_offset := disk_offset s - k\<rparr>)"
proof -
  have "disk_offset s - k \<le> disk_offset s" using assms(1) by (rule word_sub_le)
  also note assms(2)
  finally have "disk_offset s - k < DISK_SIZE" .
  then show ?thesis by (simp add: posix_api_write_def not_le [symmetric])
qed

theorem vfs_negative_count_rewinds_witness:
  "(40 :: u32) \<le> disk_offset (hk_boot\<lparr>disk_offset := 100\<rparr>)
   \<and> disk_offset (hk_boot\<lparr>disk_offset := 100\<rparr>) < DISK_SIZE
   \<and> posix_api_write LOG_FD (- 40) (hk_boot\<lparr>disk_offset := 100\<rparr>) = (- 40, hk_boot\<lparr>disk_offset := 60\<rparr>)"
  using vfs_negative_count_rewinds [of 40 "hk_boot\<lparr>disk_offset := 100\<rparr>"] by (simp add: fd_defs)

end
