(* ===== verification/HK_Scheduler.thy ===== *)
theory HK_Scheduler
  imports HK_State
begin

text \<open>
  The Scheduler component (scheduler.c). A busy loop counts a 64-bit variable up to its bound;
  \<open>spin_loop\<close> returns the number of iterations it performs and so is also the delay loop of the
  AdminConsole. One round of the endless loop in run is \<open>scheduler_round\<close>; the quantum may be
  changed between any two rounds by the set_quantum procedure.
\<close>

lemma unat_suc_below:
  fixes i :: u64
  assumes "i < bound"
  shows "unat (i + 1) = Suc (unat i)"
proof -
  have "i + 1 \<noteq> 0"
  proof
    assume "i + 1 = 0"
    then have "i = - 1" by (simp add: eq_neg_iff_add_eq_0)
    with assms show False by simp
  qed
  then show ?thesis by (simp add: unatSuc add.commute)
qed

function spin_loop :: "u64 \<Rightarrow> u64 \<Rightarrow> nat" where
  "spin_loop i bound = (if i < bound then Suc (spin_loop (i + 1) bound) else 0)"
  by pat_completeness auto

termination
proof (relation "measure (\<lambda>(i, bound). unat bound - unat i)")
  show "((i + 1, bound), (i, bound)) \<in> measure (\<lambda>(i, bound). unat bound - unat i)"
    if "i < bound" for i bound :: u64
    using that by (simp add: unat_suc_below [OF that] word_less_nat_alt)
qed simp

declare spin_loop.simps [simp del]

definition ctrl_set_quantum :: "c_int \<Rightarrow> hk_state \<Rightarrow> hk_state" where
  "ctrl_set_quantum milliseconds s = s\<lparr>current_quantum_ms := milliseconds\<rparr>"

definition scheduler_delay :: "hk_state \<Rightarrow> u64" where
  "scheduler_delay s = ucast (current_quantum_ms s) * 100000"

text \<open>One round: the iterations of the delay loop, then the tick, whose handler is an argument.\<close>

definition scheduler_round :: "(hk_state \<Rightarrow> hk_state) \<Rightarrow> hk_state \<Rightarrow> nat \<times> hk_state" where
  "scheduler_round hw_tick_emit s =
     (let delay = scheduler_delay s;
          n = spin_loop 0 delay
      in (n, hw_tick_emit s))"

lemma spin_loop_count: "spin_loop i bound = unat bound - unat i"
proof (induction i bound rule: spin_loop.induct)
  case (1 i bound)
  then show ?case
    by (auto simp: spin_loop.simps [of i bound] unat_suc_below word_less_nat_alt)
qed

lemma scheduler_delay_unat: "unat (scheduler_delay s) = unat (current_quantum_ms s) * 100000"
proof -
  have "unat (current_quantum_ms s) < 4294967296"
    using unsigned_less [where 'a = nat, of "current_quantum_ms s"] by simp
  then have b: "unat (current_quantum_ms s) * 100000 < 18446744073709551616"
    and u: "unat (ucast (current_quantum_ms s) :: u64) = unat (current_quantum_ms s)"
    by (simp_all add: unsigned_ucast_eq take_bit_nat_eq_self)
  have "unat (ucast (current_quantum_ms s) * 100000 :: u64)
      = unat (ucast (current_quantum_ms s) :: u64) * unat (100000 :: u64)"
    by (rule unat_mult_lem [THEN iffD1]) (use b u in simp)
  with u show ?thesis by (simp add: scheduler_delay_def)
qed

text \<open>C18. The delay between two ticks is exactly 100000 iterations per millisecond of quantum:
  the 64-bit product does not overflow for any quantum, the busy loop terminates, and a round
  leaves the quantum to the next set_quantum call. A negative argument of set_quantum is taken
  as a quantum of more than 2^31 milliseconds.\<close>

theorem scheduler_round_delay:
  "fst (scheduler_round tick (ctrl_set_quantum ms s)) = unat ms * 100000
   \<and> unat ms = nat (sint ms mod 4294967296)"
proof
  show "fst (scheduler_round tick (ctrl_set_quantum ms s)) = unat ms * 100000"
    by (simp add: scheduler_round_def spin_loop_count scheduler_delay_unat ctrl_set_quantum_def Let_def)
  have "uint ms = sint ms mod 4294967296"
    by (simp add: uint_sint take_bit_eq_mod)
  then show "unat ms = nat (sint ms mod 4294967296)" by (metis unat_eq_nat_uint)
qed

end
