(* ===== verification/HK_System.thy ===== *)
theory HK_System
  imports HK_Dispatcher HK_Vfs HK_Scheduler
begin

text \<open>
  The assembled system (hk_system.camkes) and the AdminConsole (admin.c). The composition
  instantiates the interface arguments of the components along the connections of the
  assembly. What the hardware supplies to one transaction is collected in the record \<open>hw\<close>:
  the time stamp counter, the stack contents under the two hash contexts of the fTPM and the
  registers at the call of the arena.
\<close>

section \<open>Composition\<close>

record hw =
  tsc :: "nat \<Rightarrow> u32 \<times> u32"
  stack_sign :: "u8 list"
  stack_verify :: "u8 list"
  call_regs :: "u32 \<times> u32"

definition hk_force_mutation :: "hw \<Rightarrow> hk_state \<Rightarrow> (exec_result \<times> hk_state) option" where
  "hk_force_mutation h =
     admin_api_force_mutation (crypto_api_verify_signature (stack_verify h))
       (gen_api_request_generation (tsc h) (crypto_api_sign_data (stack_sign h)))
       (ctrl_api_cmd (call_regs h))"

definition symbolic_sleep :: "u64 \<Rightarrow> nat" where
  "symbolic_sleep iterations = spin_loop 0 iterations"

text \<open>One round of the console's loop: the status report, a pause of 20000000 iterations, the
  transaction, a pause of 800000000 iterations. The iterations are part of the result.\<close>

definition admin_round :: "hw \<Rightarrow> hk_state \<Rightarrow> ((c_int \<times> c_int) \<times> exec_result \<times> nat \<times> hk_state) option" where
  "admin_round h s =
     do { let status = admin_api_print_status s;
          let n = symbolic_sleep 20000000;
          (r, s) \<leftarrow> hk_force_mutation h s;
          let m = symbolic_sleep 800000000;
          Some (status, r, n + m, s) }"

fun admin_run :: "hw list \<Rightarrow> hk_state \<Rightarrow> (((c_int \<times> c_int) \<times> exec_result) list \<times> hk_state) option" where
  "admin_run [] s = Some ([], s)"
| "admin_run (h # hs) s =
     do { (status, r, n, s) \<leftarrow> admin_round h s;
          (log, s) \<leftarrow> admin_run hs s;
          Some ((status, r) # log, s) }"

definition verifier_run :: "hk_state \<Rightarrow> hk_state" where
  "verifier_run s = s"

section \<open>One transaction\<close>

lemma regions_ok_mapped:
  assumes "regions_ok s"
  shows "mapped (guest_ram s) 0 71" "mapped (gen_buf s) 0 71" "mapped (metadata s) 0 12"
    "mapped (guest_ram s) 0 4096" "mapped (arena s) 0 4096"
  using assms by (simp_all add: regions_ok_def mapped_of_dom)

text \<open>Executing an arena that starts with a payload returns the payload's constant.\<close>

lemma cmd_payload:
  assumes "code_at (arena s) 0 (payload vs msk)" and "length vs \<le> 29"
  shows "ctrl_api_cmd regs 1 arg s = Returned 0xDEADBEEF"
proof -
  have "length vs + 4 \<le> jit_fuel" using assms(2) by (simp add: jit_fuel_def)
  from run_payload [OF assms(1) this] show ?thesis
    by (simp add: ctrl_api_cmd_def logic_payload_def)
qed

lemma transaction:
  assumes ok: "regions_ok s" and n: "int_inc (total_mutations_count s) = Some n"
  shows "\<exists>s'. hk_force_mutation h s = Some (Returned 0xDEADBEEF, s') \<and> regions_ok s'
    \<and> total_mutations_count s' = n \<and> current_active_variant s' = n
    \<and> disk s' = disk s \<and> disk_offset s' = disk_offset s \<and> current_quantum_ms s' = current_quantum_ms s"
proof -
  note m = regions_ok_mapped [OF ok]
  let ?sign = "crypto_api_sign_data (stack_sign h)"
  obtain vs msk r ma where
    gen: "gen_api_request_generation (tsc h) ?sign 0x1000 n 5 s =
       Some (s\<lparr>rng := r, guest_ram := write_at0 (payload vs msk) (guest_ram s),
               gen_buf := write_at0 (payload vs msk) (gen_buf s), metadata := ma\<rparr>)"
    and len: "5 \<le> length vs" "length vs \<le> 29"
    and md: "load_word32 ma 0 = Some n" "load_word32 ma 1 = Some (of_nat (length (payload vs msk)))"
      "load_word32 ma 2 = Some (?sign (jenkins (payload vs msk)))" "dom ma = dom (metadata s)"
    by (rule generation_result [OF m(1,2,3)])
  let ?code = "payload vs msk"
  let ?s1 = "s\<lparr>rng := r, guest_ram := write_at0 ?code (guest_ram s),
               gen_buf := write_at0 ?code (gen_buf s), metadata := ma\<rparr>"
  have sz: "length ?code \<le> 71" using payload_size_bounds(2) [of vs msk] len by simp
  then have st: "size_t_of_int (of_nat (length ?code)) = length ?code"
    by (intro size_t_of_int_nonneg) simp
  have mc: "mapped (guest_ram s) 0 (length ?code)" "mapped (gen_buf s) 0 (length ?code)"
    using m(1,2) sz by (auto simp: mapped_def)
  have mg: "mapped (guest_ram ?s1) 0 4096"
    using m(4) dom_write_at0 [OF mc(1)] by (simp add: mapped_dom)
  have mp: "mapped (guest_ram ?s1) 0 (length ?code)"
    using mc(1) dom_write_at0 [OF mc(1)] by (simp add: mapped_dom)
  let ?s2 = "?s1\<lparr>arena := arena_loaded ?s1, current_active_variant := n, total_mutations_count := n\<rparr>"
  have inj: "execute_secure_runtime_injection (crypto_api_verify_signature (stack_verify h)) n ?s1 = Some ?s2"
    by (rule tpm.injection_accepts [where sz = "of_nat (length ?code)"])
       (use md mg mp m(5) n in \<open>simp_all add: st first_bytes_def bytes_write_at0\<close>)
  have at: "code_at (arena ?s2) 0 ?code"
    using sz by (simp add: code_at_def arena_loaded_def write_at0_def)
  have "dom (arena_loaded ?s1) = dom (arena s)"
    using mg m(5) by (auto simp: arena_loaded_def mapped_def dom_def)
  then have "regions_ok ?s2"
    using ok md(4) dom_write_at0 [OF mc(1)] dom_write_at0 [OF mc(2)] by (simp add: regions_ok_def)
  moreover have "hk_force_mutation h s = Some (Returned 0xDEADBEEF, ?s2)"
    by (simp add: hk_force_mutation_def admin_api_force_mutation_def n gen inj Let_def
        cmd_payload [OF at len(2)])
  ultimately show ?thesis by (intro exI [of _ ?s2]) simp
qed

section \<open>The console's loop\<close>

lemma int_inc_below:
  "k + 1 < 2147483648 \<Longrightarrow> int_inc (of_nat k) = Some (of_nat (Suc k))"
proof -
  assume k: "k + 1 < 2147483648"
  have "unat (of_nat k :: c_int) \<noteq> unat (0x7FFFFFFF :: c_int)"
    using k by (simp add: unat_of_nat)
  then have "(of_nat k :: c_int) \<noteq> 0x7FFFFFFF" by metis
  then show ?thesis by (simp add: int_inc_def add.commute)
qed

lemma admin_run_counts:
  assumes "regions_ok s" and "total_mutations_count s = of_nat k" and "current_active_variant s = of_nat k"
    and "k + length hs < 2147483648"
  shows "\<exists>s'. admin_run hs s =
      Some (map (\<lambda>i. ((of_nat i, of_nat i), Returned 0xDEADBEEF)) [k..<k + length hs], s')
    \<and> regions_ok s' \<and> total_mutations_count s' = of_nat (k + length hs)"
  using assms
proof (induction hs arbitrary: s k)
  case Nil
  then show ?case by simp
next
  case (Cons h hs)
  have inc: "int_inc (total_mutations_count s) = Some (of_nat (Suc k))"
    using Cons.prems(2,4) int_inc_below [of k] by simp
  from transaction [OF Cons.prems(1) inc, of h]
  obtain s1 where s1: "hk_force_mutation h s = Some (Returned 0xDEADBEEF, s1)" "regions_ok s1"
    "total_mutations_count s1 = of_nat (Suc k)" "current_active_variant s1 = of_nat (Suc k)" by blast
  from Cons.IH [OF s1(2-4)] Cons.prems(4)
  obtain s2 where "admin_run hs s1 =
      Some (map (\<lambda>i. ((of_nat i, of_nat i), Returned 0xDEADBEEF)) [Suc k..<Suc k + length hs], s2)"
    "regions_ok s2" "total_mutations_count s2 = of_nat (Suc k + length hs)" by fastforce
  with s1(1) Cons.prems(2,3) show ?case
    by (simp add: admin_round_def admin_api_print_status_def Let_def upt_conv_Cons del: upt_Suc)
qed

section \<open>Properties\<close>

text \<open>C1. A mutation transaction always completes: in every state whose regions have the extents
  of the assembly, whatever the time stamp counter, the stack and the registers hold, the
  generated variant passes attestation, is copied into the arena, runs to its return
  instruction and yields 0xDEADBEEF; the counter and the active variant become the next
  identifier and the file server and the timer are untouched.\<close>

theorem mutation_transaction:
  assumes "regions_ok s" and "total_mutations_count s \<noteq> 0x7FFFFFFF"
  shows "\<exists>s'. hk_force_mutation h s = Some (Returned 0xDEADBEEF, s') \<and> regions_ok s'
    \<and> total_mutations_count s' = total_mutations_count s + 1
    \<and> current_active_variant s' = total_mutations_count s + 1
    \<and> disk s' = disk s \<and> disk_offset s' = disk_offset s \<and> current_quantum_ms s' = current_quantum_ms s"
  by (rule transaction [OF assms(1)]) (use assms(2) in \<open>simp add: int_inc_def\<close>)

definition hw_example :: hw where
  "hw_example = \<lparr>tsc = (\<lambda>i. (of_nat i, 7)), stack_sign = [1, 2], stack_verify = [], call_regs = (3, 4)\<rparr>"

theorem mutation_transaction_witness:
  "regions_ok hk_boot \<and> total_mutations_count hk_boot \<noteq> 0x7FFFFFFF \<and>
   (\<exists>s'. hk_force_mutation hw_example hk_boot = Some (Returned 0xDEADBEEF, s') \<and> regions_ok s'
    \<and> total_mutations_count s' = 1)"
proof -
  have h: "total_mutations_count hk_boot \<noteq> 0x7FFFFFFF" by (simp add: hk_boot_def)
  have z: "total_mutations_count hk_boot = 0" by (simp add: hk_boot_def)
  show ?thesis
    using regions_ok_boot h mutation_transaction [OF regions_ok_boot h, of hw_example] z by auto
qed

text \<open>C4. From boot, any number of rounds of the console below 2^31 runs through: round i reports
  i as the active variant and as the number of swaps before its transaction, and every
  transaction returns 0xDEADBEEF.\<close>

theorem admin_run_from_boot:
  assumes "length hs < 2147483648"
  shows "\<exists>s'. admin_run hs hk_boot =
      Some (map (\<lambda>i. ((of_nat i, of_nat i), Returned 0xDEADBEEF)) [0..<length hs], s')
    \<and> regions_ok s' \<and> total_mutations_count s' = of_nat (length hs)"
  using admin_run_counts [OF regions_ok_boot, of 0 hs] assms by (simp add: hk_boot_def)

theorem admin_run_from_boot_witness:
  "length [hw_example, hw_example, hw_example] < 2147483648 \<and>
   (\<exists>s'. admin_run [hw_example, hw_example, hw_example] hk_boot =
      Some ([((0, 0), Returned 0xDEADBEEF), ((1, 1), Returned 0xDEADBEEF), ((2, 2), Returned 0xDEADBEEF)], s')
    \<and> regions_ok s' \<and> total_mutations_count s' = 3)"
  using admin_run_from_boot [of "[hw_example, hw_example, hw_example]"] by (auto simp: upt_rec)

text \<open>A state with the three-byte variant 7 (XOR EAX, EAX; RET) in guest_ram and its signed
  metadata.\<close>

definition example_code :: "u8 list" where
  "example_code = [0x31, 0xC0, 0xC3]"

definition example_state :: hk_state where
  "example_state = hk_boot\<lparr>guest_ram := write_at0 example_code (guest_ram hk_boot),
     metadata := write_at0 (le32 7 @ le32 3 @ le32 (crypto_api_sign_data [] (jenkins example_code)))
       (metadata hk_boot)\<rparr>"

lemma load_word32_code_at: "code_at r (4 * k) (le32 v) \<Longrightarrow> load_word32 r k = Some v"
  using load_bytes_code_at [of r "4 * k" "le32 v"] by (simp add: load_word32_def)

lemma example_metadata:
  "load_word32 (metadata example_state) 0 = Some 7" "load_word32 (metadata example_state) 1 = Some 3"
  "load_word32 (metadata example_state) 2 = Some (crypto_api_sign_data [] (jenkins example_code))"
proof -
  have "code_at (metadata example_state) 0
      (le32 7 @ le32 3 @ le32 (crypto_api_sign_data [] (jenkins example_code)))"
    unfolding example_state_def by (simp add: code_at_write_at0 del: code_at_append)
  then show "load_word32 (metadata example_state) 0 = Some 7" "load_word32 (metadata example_state) 1 = Some 3"
    "load_word32 (metadata example_state) 2 = Some (crypto_api_sign_data [] (jenkins example_code))"
    by (simp_all add: load_word32_code_at)
qed

lemmas example_words = example_metadata example_metadata(2) [unfolded One_nat_def]

lemma example_count: "int_inc (total_mutations_count example_state) = Some 1"
  by (simp add: int_inc_def example_state_def hk_boot_def)

lemma example_size [simp]: "size_t_of_int 3 = 3"
  using size_t_of_int_nonneg [of 3] by simp

lemma example_regions: "regions_ok example_state"
proof -
  have "mapped (guest_ram hk_boot) 0 (length example_code)"
    and "mapped (metadata hk_boot) 0 (length (le32 7 @ le32 3 @ le32 (crypto_api_sign_data [] (jenkins example_code))))"
    by (simp_all add: hk_boot_def mapped_of_dom [OF dom_region_zero] example_code_def)
  then show ?thesis
    using regions_ok_boot by (simp add: example_state_def regions_ok_def dom_write_at0)
qed

lemma example_bytes: "first_bytes (guest_ram example_state) 3 = example_code"
  using bytes_write_at0 [of example_code "guest_ram hk_boot"]
  by (simp add: first_bytes_def example_state_def example_code_def numeral_3_eq_3)

text \<open>C2. Only attested code reaches the arena: if the Dispatcher's injection changes the arena,
  the metadata names the requested variant and carries the fTPM's signature of the Jenkins hash
  of the first payload_size bytes of guest_ram, the new arena is the first page of guest_ram,
  and the swap is counted and recorded as active.\<close>

theorem arena_only_attested:
  assumes "execute_secure_runtime_injection (crypto_api_verify_signature g') vid s = Some s'"
    and "arena s' \<noteq> arena s"
  shows "\<exists>sz. load_word32 (metadata s) 0 = Some vid \<and> load_word32 (metadata s) 1 = Some sz
    \<and> load_word32 (metadata s) 2
        = Some (crypto_api_sign_data g (jenkins (first_bytes (guest_ram s) (size_t_of_int sz))))
    \<and> s' = s\<lparr>arena := arena_loaded s, current_active_variant := vid,
             total_mutations_count := total_mutations_count s + 1\<rparr>"
  by (rule tpm.injection_changes_only_signed [OF assms])

theorem arena_only_attested_witness:
  "\<exists>s'. execute_secure_runtime_injection (crypto_api_verify_signature []) 7 example_state = Some s'
    \<and> arena s' \<noteq> arena example_state
    \<and> load_word32 (metadata example_state) 2 = Some (crypto_api_sign_data [5] (jenkins example_code))"
proof -
  let ?s' = "example_state\<lparr>arena := arena_loaded example_state, current_active_variant := 7,
    total_mutations_count := 1\<rparr>"
  note m = regions_ok_mapped [OF example_regions]
  have run: "execute_secure_runtime_injection (crypto_api_verify_signature []) 7 example_state = Some ?s'"
    by (rule tpm.injection_accepts [where sz = 3])
       (use m in \<open>simp_all add: example_metadata example_bytes example_count
          mapped_subrange [OF m(4)] del: One_nat_def\<close>)
  have "arena ?s' 0 \<noteq> arena example_state 0"
    by (simp add: arena_loaded_def example_state_def hk_boot_def write_at0_def example_code_def region_zero_def)
  then have ch: "arena ?s' \<noteq> arena example_state" by metis
  from arena_only_attested [OF run ch, of "[5]"] run ch show ?thesis
    by (auto simp: example_words example_bytes)
qed

text \<open>C7. A variant whose identifier or signature does not match is blocked: the injection
  returns and leaves the whole state as it was.\<close>

theorem unattested_is_blocked:
  assumes "load_word32 (metadata s) 0 = Some v" and "load_word32 (metadata s) 1 = Some sz"
    and "load_word32 (metadata s) 2 = Some sg" and "mapped (guest_ram s) 0 (size_t_of_int sz)"
    and "v \<noteq> vid \<or> sg \<noteq> crypto_api_sign_data g (jenkins (first_bytes (guest_ram s) (size_t_of_int sz)))"
  shows "execute_secure_runtime_injection (crypto_api_verify_signature g') vid s = Some s"
  by (rule tpm.injection_blocks [OF assms])

theorem unattested_is_blocked_witness:
  "load_word32 (metadata example_state) 0 = Some 7 \<and> load_word32 (metadata example_state) 1 = Some 3
   \<and> mapped (guest_ram example_state) 0 (size_t_of_int 3)
   \<and> execute_secure_runtime_injection (crypto_api_verify_signature []) 8 example_state = Some example_state"
proof -
  have m: "mapped (guest_ram example_state) 0 (size_t_of_int 3)"
    by (simp add: mapped_subrange [OF regions_ok_mapped(4) [OF example_regions]])
  from unattested_is_blocked [OF example_metadata m, of 8 "[]" "[]"] show ?thesis
    using m by (simp add: example_metadata del: One_nat_def)
qed

text \<open>C6. The attested hash notices every single-byte change of the payload: if guest_ram differs
  from the signed payload in exactly one byte, the injection is blocked, unless the 32-bit
  signatures of the two (different) hashes happen to coincide.\<close>

theorem tampered_byte_is_blocked:
  assumes "load_word32 (metadata s) 0 = Some v" and "load_word32 (metadata s) 1 = Some sz"
    and "load_word32 (metadata s) 2 = Some (crypto_api_sign_data g (jenkins code))"
    and "mapped (guest_ram s) 0 (size_t_of_int sz)"
    and "i < length code" and "b \<noteq> code ! i"
    and "first_bytes (guest_ram s) (size_t_of_int sz) = code[i := b]"
  shows "jenkins (code[i := b]) \<noteq> jenkins code \<and>
    (execute_secure_runtime_injection (crypto_api_verify_signature g') vid s = Some s
     \<or> crypto_api_sign_data g (jenkins (code[i := b])) = crypto_api_sign_data g (jenkins code))"
proof
  show "jenkins (code[i := b]) \<noteq> jenkins code" by (rule jenkins_update_neq [OF assms(5,6)])
  show "execute_secure_runtime_injection (crypto_api_verify_signature g') vid s = Some s
     \<or> crypto_api_sign_data g (jenkins (code[i := b])) = crypto_api_sign_data g (jenkins code)"
    using tpm.injection_blocks [OF assms(1-4), of vid g g'] assms(7) by auto
qed

definition tampered_state :: hk_state where
  "tampered_state = example_state\<lparr>guest_ram := (guest_ram example_state)(1 := Some 0xC1)\<rparr>"

lemma tampered_bytes: "first_bytes (guest_ram tampered_state) 3 = example_code[1 := 0xC1]"
  by (simp add: first_bytes_def tampered_state_def example_state_def write_at0_def example_code_def
      upt_rec numeral_eq_Suc)

theorem tampered_byte_is_blocked_witness:
  "jenkins (example_code[1 := 0xC1]) \<noteq> jenkins example_code \<and>
    (execute_secure_runtime_injection (crypto_api_verify_signature []) 7 tampered_state = Some tampered_state
     \<or> crypto_api_sign_data [] (jenkins (example_code[1 := 0xC1])) = crypto_api_sign_data [] (jenkins example_code))"
proof (rule tampered_byte_is_blocked [where v = 7 and sz = 3])
  have "dom (guest_ram tampered_state) = {..<67108864}"
    using example_regions by (auto simp: tampered_state_def regions_ok_def)
  then show "mapped (guest_ram tampered_state) 0 (size_t_of_int 3)" by (simp add: mapped_of_dom)
qed (simp_all add: tampered_bytes, simp_all add: tampered_state_def example_words example_code_def)

text \<open>C8. Only payload_size bytes are attested but a whole page is copied: once a variant is
  accepted, it is accepted with any other contents of guest_ram behind the payload, and those
  bytes are in the arena afterwards.\<close>

theorem bytes_behind_payload_unattested:
  assumes "load_word32 (metadata s) 0 = Some vid" and "load_word32 (metadata s) 1 = Some sz"
    and "load_word32 (metadata s) 2
      = Some (crypto_api_sign_data g (jenkins (first_bytes (guest_ram s) (size_t_of_int sz))))"
    and "regions_ok s" and "size_t_of_int sz \<le> 4096" and "total_mutations_count s \<noteq> 0x7FFFFFFF"
    and "dom r = dom (guest_ram s)" and "first_bytes r (size_t_of_int sz) = first_bytes (guest_ram s) (size_t_of_int sz)"
  shows "\<exists>s'. execute_secure_runtime_injection (crypto_api_verify_signature g') vid (s\<lparr>guest_ram := r\<rparr>) = Some s'
    \<and> (\<forall>i < 4096. arena s' i = r i)"
proof -
  let ?s = "s\<lparr>guest_ram := r\<rparr>"
  have m: "mapped r 0 4096" "mapped r 0 (size_t_of_int sz)" "mapped (arena s) 0 4096"
    using assms(4,5,7) by (simp_all add: regions_ok_def mapped_of_dom)
  have "execute_secure_runtime_injection (crypto_api_verify_signature g') vid ?s =
    Some (?s\<lparr>arena := arena_loaded ?s, current_active_variant := vid,
             total_mutations_count := total_mutations_count s + 1\<rparr>)"
    by (rule tpm.injection_accepts [where sz = sz])
       (use assms m in \<open>simp_all add: int_inc_def\<close>)
  then show ?thesis by (auto simp: arena_loaded_def)
qed

theorem bytes_behind_payload_unattested_witness:
  "\<exists>s'. execute_secure_runtime_injection (crypto_api_verify_signature []) 7
      (example_state\<lparr>guest_ram := (guest_ram example_state)(100 := Some 0xCC)\<rparr>) = Some s'
    \<and> arena s' 100 = Some 0xCC"
proof -
  let ?r = "(guest_ram example_state)(100 := Some 0xCC)"
  have d: "dom ?r = dom (guest_ram example_state)"
    using example_regions by (auto simp: regions_ok_def)
  have b: "first_bytes ?r (size_t_of_int 3) = first_bytes (guest_ram example_state) (size_t_of_int 3)"
    by (simp add: first_bytes_def)
  have sg: "load_word32 (metadata example_state) 2 = Some (crypto_api_sign_data []
      (jenkins (first_bytes (guest_ram example_state) (size_t_of_int 3))))"
    by (simp add: example_metadata example_bytes)
  have c: "size_t_of_int 3 \<le> 4096" "total_mutations_count example_state \<noteq> 0x7FFFFFFF"
    by (simp_all add: example_state_def hk_boot_def)
  from bytes_behind_payload_unattested [OF example_metadata(1,2) sg example_regions c d b, of "[]"]
  show ?thesis by auto
qed

end
