(* ===== verification/HK_Interleaving.thy ===== *)
theory HK_Interleaving
  imports HK_System
begin

text \<open>
  The injection of the Dispatcher as a step relation (dispatcher.c, lines 42-77), split where
  the shared memory guest_ram is read twice: once by the hash and once by the copy. With
  \<open>shared = False\<close> nothing else runs between the two reads and the relation is the sequential
  handler; with \<open>shared = True\<close> the other holder of the read-write dataport guest_ram (the
  Generator) may store to it between any two steps.
\<close>

datatype inj_pc = Validate c_int | Swap c_int | Finished

definition injection_check :: "(u32 \<Rightarrow> u32 \<Rightarrow> c_int) \<Rightarrow> c_int \<Rightarrow> hk_state \<Rightarrow> inj_pc option" where
  "injection_check verify vid s =
     do { stored_vid \<leftarrow> load_word32 (metadata s) 0;
          payload_size \<leftarrow> load_word32 (metadata s) 1;
          expected_signature \<leftarrow> load_word32 (metadata s) 2;
          if stored_vid \<noteq> vid then Some Finished
          else do {
            local_hash \<leftarrow> compute_integrity_hash (guest_ram s) (size_t_of_int payload_size);
            Some (if verify local_hash expected_signature \<noteq> 0 then Swap vid else Finished) } }"

definition injection_swap :: "c_int \<Rightarrow> hk_state \<Rightarrow> hk_state option" where
  "injection_swap vid s =
     do { a \<leftarrow> c_memcpy (arena s) (guest_ram s) 4096;
          n \<leftarrow> int_inc (total_mutations_count s);
          Some (s\<lparr>arena := a, current_active_variant := vid, total_mutations_count := n\<rparr>) }"

inductive inj_step ::
    "bool \<Rightarrow> (u32 \<Rightarrow> u32 \<Rightarrow> c_int) \<Rightarrow> inj_pc \<times> hk_state \<Rightarrow> inj_pc \<times> hk_state \<Rightarrow> bool"
  for shared :: bool and verify :: "u32 \<Rightarrow> u32 \<Rightarrow> c_int" where
  check: "injection_check verify vid s = Some pc \<Longrightarrow> inj_step shared verify (Validate vid, s) (pc, s)"
| swap: "injection_swap vid s = Some s' \<Longrightarrow> inj_step shared verify (Swap vid, s) (Finished, s')"
| other: "shared \<Longrightarrow> dom r = dom (guest_ram s) \<Longrightarrow>
    inj_step shared verify (pc, s) (pc, s\<lparr>guest_ram := r\<rparr>)"

inductive_cases inj_step_ValidateE: "inj_step shared verify (Validate vid, s) c"
inductive_cases inj_step_SwapE: "inj_step shared verify (Swap vid, s) c"
inductive_cases inj_step_FinishedE: "inj_step shared verify (Finished, s) c"

lemma injection_split:
  "execute_secure_runtime_injection verify vid s =
     (case injection_check verify vid s of
        None \<Rightarrow> None
      | Some (Swap v) \<Rightarrow> injection_swap v s
      | Some pc \<Rightarrow> Some s)"
  by (auto simp: execute_secure_runtime_injection_def injection_check_def injection_swap_def Let_def
      split: bind_splits)

lemma swap_result:
  "mapped (guest_ram s) 0 4096 \<Longrightarrow> mapped (arena s) 0 4096 \<Longrightarrow>
     int_inc (total_mutations_count s) = Some n \<Longrightarrow>
     injection_swap vid s =
       Some (s\<lparr>arena := arena_loaded s, current_active_variant := vid, total_mutations_count := n\<rparr>)"
  by (simp add: injection_swap_def c_memcpy_closed arena_loaded_def)

lemma check_not_Validate: "injection_check verify vid s \<noteq> Some (Validate v)"
  by (auto simp: injection_check_def split: bind_splits)

lemma finished_stays:
  "(inj_step False verify)\<^sup>*\<^sup>* (Finished, s) c \<Longrightarrow> c = (Finished, s)"
  by (erule converse_rtranclpE) (auto elim: inj_step_FinishedE)

lemma swap_runs:
  "(inj_step False verify)\<^sup>*\<^sup>* (Swap vid, s) (Finished, s') \<longleftrightarrow> injection_swap vid s = Some s'"
proof
  assume "(inj_step False verify)\<^sup>*\<^sup>* (Swap vid, s) (Finished, s')"
  then show "injection_swap vid s = Some s'"
    by (rule converse_rtranclpE) (auto elim!: inj_step_SwapE dest: finished_stays)
qed (auto intro: inj_step.swap)

lemma validate_runs:
  "(inj_step False verify)\<^sup>*\<^sup>* (Validate vid, s) (Finished, s') \<longleftrightarrow>
     (\<exists>pc. injection_check verify vid s = Some pc \<and> (inj_step False verify)\<^sup>*\<^sup>* (pc, s) (Finished, s'))"
proof
  assume "(inj_step False verify)\<^sup>*\<^sup>* (Validate vid, s) (Finished, s')"
  then show "\<exists>pc. injection_check verify vid s = Some pc \<and> (inj_step False verify)\<^sup>*\<^sup>* (pc, s) (Finished, s')"
    by (rule converse_rtranclpE) (auto elim!: inj_step_ValidateE)
qed (auto intro: converse_rtranclp_into_rtranclp inj_step.check)

text \<open>The steps are those of the handler: without interference a run of them from Validate ends in
  exactly the state the sequential definition returns.\<close>

lemma injection_steps_refine_handler:
  "(inj_step False verify)\<^sup>*\<^sup>* (Validate vid, s) (Finished, s')
     \<longleftrightarrow> execute_secure_runtime_injection verify vid s = Some s'"
proof (cases "injection_check verify vid s")
  case None
  then show ?thesis by (simp add: validate_runs injection_split)
next
  case (Some pc)
  then show ?thesis
    by (cases pc)
       (auto simp: validate_runs injection_split swap_runs check_not_Validate dest: finished_stays)
qed

text \<open>C5. With interference the check does not protect the copy: from any state whose check
  succeeds there is a run of steps after which the arena holds any 4096 bytes the other holder
  of guest_ram chooses, the variant counts as active and the swap is counted.\<close>

theorem injection_check_then_use:
  assumes "injection_check verify vid s = Some (Swap vid)"
    and "dom code = dom (guest_ram s)" and "mapped (guest_ram s) 0 4096" and "mapped (arena s) 0 4096"
    and "int_inc (total_mutations_count s) = Some n"
  shows "\<exists>s'. (inj_step True verify)\<^sup>*\<^sup>* (Validate vid, s) (Finished, s')
    \<and> load_bytes (arena s') 0 4096 = load_bytes code 0 4096
    \<and> current_active_variant s' = vid \<and> total_mutations_count s' = n"
proof -
  let ?s1 = "s\<lparr>guest_ram := code\<rparr>"
  let ?s2 = "?s1\<lparr>arena := arena_loaded ?s1, current_active_variant := vid, total_mutations_count := n\<rparr>"
  have mc: "mapped code 0 4096" using assms(2,3) by (simp add: mapped_dom)
  have "injection_swap vid ?s1 = Some ?s2"
    by (rule swap_result) (use mc assms(4,5) in simp_all)
  then have "(inj_step True verify)\<^sup>*\<^sup>* (Swap vid, ?s1) (Finished, ?s2)"
    by (auto intro: inj_step.swap)
  moreover have "inj_step True verify (Swap vid, s) (Swap vid, ?s1)"
    using assms(2) by (auto intro: inj_step.other)
  moreover have "inj_step True verify (Validate vid, s) (Swap vid, s)"
    using assms(1) by (rule inj_step.check)
  ultimately have "(inj_step True verify)\<^sup>*\<^sup>* (Validate vid, s) (Finished, ?s2)"
    by (meson converse_rtranclp_into_rtranclp)
  moreover have "load_bytes (arena ?s2) 0 4096 = load_bytes code 0 4096"
    using mc assms(4) by (auto simp: load_bytes_closed arena_loaded_def mapped_def)
  ultimately show ?thesis by (intro exI [of _ ?s2]) simp
qed

theorem injection_check_then_use_witness:
  "\<exists>s'. (inj_step True (crypto_api_verify_signature []))\<^sup>*\<^sup>* (Validate 7, example_state) (Finished, s')
    \<and> load_bytes (arena s') 0 4096
        = load_bytes (\<lambda>i. if i < 67108864 then Some 0xCC else None) 0 4096
    \<and> current_active_variant s' = 7 \<and> total_mutations_count s' = 1"
proof (rule injection_check_then_use)
  have m: "mapped (guest_ram example_state) 0 3"
    by (simp add: mapped_subrange [OF regions_ok_mapped(4) [OF example_regions]])
  then show "injection_check (crypto_api_verify_signature []) 7 example_state = Some (Swap 7)"
    by (simp add: injection_check_def example_metadata integrity_hash_first_bytes example_bytes
        tpm.verify_sign del: One_nat_def)
  show "dom (\<lambda>i. if i < 67108864 then Some 0xCC else None) = dom (guest_ram example_state)"
    using example_regions by (auto simp: regions_ok_def split: if_splits)
qed (simp_all add: regions_ok_mapped [OF example_regions] example_count)

end
