(* ===== verification/HK_Mutator.thy ===== *)
theory HK_Mutator
  imports HK_Prelude
begin

text \<open>
  The mutation pass of the build tools (hk_build_tools/MutatorPass.cpp): the loop over the
  instructions of a marked function that replaces every integer addition b + c by
  b - (~c) - 1, redirects all uses and erases the addition.

  LLVM itself is not part of the sources. What the pass calls of it are arguments:
  \<open>create_not\<close> and \<open>create_sub\<close> are the two methods of the IRBuilder (the value they return, the
  instructions they insert, the identities they allocate), constrained by \<open>builder_ok\<close>, their
  documented behaviour. The meaning of the other instructions is an argument as well: \<open>reads\<close>
  gives the operands an instruction of a kind reads in a state of memory and control (a phi
  reads one of its operands), \<open>sem\<close> its result and its effect, \<open>succ\<close> the block that control
  has been passed to. Additions wrap around; the flags that make an overflowing addition
  undefined only remove behaviours of the original.
\<close>

section \<open>The intermediate representation\<close>

type_synonym value_id = nat

datatype ir_value = Ref value_id | ConstInt nat int

datatype ir_opcode = Op_Add | Op_Sub | Op_Xor | Op_Other nat

text \<open>The type of a result is \<open>Some w\<close> for the integer type of \<open>w\<close> bits.\<close>

record ir_instr =
  i_res :: value_id
  i_op :: ir_opcode
  i_ty :: "nat option"
  i_args :: "ir_value list"

record ir_func =
  fn_attrs :: "string list"
  fn_blocks :: "ir_instr list list"

type_synonym create_not = "ir_value \<Rightarrow> nat \<Rightarrow> nat \<Rightarrow> ir_value \<times> ir_instr list \<times> nat"
type_synonym create_sub = "ir_value \<Rightarrow> ir_value \<Rightarrow> nat \<Rightarrow> nat \<Rightarrow> ir_value \<times> ir_instr list \<times> nat"

section \<open>The pass\<close>

definition subst_value :: "value_id \<Rightarrow> ir_value \<Rightarrow> ir_value \<Rightarrow> ir_value" where
  "subst_value v x a = (if a = Ref v then x else a)"

definition replaceAllUsesWith :: "value_id \<Rightarrow> ir_value \<Rightarrow> ir_instr \<Rightarrow> ir_instr" where
  "replaceAllUsesWith v x i = i\<lparr>i_args := map (subst_value v x) (i_args i)\<rparr>"

definition obfuscate_add ::
    "create_not \<Rightarrow> create_sub \<Rightarrow> ir_instr \<Rightarrow> nat \<Rightarrow> nat \<Rightarrow> ir_value \<times> ir_instr list \<times> nat" where
  "obfuscate_add create_not create_sub i w n =
     (let op1 = i_args i ! 0;
          op2 = i_args i ! 1;
          (notOp2, is1, n) = create_not op2 w n;
          (sub1, is2, n) = create_sub op1 notOp2 w n;
          (finalSub, is3, n) = create_sub sub1 (ConstInt w 1) w n
      in (finalSub, is1 @ is2 @ is3, n))"

text \<open>The two nested loops: \<open>bs\<close> are the blocks already visited, \<open>xs\<close> the visited instructions of
  the current block, \<open>is\<close> the instructions from the iterator on, \<open>rest\<close> the blocks to come. The
  instructions the builder inserts are behind the iterator.\<close>

function run_loop :: "create_not \<Rightarrow> create_sub \<Rightarrow> ir_instr list list \<Rightarrow> ir_instr list \<Rightarrow> ir_instr list
    \<Rightarrow> ir_instr list list \<Rightarrow> nat \<Rightarrow> bool \<Rightarrow> ir_instr list list \<times> bool" where
  "run_loop cn cs bs xs [] [] n changed = (bs @ [xs], changed)"
| "run_loop cn cs bs xs [] (b # rest) n changed = run_loop cn cs (bs @ [xs]) [] b rest n changed"
| "run_loop cn cs bs xs (i # is) rest n changed =
     (case (i_op i, i_ty i) of
        (Op_Add, Some w) \<Rightarrow>
          (let (finalSub, new, n) = obfuscate_add cn cs i w n;
               r = replaceAllUsesWith (i_res i) finalSub
           in run_loop cn cs (map (map r) bs) (map r (xs @ new)) (map r is) (map (map r) rest) n True)
      | _ \<Rightarrow> run_loop cn cs bs (xs @ [i]) is rest n changed)"
  by pat_completeness auto
termination
  by (relation "measure (\<lambda>(cn, cs, bs, xs, is, rest, n, c). length is + sum_list (map (\<lambda>b. Suc (length b)) rest))")
     (auto simp: comp_def)

definition mutator_run :: "create_not \<Rightarrow> create_sub \<Rightarrow> nat \<Rightarrow> ir_func \<Rightarrow> ir_func \<times> bool" where
  "mutator_run cn cs n F =
     (if ''hk_mutate'' \<notin> set (fn_attrs F) then (F, False)
      else case fn_blocks F of
          [] \<Rightarrow> (F, False)
        | b # rest \<Rightarrow>
            (let (blocks, changed) = run_loop cn cs [] [] b rest n False in (F\<lparr>fn_blocks := blocks\<rparr>, changed)))"

section \<open>Execution\<close>

type_synonym ir_env = "value_id \<rightharpoonup> int"

definition ir_eval :: "ir_env \<Rightarrow> ir_value \<Rightarrow> int option" where
  "ir_eval e v = (case v of Ref k \<Rightarrow> e k | ConstInt w c \<Rightarrow> Some (take_bit w c))"

text \<open>The value of an instruction and the memory after it, from the values of its operands.\<close>

definition instr_result :: "(nat \<Rightarrow> 'm \<Rightarrow> nat list) \<Rightarrow> (nat \<Rightarrow> nat option \<Rightarrow> int list \<Rightarrow> 'm \<Rightarrow> (int \<times> 'm) option)
    \<Rightarrow> ir_instr \<Rightarrow> (nat \<Rightarrow> int option) \<Rightarrow> 'm \<Rightarrow> (int \<times> 'm) option" where
  "instr_result reads sem i arg m =
     (let bin = (\<lambda>f. do { a \<leftarrow> arg 0; b \<leftarrow> arg 1;
                           Some (case i_ty i of Some w \<Rightarrow> take_bit w (f a b) | None \<Rightarrow> f a b, m) }) in
      case i_op i of
        Op_Add \<Rightarrow> bin (+)
      | Op_Sub \<Rightarrow> bin (-)
      | Op_Xor \<Rightarrow> bin (XOR)
      | Op_Other k \<Rightarrow> do { vs \<leftarrow> those (map arg (reads k m)); sem k (i_ty i) vs m })"

definition operand :: "ir_env \<Rightarrow> ir_instr \<Rightarrow> nat \<Rightarrow> int option" where
  "operand e i k = (if k < length (i_args i) then ir_eval e (i_args i ! k) else None)"

definition exec_instr where
  "exec_instr reads sem i = (\<lambda>(e, m). do {
     (c, m) \<leftarrow> instr_result reads sem i (operand e i) m;
     Some (e(i_res i \<mapsto> c), m) })"

fun exec_block where
  "exec_block reads sem [] st = Some st"
| "exec_block reads sem (i # is) st = do { st \<leftarrow> exec_instr reads sem i st; exec_block reads sem is st }"

fun exec_func :: "(nat \<Rightarrow> 'm \<Rightarrow> nat list) \<Rightarrow> (nat \<Rightarrow> nat option \<Rightarrow> int list \<Rightarrow> 'm \<Rightarrow> (int \<times> 'm) option) \<Rightarrow> ('m \<Rightarrow> nat option)
    \<Rightarrow> ir_instr list list \<Rightarrow> nat \<Rightarrow> nat \<Rightarrow> ir_env \<times> 'm \<Rightarrow> 'm option" where
  "exec_func reads sem succ blocks 0 b st = None"
| "exec_func reads sem succ blocks (Suc fuel) b st =
     (if b < length blocks then do {
        (e, m) \<leftarrow> exec_block reads sem (blocks ! b) st;
        case succ m of None \<Rightarrow> Some m | Some b' \<Rightarrow> exec_func reads sem succ blocks fuel b' (e, m) }
      else None)"

section \<open>What the builder promises and what the verifier of LLVM checks\<close>

definition value_refs :: "ir_value \<Rightarrow> value_id set" where
  "value_refs v = (case v of Ref k \<Rightarrow> {k} | ConstInt w c \<Rightarrow> {})"

definition refs :: "ir_instr \<Rightarrow> value_id set" where
  "refs i = \<Union> (value_refs ` set (i_args i))"

text \<open>The inserted instructions are new, are no additions and use only the operands and each
  other; the returned value is one of them or a constant.\<close>

definition inserted_ok :: "value_id set \<Rightarrow> nat \<Rightarrow> ir_value \<times> ir_instr list \<times> nat \<Rightarrow> bool" where
  "inserted_ok ops n = (\<lambda>(x, is, n'). n \<le> n' \<and> distinct (map i_res is) \<and> value_refs x \<subseteq> {n..<n'}
     \<and> (\<forall>i \<in> set is. n \<le> i_res i \<and> i_res i < n' \<and> i_op i \<noteq> Op_Add \<and> refs i \<subseteq> ops \<union> {n..<n'}))"

definition computes where
  "computes reads sem = (\<lambda>(x, is, n') e m c.
     \<exists>e'. exec_block reads sem is (e, m) = Some (e', m) \<and> ir_eval e' x = Some c)"

definition builder_ok where
  "builder_ok reads sem cn cs \<longleftrightarrow>
     (\<forall>v w n. inserted_ok (value_refs v) n (cn v w n))
   \<and> (\<forall>u v w n. inserted_ok (value_refs u \<union> value_refs v) n (cs u v w n))
   \<and> (\<forall>v w n e m a. ir_eval e v = Some a \<longrightarrow> value_refs v \<subseteq> {..<n} \<longrightarrow>
        computes reads sem (cn v w n) e m (take_bit w (NOT a)))
   \<and> (\<forall>u v w n e m a b. ir_eval e u = Some a \<longrightarrow> ir_eval e v = Some b \<longrightarrow> value_refs u \<union> value_refs v \<subseteq> {..<n} \<longrightarrow>
        computes reads sem (cs u v w n) e m (take_bit w (a - b)))"

text \<open>Identities below \<open>n\<close>, each given to one instruction; an addition has two operands and does
  not use itself.\<close>

definition instr_ok :: "nat \<Rightarrow> ir_instr \<Rightarrow> bool" where
  "instr_ok n i \<longleftrightarrow> i_res i < n \<and> refs i \<subseteq> {..<n}
     \<and> (i_op i = Op_Add \<longrightarrow> length (i_args i) = 2 \<and> i_res i \<notin> refs i)"

definition ir_ok :: "nat \<Rightarrow> ir_instr list list \<Rightarrow> bool" where
  "ir_ok n blocks \<longleftrightarrow> distinct (map i_res (concat blocks)) \<and> (\<forall>i \<in> set (concat blocks). instr_ok n i)"

definition int_add :: "ir_instr \<Rightarrow> bool" where
  "int_add i \<longleftrightarrow> i_op i = Op_Add \<and> i_ty i \<noteq> None"

section \<open>One replacement\<close>

text \<open>Environments before and after the uses of \<open>v\<close> have been redirected to \<open>x\<close>: identities below \<open>n\<close>
  keep their values and \<open>x\<close> has the value of \<open>v\<close>.\<close>

definition env_rel :: "value_id \<Rightarrow> ir_value \<Rightarrow> nat \<Rightarrow> ir_env \<Rightarrow> ir_env \<Rightarrow> bool" where
  "env_rel v x n e e' \<longleftrightarrow> (\<forall>k a. k < n \<longrightarrow> k \<noteq> v \<longrightarrow> e k = Some a \<longrightarrow> e' k = Some a)
     \<and> (\<forall>a. e v = Some a \<longrightarrow> ir_eval e' x = Some a)"

lemma ir_eval_cong: "(\<And>k. k \<in> value_refs u \<Longrightarrow> e' k = e k) \<Longrightarrow> ir_eval e' u = ir_eval e u"
  by (simp add: ir_eval_def value_refs_def split: ir_value.splits)

lemma eval_rel:
  assumes "env_rel v x n e e'" and "value_refs u \<subseteq> {..<n}" and "ir_eval e u = Some a"
  shows "ir_eval e' (subst_value v x u) = Some a"
  using assms by (cases u) (auto simp: env_rel_def subst_value_def value_refs_def ir_eval_def)

lemma those_mono:
  "(\<And>k a. arg k = Some a \<Longrightarrow> arg' k = Some a) \<Longrightarrow> those (map arg ks) = Some vs \<Longrightarrow> those (map arg' ks) = Some vs"
  by (induction ks arbitrary: vs) (fastforce split: option.splits)+

lemma instr_result_mono:
  assumes "\<And>k a. arg k = Some a \<Longrightarrow> arg' k = Some a" and "instr_result reads sem i arg m = Some r"
    and "i_op j = i_op i" "i_ty j = i_ty i"
  shows "instr_result reads sem j arg' m = Some r"
proof (cases "i_op i")
  case (Op_Other k)
  then show ?thesis
    using assms(2-4) those_mono [of arg arg', OF assms(1)]
    by (auto simp: instr_result_def bind_eq_Some_conv)
qed (use assms in \<open>auto simp: instr_result_def bind_eq_Some_conv\<close>)

lemma exec_instr_rel:
  assumes rel: "env_rel v x n e e'" and x: "value_refs x \<inter> {..<n} = {}"
    and j: "i_res j < n" "i_res j \<noteq> v" "refs j \<subseteq> {..<n}"
    and run: "exec_instr reads sem j (e, m) = Some (e1, m1)"
  shows "\<exists>e1'. exec_instr reads sem (replaceAllUsesWith v x j) (e', m) = Some (e1', m1) \<and> env_rel v x n e1 e1'"
proof -
  from run obtain c where c: "instr_result reads sem j (operand e j) m = Some (c, m1)"
    and e1: "e1 = e(i_res j \<mapsto> c)"
    by (auto simp: exec_instr_def bind_eq_Some_conv)
  have "operand e' (replaceAllUsesWith v x j) k = Some a" if "operand e j k = Some a" for k a
    using that j(3) eval_rel [OF rel, of "i_args j ! k" a]
    by (auto simp: operand_def replaceAllUsesWith_def refs_def split: if_splits dest: nth_mem)
  from instr_result_mono [OF this c, where j = "replaceAllUsesWith v x j"]
  have "exec_instr reads sem (replaceAllUsesWith v x j) (e', m) = Some (e'(i_res j \<mapsto> c), m1)"
    by (simp add: exec_instr_def replaceAllUsesWith_def)
  moreover have "ir_eval (e'(i_res j \<mapsto> c)) x = ir_eval e' x"
    by (rule ir_eval_cong) (use x j(1) in auto)
  then have "env_rel v x n e1 (e'(i_res j \<mapsto> c))"
    using rel j(1,2) by (auto simp: env_rel_def e1)
  ultimately show ?thesis by blast
qed

lemma exec_block_rel:
  assumes "env_rel v x n e e'" and "value_refs x \<inter> {..<n} = {}"
    and "\<And>j. j \<in> set is \<Longrightarrow> i_res j < n \<and> i_res j \<noteq> v \<and> refs j \<subseteq> {..<n}"
    and "exec_block reads sem is (e, m) = Some (e1, m1)"
  shows "\<exists>e1'. exec_block reads sem (map (replaceAllUsesWith v x) is) (e', m) = Some (e1', m1) \<and> env_rel v x n e1 e1'"
  using assms
proof (induction "is" arbitrary: e e' m)
  case (Cons j js)
  from Cons.prems(4) obtain e2 m2 where j: "exec_instr reads sem j (e, m) = Some (e2, m2)"
    and js: "exec_block reads sem js (e2, m2) = Some (e1, m1)"
    by (auto simp: bind_eq_Some_conv)
  from exec_instr_rel [OF Cons.prems(1,2) _ _ _ j] Cons.prems(3) [of j]
  obtain e2' where e2': "exec_instr reads sem (replaceAllUsesWith v x j) (e', m) = Some (e2', m2)"
    "env_rel v x n e2 e2'" by auto
  from Cons.IH [OF e2'(2) Cons.prems(2) _ js] Cons.prems(3) e2'(1) show ?case by simp
qed simp

lemma exec_block_append:
  "exec_block reads sem (xs @ ys) st = do { st \<leftarrow> exec_block reads sem xs st; exec_block reads sem ys st }"
proof (induction xs arbitrary: st)
  case (Cons i xs)
  then show ?case by (cases "exec_instr reads sem i st") simp_all
qed simp

lemma exec_block_frame:
  "exec_block reads sem is (e, m) = Some (e1, m1) \<Longrightarrow> k \<notin> i_res ` set is \<Longrightarrow> e1 k = e k"
  by (induction "is" arbitrary: e m) (fastforce simp: exec_instr_def bind_eq_Some_conv)+

lemma inserted_keeps:
  assumes "inserted_ok ops n (x, is, n')" and "exec_block reads sem is (e, m) = Some (e', m')"
    and "value_refs u \<subseteq> {..<n}"
  shows "ir_eval e' u = ir_eval e u"
proof (rule ir_eval_cong)
  fix k assume "k \<in> value_refs u"
  then have "k \<notin> i_res ` set is" using assms(1,3) by (fastforce simp: inserted_ok_def)
  then show "e' k = e k" by (rule exec_block_frame [OF assms(2)])
qed

lemma obfuscated_bits: "take_bit w (take_bit w (a - take_bit w (NOT b)) - take_bit w 1) = take_bit w (a + b)" for a b :: int
  by (simp add: take_bit_eq_mod not_int_def mod_simps)

lemma two_args: "length (i_args i) = 2 \<Longrightarrow> refs i = value_refs (i_args i ! 0) \<union> value_refs (i_args i ! 1)"
  by (auto simp: refs_def numeral_2_eq_2 length_Suc_conv)

lemma obfuscate_add_split:
  assumes "builder_ok reads sem cn cs"
  obtains x is1 n1 y is2 n2 z is3 n3 where
    "cn (i_args i ! 1) w n = (x, is1, n1)" "cs (i_args i ! 0) x w n1 = (y, is2, n2)"
    "cs y (ConstInt w 1) w n2 = (z, is3, n3)"
    "obfuscate_add cn cs i w n = (z, is1 @ is2 @ is3, n3)"
    "inserted_ok (value_refs (i_args i ! 1)) n (x, is1, n1)"
    "inserted_ok (value_refs (i_args i ! 0) \<union> value_refs x) n1 (y, is2, n2)"
    "inserted_ok (value_refs y) n2 (z, is3, n3)"
proof -
  obtain x is1 n1 where 1: "cn (i_args i ! 1) w n = (x, is1, n1)" by (cases "cn (i_args i ! 1) w n")
  obtain y is2 n2 where 2: "cs (i_args i ! 0) x w n1 = (y, is2, n2)" by (cases "cs (i_args i ! 0) x w n1")
  obtain z is3 n3 where 3: "cs y (ConstInt w 1) w n2 = (z, is3, n3)" by (cases "cs y (ConstInt w 1) w n2")
  have ok: "\<And>v w n. inserted_ok (value_refs v) n (cn v w n)"
    "\<And>u v w n. inserted_ok (value_refs u \<union> value_refs v) n (cs u v w n)"
    using assms by (simp_all add: builder_ok_def)
  show ?thesis
    by (rule that [OF 1 2 3])
       (use ok(1) [of "i_args i ! 1" n w] ok(2) [of "i_args i ! 0" x n1 w] ok(2) [of y "ConstInt w 1" n2 w] 1 2 3 in
         \<open>simp_all add: obfuscate_add_def value_refs_def\<close>)
qed

lemma obfuscate_inserted:
  assumes "builder_ok reads sem cn cs" and "length (i_args i) = 2"
  shows "inserted_ok (refs i) n (obfuscate_add cn cs i w n)"
proof -
  obtain x is1 n1 y is2 n2 z is3 n3 where
    o: "obfuscate_add cn cs i w n = (z, is1 @ is2 @ is3, n3)"
    and ok: "inserted_ok (value_refs (i_args i ! 1)) n (x, is1, n1)"
      "inserted_ok (value_refs (i_args i ! 0) \<union> value_refs x) n1 (y, is2, n2)"
      "inserted_ok (value_refs y) n2 (z, is3, n3)"
    by (rule obfuscate_add_split [OF assms(1), of i w n])
  have le: "n \<le> n1" "n1 \<le> n2" "n2 \<le> n3" and sub: "value_refs x \<subseteq> {n..<n1}" "value_refs y \<subseteq> {n1..<n2}" "value_refs z \<subseteq> {n2..<n3}"
    and d: "distinct (map i_res is1)" "distinct (map i_res is2)" "distinct (map i_res is3)"
    using ok by (simp_all add: inserted_ok_def)
  have 1: "n \<le> i_res j \<and> i_res j < n1 \<and> i_op j \<noteq> Op_Add \<and> refs j \<subseteq> refs i \<union> {n..<n3}" if "j \<in> set is1" for j
    using ok(1) that le two_args [OF assms(2)] by (fastforce simp: inserted_ok_def)
  have 2: "n1 \<le> i_res j \<and> i_res j < n2 \<and> i_op j \<noteq> Op_Add \<and> refs j \<subseteq> refs i \<union> {n..<n3}" if "j \<in> set is2" for j
    using ok(2) that le sub(1) two_args [OF assms(2)] by (fastforce simp: inserted_ok_def)
  have 3: "n2 \<le> i_res j \<and> i_res j < n3 \<and> i_op j \<noteq> Op_Add \<and> refs j \<subseteq> refs i \<union> {n..<n3}" if "j \<in> set is3" for j
    using ok(3) that le sub(2) by (fastforce simp: inserted_ok_def)
  have "i_res ` set is1 \<inter> i_res ` set is2 = {}" "i_res ` set is1 \<inter> i_res ` set is3 = {}"
    "i_res ` set is2 \<inter> i_res ` set is3 = {}"
    using 1 2 3 le by fastforce+
  then have "distinct (map i_res (is1 @ is2 @ is3))" using d by (auto simp: image_Un)
  moreover have "value_refs z \<subseteq> {n..<n3}" using sub(3) le by auto
  moreover have "\<forall>j \<in> set (is1 @ is2 @ is3). n \<le> i_res j \<and> i_res j < n3 \<and> i_op j \<noteq> Op_Add \<and> refs j \<subseteq> refs i \<union> {n..<n3}"
    using 1 2 3 le by fastforce
  ultimately show ?thesis using le by (simp add: o inserted_ok_def)
qed

lemma obfuscate_computes:
  assumes b: "builder_ok reads sem cn cs" and len: "length (i_args i) = 2" and r: "refs i \<subseteq> {..<n}"
    and a: "ir_eval e (i_args i ! 0) = Some a" and c: "ir_eval e (i_args i ! 1) = Some c"
  shows "computes reads sem (obfuscate_add cn cs i w n) e m (take_bit w (a + c))"
proof -
  obtain x is1 n1 y is2 n2 z is3 n3 where
    f: "cn (i_args i ! 1) w n = (x, is1, n1)" "cs (i_args i ! 0) x w n1 = (y, is2, n2)"
      "cs y (ConstInt w 1) w n2 = (z, is3, n3)"
    and o: "obfuscate_add cn cs i w n = (z, is1 @ is2 @ is3, n3)"
    and ok: "inserted_ok (value_refs (i_args i ! 1)) n (x, is1, n1)"
      "inserted_ok (value_refs (i_args i ! 0) \<union> value_refs x) n1 (y, is2, n2)"
      "inserted_ok (value_refs y) n2 (z, is3, n3)"
    by (rule obfuscate_add_split [OF b, of i w n])
  note ra = r [unfolded two_args [OF len]]
  have n: "value_refs x \<subseteq> {..<n1}" "value_refs y \<subseteq> {..<n2}" "n \<le> n1"
    using ok by (auto simp: inserted_ok_def)
  have law: "\<And>v w n e m a. ir_eval e v = Some a \<Longrightarrow> value_refs v \<subseteq> {..<n} \<Longrightarrow>
      computes reads sem (cn v w n) e m (take_bit w (NOT a))"
    "\<And>u v w n e m a b. ir_eval e u = Some a \<Longrightarrow> ir_eval e v = Some b \<Longrightarrow> value_refs u \<union> value_refs v \<subseteq> {..<n} \<Longrightarrow>
      computes reads sem (cs u v w n) e m (take_bit w (a - b))"
    using b by (simp_all add: builder_ok_def)
  obtain e1 where e1: "exec_block reads sem is1 (e, m) = Some (e1, m)" "ir_eval e1 x = Some (take_bit w (NOT c))"
    using law(1) [OF c, of n w m] ra f(1) by (auto simp: computes_def)
  have "ir_eval e1 (i_args i ! 0) = Some a" using inserted_keeps [OF ok(1) e1(1)] ra a by simp
  from law(2) [OF this e1(2), of n1 w m] obtain e2 where
    e2: "exec_block reads sem is2 (e1, m) = Some (e2, m)" "ir_eval e2 y = Some (take_bit w (a - take_bit w (NOT c)))"
    using ra n f(2) by (fastforce simp: computes_def)
  have "ir_eval e2 (ConstInt w 1) = Some (take_bit w 1)" by (simp add: ir_eval_def)
  from law(2) [OF e2(2) this, of n2 w m, unfolded obfuscated_bits] obtain e3 where
    "exec_block reads sem is3 (e2, m) = Some (e3, m)"
    "ir_eval e3 z = Some (take_bit w (a + c))"
    using n f(3) by (auto simp: computes_def value_refs_def)
  then show ?thesis
    using e1(1) e2(1) by (auto simp: computes_def o exec_block_append)
qed

section \<open>The function as a whole\<close>

text \<open>One iteration: the addition \<open>i\<close> is replaced by \<open>new\<close> and its uses by \<open>x\<close>.\<close>

definition replace_step :: "ir_instr list list \<Rightarrow> ir_instr list \<Rightarrow> ir_instr \<Rightarrow> ir_instr list \<Rightarrow> ir_instr list list
    \<Rightarrow> ir_value \<Rightarrow> ir_instr list \<Rightarrow> ir_instr list list" where
  "replace_step bs xs i is rest x new =
     map (map (replaceAllUsesWith (i_res i) x)) (bs @ [xs @ new @ is] @ rest)"

lemma replace_id: "v \<notin> refs i \<Longrightarrow> replaceAllUsesWith v x i = i"
proof -
  assume "v \<notin> refs i"
  then have "map (subst_value v x) (i_args i) = map id (i_args i)"
    by (intro map_cong) (auto simp: refs_def subst_value_def value_refs_def)
  then show ?thesis by (simp add: replaceAllUsesWith_def)
qed

lemma refs_replace: "refs (replaceAllUsesWith v x j) \<subseteq> refs j - {v} \<union> value_refs x"
  by (auto simp: refs_def replaceAllUsesWith_def subst_value_def value_refs_def split: ir_value.splits if_splits)

lemma replace_simps [simp]:
  "i_res (replaceAllUsesWith v x j) = i_res j" "i_op (replaceAllUsesWith v x j) = i_op j"
  "i_ty (replaceAllUsesWith v x j) = i_ty j" "length (i_args (replaceAllUsesWith v x j)) = length (i_args j)"
  by (simp_all add: replaceAllUsesWith_def)

lemma ir_ok_app: "ir_ok n (bs @ (xs @ i # is) # rest) \<longleftrightarrow>
    distinct (map i_res (concat bs @ xs @ i # is @ concat rest))
    \<and> (\<forall>j \<in> set (concat bs @ xs @ i # is @ concat rest). instr_ok n j)"
  by (simp add: ir_ok_def)

lemma ir_ok_other:
  assumes "ir_ok n (bs @ (xs @ i # is) # rest)" and "j \<in> set (concat bs @ xs @ is @ concat rest)"
  shows "i_res j < n \<and> i_res j \<noteq> i_res i \<and> refs j \<subseteq> {..<n}"
proof -
  have "i_res i \<notin> i_res ` set (concat bs @ xs @ is @ concat rest)" using assms(1) by (simp add: ir_ok_app image_Un)
  then have "i_res j \<noteq> i_res i" using imageI [OF assms(2), of i_res] by metis
  moreover have "j \<in> set (concat bs @ xs @ i # is @ concat rest)" using assms(2) by auto
  then have "instr_ok n j" using assms(1) unfolding ir_ok_app by (metis bspec)
  ultimately show ?thesis by (simp add: instr_ok_def)
qed

lemma replace_step_ok:
  assumes ok: "ir_ok n (bs @ (xs @ i # is) # rest)" and add: "i_op i = Op_Add"
    and ins: "inserted_ok (refs i) n (x, new, n')"
  shows "ir_ok n' (replace_step bs xs i is rest x new)"
proof -
  let ?r = "replaceAllUsesWith (i_res i) x" and ?old = "concat bs @ xs @ is @ concat rest"
  have res: "map i_res (map ?r js) = map i_res js" for js by simp
  have cc: "concat (replace_step bs xs i is rest x new) = map ?r (concat bs @ xs @ new @ is @ concat rest)"
    by (simp add: replace_step_def map_concat)
  have new: "n \<le> i_res j \<and> i_res j < n' \<and> i_op j \<noteq> Op_Add \<and> refs j \<subseteq> refs i \<union> {n..<n'}" if "j \<in> set new" for j
    using ins that by (simp add: inserted_ok_def)
  have x: "value_refs x \<subseteq> {n..<n'}" "n \<le> n'" "distinct (map i_res new)" using ins by (simp_all add: inserted_ok_def)
  have iok: "refs i \<subseteq> {..<n}" using ok by (simp add: ir_ok_app instr_ok_def)
  have old: "instr_ok n j" if "j \<in> set ?old" for j
    using ok that by (auto simp: ir_ok_app)
  have "i_res ` set new \<inter> i_res ` set ?old = {}"
    using new old by (fastforce simp: instr_ok_def)
  moreover have "distinct (map i_res ?old)" using ok by (auto simp: ir_ok_app)
  ultimately have "distinct (map i_res (concat bs @ xs @ new @ is @ concat rest))"
    using x(3) by (auto simp: image_Un Int_Un_distrib)
  moreover have "instr_ok n' (?r j)" if "j \<in> set ?old" for j
    using old [OF that] refs_replace [of "i_res i" x j] x(1,2) by (fastforce simp: instr_ok_def)
  moreover have "instr_ok n' (?r j)" if "j \<in> set new" for j
    using new [OF that] refs_replace [of "i_res i" x j] x(1,2) iok by (fastforce simp: instr_ok_def)
  ultimately show ?thesis
    unfolding ir_ok_def cc res by auto
qed

lemma exec_replaced_block:
  assumes b: "builder_ok reads sem cn cs" and ok: "ir_ok n (bs @ (xs @ i # is) # rest)"
    and i: "i_op i = Op_Add" "i_ty i = Some w" and o: "obfuscate_add cn cs i w n = (x, new, n')"
    and rel: "env_rel (i_res i) x n e e'"
    and run: "exec_block reads sem (xs @ i # is) (e, m) = Some (e1, m1)"
  shows "\<exists>e1'. exec_block reads sem (map (replaceAllUsesWith (i_res i) x) (xs @ new @ is)) (e', m) = Some (e1', m1)
    \<and> env_rel (i_res i) x n e1 e1'"
proof -
  let ?r = "replaceAllUsesWith (i_res i) x"
  have iok: "length (i_args i) = 2" "i_res i < n" "i_res i \<notin> refs i" "refs i \<subseteq> {..<n}"
    using ok i(1) by (simp_all add: ir_ok_app instr_ok_def)
  have ins: "inserted_ok (refs i) n (x, new, n')" using obfuscate_inserted [OF b iok(1), of n w] o by simp
  then have x: "value_refs x \<inter> {..<n} = {}" by (auto simp: inserted_ok_def)
  from run obtain e2 m2 e3 m3 where
    r1: "exec_block reads sem xs (e, m) = Some (e2, m2)" and r2: "exec_instr reads sem i (e2, m2) = Some (e3, m3)"
    and r3: "exec_block reads sem is (e3, m3) = Some (e1, m1)"
    by (auto simp: exec_block_append bind_eq_Some_conv)
  have other1: "\<And>j. j \<in> set xs \<Longrightarrow> i_res j < n \<and> i_res j \<noteq> i_res i \<and> refs j \<subseteq> {..<n}"
    and other2: "\<And>j. j \<in> set is \<Longrightarrow> i_res j < n \<and> i_res j \<noteq> i_res i \<and> refs j \<subseteq> {..<n}"
    by (rule ir_ok_other [OF ok]; simp)+
  from exec_block_rel [OF rel x other1 r1] obtain e2' where
    x1: "exec_block reads sem (map ?r xs) (e', m) = Some (e2', m2)" and rel2: "env_rel (i_res i) x n e2 e2'" by blast
  from r2 obtain a c where ac: "ir_eval e2 (i_args i ! 0) = Some a" "ir_eval e2 (i_args i ! 1) = Some c"
    and e3: "e3 = e2(i_res i \<mapsto> take_bit w (a + c))" "m3 = m2"
    using i iok(1) by (auto simp: exec_instr_def instr_result_def operand_def bind_eq_Some_conv)
  have "subst_value (i_res i) x u = u" if "u \<in> set (i_args i)" for u
    using that iok(3) by (auto simp: subst_value_def refs_def value_refs_def)
  then have "ir_eval e2' (i_args i ! 0) = Some a" "ir_eval e2' (i_args i ! 1) = Some c"
    using eval_rel [OF rel2 _ ac(1)] eval_rel [OF rel2 _ ac(2)] two_args [OF iok(1)] iok(1,4) by auto
  from obfuscate_computes [OF b iok(1,4) this, of w m2] obtain e3' where
    x2: "exec_block reads sem new (e2', m2) = Some (e3', m2)" and v: "ir_eval e3' x = Some (take_bit w (a + c))"
    by (auto simp: computes_def o)
  have "e3' k = e2' k" if "k < n" for k
    by (rule exec_block_frame [OF x2]) (use ins that in \<open>fastforce simp: inserted_ok_def\<close>)
  then have rel3: "env_rel (i_res i) x n e3 e3'"
    using rel2 v by (auto simp: env_rel_def e3(1))
  have "map ?r new = map id new"
    by (rule map_cong) (use ins iok(2,3) in \<open>fastforce simp: inserted_ok_def intro!: replace_id\<close>)+
  with exec_block_rel [OF rel3 x other2 r3] x1 x2 e3(2) show ?thesis
    by (simp add: exec_block_append)
qed

lemma replace_step_nth:
  assumes "k < length (bs @ (xs @ i # is) # rest)"
  shows "replace_step bs xs i is rest x new ! k =
    map (replaceAllUsesWith (i_res i) x) (if k = length bs then xs @ new @ is else (bs @ (xs @ i # is) # rest) ! k)"
proof -
  have "replace_step bs xs i is rest x new ! k = map (replaceAllUsesWith (i_res i) x) ((bs @ (xs @ new @ is) # rest) ! k)"
    unfolding replace_step_def using assms by (subst nth_map) simp_all
  moreover have "(bs @ (xs @ new @ is) # rest) ! k = (if k = length bs then xs @ new @ is else (bs @ (xs @ i # is) # rest) ! k)"
    by (simp add: nth_append nth_Cons')
  ultimately show ?thesis by simp
qed

lemma other_block: "k < length (bs @ c # rest) \<Longrightarrow> k \<noteq> length bs \<Longrightarrow> (bs @ c # rest) ! k \<in> set (bs @ rest)"
  by (auto simp: nth_append nth_Cons')

lemma exec_func_replaced:
  assumes b: "builder_ok reads sem cn cs" and ok: "ir_ok n (bs @ (xs @ i # is) # rest)"
    and i: "i_op i = Op_Add" "i_ty i = Some w" and o: "obfuscate_add cn cs i w n = (x, new, n')"
  shows "env_rel (i_res i) x n e e' \<Longrightarrow> exec_func reads sem succ (bs @ (xs @ i # is) # rest) fuel k (e, m) = Some r \<Longrightarrow>
    exec_func reads sem succ (replace_step bs xs i is rest x new) fuel k (e', m) = Some r"
proof (induction fuel arbitrary: k e e' m)
  case (Suc fuel)
  let ?old = "bs @ (xs @ i # is) # rest" and ?new = "replace_step bs xs i is rest x new"
  let ?r = "replaceAllUsesWith (i_res i) x"
  have len: "length ?new = length ?old" by (simp add: replace_step_def)
  have x: "value_refs x \<inter> {..<n} = {}"
    using obfuscate_inserted [OF b, of i n w] o ok i(1) by (auto simp: ir_ok_app instr_ok_def inserted_ok_def)
  from Suc.prems(2) obtain e1 m1 where k: "k < length ?old"
    and blk: "exec_block reads sem (?old ! k) (e, m) = Some (e1, m1)"
    and next_blk: "(case succ m1 of None \<Rightarrow> Some m1 | Some b' \<Rightarrow> exec_func reads sem succ ?old fuel b' (e1, m1)) = Some r"
    by (auto simp: bind_eq_Some_conv simp del: length_append length_Cons split: if_splits)
  have "\<exists>e1'. exec_block reads sem (?new ! k) (e', m) = Some (e1', m1) \<and> env_rel (i_res i) x n e1 e1'"
  proof (cases "k = length bs")
    case True
    then have "exec_block reads sem (xs @ i # is) (e, m) = Some (e1, m1)" using blk by simp
    moreover have "?new ! k = map ?r (xs @ new @ is)" by (subst replace_step_nth [OF k]) (simp add: True)
    ultimately show ?thesis using exec_replaced_block [OF b ok i o Suc.prems(1)] by (simp only:)
  next
    case False
    have blks: "?old ! k \<in> set (bs @ rest)" using k False by (rule other_block)
    have new: "?new ! k = map ?r (?old ! k)" by (subst replace_step_nth [OF k]) (simp add: False)
    have "i_res j < n \<and> i_res j \<noteq> i_res i \<and> refs j \<subseteq> {..<n}" if "j \<in> set (?old ! k)" for j
      by (rule ir_ok_other [OF ok]) (use that blks in auto)
    from exec_block_rel [OF Suc.prems(1) x this blk] show ?thesis by (simp only: new)
  qed
  then obtain e1' where e1': "exec_block reads sem (?new ! k) (e', m) = Some (e1', m1)" "env_rel (i_res i) x n e1 e1'" by blast
  show ?case
  proof (cases "succ m1")
    case None
    with k next_blk e1'(1) show ?thesis by (simp add: len)
  next
    case (Some b')
    with next_blk Suc.IH [OF e1'(2)] have "exec_func reads sem succ ?new fuel b' (e1', m1) = Some r" by simp
    with Some k e1'(1) show ?thesis by (simp add: len)
  qed
qed simp

definition start_ok :: "nat \<Rightarrow> ir_instr list list \<Rightarrow> ir_env \<Rightarrow> bool" where
  "start_ok n blocks e \<longleftrightarrow> dom e \<subseteq> {..<n} \<and> (\<forall>i \<in> set (concat blocks). e (i_res i) = None)"

lemma start_ok_replaced:
  assumes ok: "ir_ok n (bs @ (xs @ i # is) # rest)" and st: "start_ok n (bs @ (xs @ i # is) # rest) e"
    and ins: "inserted_ok (refs i) n (x, new, n')"
  shows "start_ok n' (replace_step bs xs i is rest x new) e" "env_rel (i_res i) x n e e"
proof -
  have new: "e (i_res j) = None" if "j \<in> set new" for j
  proof -
    have "i_res j \<notin> {..<n}" using ins that by (auto simp: inserted_ok_def)
    then have "i_res j \<notin> dom e" using st by (auto simp: start_ok_def)
    then show ?thesis by auto
  qed
  show "start_ok n' (replace_step bs xs i is rest x new) e"
  proof -
    have "dom e \<subseteq> {..<n'}" using ins st by (auto simp: start_ok_def inserted_ok_def)
    then show ?thesis using st new by (simp add: start_ok_def replace_step_def ball_Un)
  qed
  show "env_rel (i_res i) x n e e" using st by (simp add: env_rel_def start_ok_def)
qed

lemma run_loop_skip:
  "\<not> int_add i \<Longrightarrow> run_loop cn cs bs xs (i # is) rest n changed = run_loop cn cs bs (xs @ [i]) is rest n changed"
  by (auto simp: int_add_def split: ir_opcode.splits option.splits)

lemma run_loop_correct:
  assumes b: "builder_ok reads sem cn cs"
  shows "ir_ok n (bs @ (xs @ is) # rest) \<Longrightarrow> start_ok n (bs @ (xs @ is) # rest) e \<Longrightarrow>
    run_loop cn cs bs xs is rest n changed = (blocks, changed') \<Longrightarrow>
    exec_func reads sem succ (bs @ (xs @ is) # rest) fuel k (e, m) = Some r \<Longrightarrow>
    (\<forall>j \<in> set (concat bs @ xs). \<not> int_add j) \<Longrightarrow>
    exec_func reads sem succ blocks fuel k (e, m) = Some r \<and> (\<forall>j \<in> set (concat blocks). \<not> int_add j)"
proof (induction "length is + sum_list (map (\<lambda>b. Suc (length b)) rest)" arbitrary: bs xs "is" rest n changed rule: less_induct)
  case less
  show ?case
  proof (cases "is")
    case Nil
    show ?thesis
    proof (cases rest)
      case Nil
      then have "blocks = bs @ [xs]" using \<open>is = []\<close> less.prems(3) by simp
      with \<open>is = []\<close> Nil less.prems(4,5) show ?thesis by (simp add: ball_Un)
    next
      case (Cons b rest')
      show ?thesis
        by (rule less.hyps [of b rest' n "bs @ [xs]" "[]"])
           (use less.prems \<open>is = []\<close> Cons in \<open>simp_all add: ball_Un\<close>)
    qed
  next
    case (Cons i is')
    show ?thesis
    proof (cases "int_add i")
      case False
      show ?thesis
      proof (rule less.hyps [of is' rest n bs "xs @ [i]" changed])
        show "run_loop cn cs bs (xs @ [i]) is' rest n changed = (blocks, changed')"
          using less.prems(3) unfolding Cons run_loop_skip [OF False] .
        show "\<forall>j \<in> set (concat bs @ xs @ [i]). \<not> int_add j"
          using less.prems(5) False by (simp add: ball_Un)
      qed (use less.prems(1,2,4) Cons in simp_all)
    next
      case True
      then obtain w where i: "i_op i = Op_Add" "i_ty i = Some w" by (auto simp: int_add_def)
      obtain x new n' where o: "obfuscate_add cn cs i w n = (x, new, n')" by (cases "obfuscate_add cn cs i w n")
      let ?r = "replaceAllUsesWith (i_res i) x"
      note ok = less.prems(1) [unfolded Cons] and st = less.prems(2) [unfolded Cons]
      have "length (i_args i) = 2" using ok i(1) by (simp add: ir_ok_app instr_ok_def)
      then have ins: "inserted_ok (refs i) n (x, new, n')" using obfuscate_inserted [OF b, of i n w] o by simp
      have eq: "replace_step bs xs i is' rest x new = map (map ?r) bs @ (map ?r (xs @ new) @ map ?r is') # map (map ?r) rest"
        by (simp add: replace_step_def)
      show ?thesis
      proof (rule less.hyps [of "map ?r is'" "map (map ?r) rest" n' "map (map ?r) bs" "map ?r (xs @ new)" True])
        show "length (map ?r is') + sum_list (map (\<lambda>b. Suc (length b)) (map (map ?r) rest))
            < length is + sum_list (map (\<lambda>b. Suc (length b)) rest)" by (simp add: Cons comp_def)
        show "run_loop cn cs (map (map ?r) bs) (map ?r (xs @ new)) (map ?r is') (map (map ?r) rest) n' True = (blocks, changed')"
          using less.prems(3) by (simp add: Cons i o Let_def)
        show "\<forall>j \<in> set (concat (map (map ?r) bs) @ map ?r (xs @ new)). \<not> int_add j"
          using less.prems(5) ins by (simp add: int_add_def inserted_ok_def ball_Un)
      qed (rule replace_step_ok [OF ok i(1) ins, unfolded eq] start_ok_replaced(1) [OF ok st ins, unfolded eq]
            exec_func_replaced [OF b ok i o start_ok_replaced(2) [OF ok st ins] less.prems(4) [unfolded Cons], unfolded eq])+
    qed
  qed
qed

section \<open>Properties\<close>

text \<open>C13. The mutation pass does not change what a program computes: for every function whose
  identities are unique, whatever its other instructions do, a run of the original from any block
  and any arguments that ends with some memory is a run of the mutated function that ends with the
  same memory. A function marked hk_mutate has no integer addition left; any other function is
  returned as it is.\<close>

theorem mutation_pass_preserves:
  assumes "builder_ok reads sem cn cs" and "ir_ok n (fn_blocks F)" and "start_ok n (fn_blocks F) e"
    and "exec_func reads sem succ (fn_blocks F) fuel k (e, m) = Some r"
  shows "exec_func reads sem succ (fn_blocks (fst (mutator_run cn cs n F))) fuel k (e, m) = Some r
    \<and> (''hk_mutate'' \<in> set (fn_attrs F) \<longrightarrow>
         (\<forall>j \<in> set (concat (fn_blocks (fst (mutator_run cn cs n F)))). \<not> int_add j))
    \<and> (''hk_mutate'' \<notin> set (fn_attrs F) \<longrightarrow> mutator_run cn cs n F = (F, False))"
proof (cases "''hk_mutate'' \<in> set (fn_attrs F) \<and> fn_blocks F \<noteq> []")
  case False
  then show ?thesis using assms(4) by (auto simp: mutator_run_def)
next
  case True
  then obtain b rest where F: "fn_blocks F = b # rest" by (cases "fn_blocks F") auto
  obtain blocks c where l: "run_loop cn cs [] [] b rest n False = (blocks, c)"
    by (cases "run_loop cn cs [] [] b rest n False")
  have "exec_func reads sem succ blocks fuel k (e, m) = Some r \<and> (\<forall>j \<in> set (concat blocks). \<not> int_add j)"
    by (rule run_loop_correct [OF assms(1) _ _ l]) (use assms(2-4) F in simp_all)
  moreover have "mutator_run cn cs n F = (F\<lparr>fn_blocks := blocks\<rparr>, c)"
    using True by (simp add: mutator_run_def F l)
  ultimately show ?thesis using True by simp
qed

text \<open>A builder that inserts one instruction per call, and the 8-bit function that returns the sum
  of its two arguments.\<close>

definition plain_not :: create_not where
  "plain_not v w n = (Ref n, [\<lparr>i_res = n, i_op = Op_Xor, i_ty = Some w, i_args = [v, ConstInt w (-1)]\<rparr>], Suc n)"

definition plain_sub :: create_sub where
  "plain_sub u v w n = (Ref n, [\<lparr>i_res = n, i_op = Op_Sub, i_ty = Some w, i_args = [u, v]\<rparr>], Suc n)"

lemma xor_all_ones: "take_bit w a XOR mask w = take_bit w (NOT a)" for a :: int
  by (rule bit_eqI) (auto simp: bit_simps)

lemma plain_builder_ok: "builder_ok reads sem plain_not plain_sub"
  by (auto simp: builder_ok_def plain_not_def plain_sub_def inserted_ok_def computes_def refs_def value_refs_def
      exec_instr_def instr_result_def operand_def ir_eval_def xor_all_ones
      simp del: take_bit_take_bit split: ir_value.splits)

definition add_func :: ir_func where
  "add_func = \<lparr>fn_attrs = [''hk_mutate''], fn_blocks =
     [[\<lparr>i_res = 2, i_op = Op_Add, i_ty = Some 8, i_args = [Ref 0, Ref 1]\<rparr>,
       \<lparr>i_res = 3, i_op = Op_Other 0, i_ty = None, i_args = [Ref 2]\<rparr>]]\<rparr>"

theorem mutation_pass_preserves_witness:
  "exec_func (\<lambda>_ _. [0]) (\<lambda>_ _ vs _. Some (0, hd vs)) (\<lambda>_. None)
     (fn_blocks (fst (mutator_run plain_not plain_sub 4 add_func))) 1 0 ([0 \<mapsto> 200, 1 \<mapsto> 100], 0 :: int) = Some 44
   \<and> filter int_add (concat (fn_blocks (fst (mutator_run plain_not plain_sub 4 add_func)))) = []"
proof -
  have ok: "ir_ok 4 (fn_blocks add_func)" "start_ok 4 (fn_blocks add_func) [0 \<mapsto> 200, 1 \<mapsto> 100]"
    by (auto simp: add_func_def ir_ok_def instr_ok_def start_ok_def refs_def value_refs_def split: if_splits)
  have "exec_func (\<lambda>_ _. [0]) (\<lambda>_ _ vs _. Some (0, hd vs)) (\<lambda>_. None) (fn_blocks add_func) 1 0
      ([0 \<mapsto> 200, 1 \<mapsto> 100], 0 :: int) = Some 44"
    by (simp add: add_func_def exec_instr_def instr_result_def operand_def ir_eval_def take_bit_eq_mod)
  from mutation_pass_preserves [OF plain_builder_ok ok this] show ?thesis
    unfolding filter_empty_conv by (simp add: add_func_def)
qed

end
