(* ===== verification/HK_Pool.thy ===== *)
theory HK_Pool
  imports HK_Prelude "HOL-Library.Sublist"
begin

text \<open>
  The pool generator of the build tools (hk_build_tools/generate_pool.py): the loop that mutates,
  checks and compiles until five variants are accepted, and the C header it writes.

  The external programs are arguments, collected in the record \<open>tools\<close>: clang-17, opt-17 with
  the mutation pass (called once per attempt), alive-tv, llc-17 with llvm-objcopy-17, and
  hashlib.sha256. A program that fails ends the script (\<open>Inl ()\<close>); the while loop of
  generate_variants is a partial function, \<open>None\<close> being a loop that does not end.
\<close>

section \<open>Text\<close>

definition digit_char :: "nat \<Rightarrow> char" where
  "digit_char d = ''0123456789abcdef'' ! d"

fun str_nat :: "nat \<Rightarrow> string" where
  "str_nat n = (if n < 10 then [digit_char n] else str_nat (n div 10) @ [digit_char (n mod 10)])"

declare str_nat.simps [simp del]

text \<open>\<^verbatim>\<open>f"0x{b:02x}"\<close> and \<^verbatim>\<open>", ".join\<close>\<close>

definition hex_byte :: "u8 \<Rightarrow> string" where
  "hex_byte b = ''0x'' @ [digit_char (unat b div 16), digit_char (unat b mod 16)]"

fun join :: "string \<Rightarrow> string list \<Rightarrow> string" where
  "join sep [] = []"
| "join sep [x] = x"
| "join sep (x # y # xs) = x @ sep @ join sep (y # xs)"

section \<open>Generating the variants\<close>

record 'ir tools =
  clang :: "'ir option"
  opt :: "nat \<Rightarrow> 'ir \<Rightarrow> 'ir option"
  alive_tv :: "nat \<Rightarrow> 'ir \<Rightarrow> 'ir \<Rightarrow> string"
  llc_objcopy :: "'ir \<Rightarrow> u8 list option"
  sha256_hexdigest :: "u8 list \<Rightarrow> string"

record variant =
  var_id :: nat
  var_hash :: string
  var_size :: nat
  var_path :: string

type_synonym files = "string \<rightharpoonup> u8 list"

definition VARIANTS_COUNT :: nat where "VARIANTS_COUNT = 5"

definition bin_file :: "nat \<Rightarrow> string" where
  "bin_file n = ''build_artifacts/v'' @ str_nat n @ ''.bin''"

definition accepted :: "string \<Rightarrow> bool" where
  "accepted stdout = sublist ''Transformation seems to be correct!'' stdout"

partial_function (option) generate_loop ::
    "'ir tools \<Rightarrow> 'ir \<Rightarrow> nat \<Rightarrow> nat \<Rightarrow> variant list \<Rightarrow> files \<Rightarrow> (unit + variant list \<times> files) option" where
  "generate_loop t base_ir valid_count attempts variants fs =
     (if valid_count < VARIANTS_COUNT then
        (let attempts = Suc attempts in
         case opt t attempts base_ir of
           None \<Rightarrow> Some (Inl ())
         | Some mutated_ir \<Rightarrow>
             if accepted (alive_tv t attempts base_ir mutated_ir) then
               (case llc_objcopy t mutated_ir of
                  None \<Rightarrow> Some (Inl ())
                | Some data \<Rightarrow>
                    let path = bin_file valid_count;
                        fs = fs(path \<mapsto> data);
                        v = \<lparr>var_id = valid_count, var_hash = sha256_hexdigest t data, var_size = length data,
                             var_path = path\<rparr>
                    in generate_loop t base_ir (Suc valid_count) attempts (variants @ [v]) fs)
             else generate_loop t base_ir valid_count attempts variants fs)
      else Some (Inr (variants, fs)))"

definition generate_variants :: "'ir tools \<Rightarrow> files \<Rightarrow> (unit + variant list \<times> files) option" where
  "generate_variants t fs = (case clang t of None \<Rightarrow> Some (Inl ()) | Some base_ir \<Rightarrow> generate_loop t base_ir 0 0 [] fs)"

section \<open>The header\<close>

definition nl :: string where "nl = [CHR 0x0A]"
definition quote :: string where "quote = [CHR 0x22]"

definition header_data :: "files \<Rightarrow> variant \<Rightarrow> string option" where
  "header_data fs v = do {
     data \<leftarrow> fs (var_path v);
     Some (''/* Variant ID: '' @ str_nat (var_id v) @ '' | Hash: '' @ var_hash v @ '' */'' @ nl
       @ ''static const uint8_t variant_'' @ str_nat (var_id v) @ ''_data[] = {'' @ nl
       @ ''    '' @ join '', '' (map hex_byte data) @ nl @ ''};'' @ nl @ nl) }"

definition header_record :: "variant \<Rightarrow> string" where
  "header_record v = ''    {'' @ str_nat (var_id v) @ '', variant_'' @ str_nat (var_id v) @ ''_data, ''
     @ str_nat (var_size v) @ '', '' @ quote @ var_hash v @ quote @ ''},'' @ nl"

definition package_header :: "variant list \<Rightarrow> files \<Rightarrow> string option" where
  "package_header variants fs = do {
     blocks \<leftarrow> those (map (header_data fs) variants);
     Some (''/* Auto-generated by Heuristic OS Build System. DO NOT EDIT. */'' @ nl
       @ ''#ifndef BAKED_MUTATIONS_H'' @ nl @ ''#define BAKED_MUTATIONS_H'' @ nl @ nl @ ''#include <stdint.h>'' @ nl @ nl
       @ ''#define POOL_SIZE '' @ str_nat (length variants) @ nl @ nl
       @ concat blocks
       @ ''typedef struct {'' @ nl @ ''    int id;'' @ nl @ ''    const uint8_t* data;'' @ nl @ ''    int size;'' @ nl
       @ ''    const char* hash;'' @ nl @ ''} variant_record_t;'' @ nl @ nl
       @ ''static const variant_record_t mutation_pool[POOL_SIZE] = {'' @ nl
       @ concat (map header_record variants) @ ''};'' @ nl @ nl @ ''#endif'' @ nl) }"

section \<open>Lemmas\<close>

lemma digit_char_inj: "i < 16 \<Longrightarrow> j < 16 \<Longrightarrow> digit_char i = digit_char j \<Longrightarrow> i = j"
  unfolding digit_char_def by (subst (asm) nth_eq_iff_index_eq) simp_all

lemma bin_file_inj: "m < 10 \<Longrightarrow> n < 10 \<Longrightarrow> bin_file m = bin_file n \<Longrightarrow> m = n"
  by (simp add: bin_file_def str_nat.simps [of m] str_nat.simps [of n] digit_char_inj)

text \<open>The binary of the variant an attempt produces, when all programs succeed on it and it is
  accepted.\<close>

definition attempt_result :: "'ir tools \<Rightarrow> 'ir \<Rightarrow> nat \<Rightarrow> u8 list option" where
  "attempt_result t base_ir a = do {
     mutated_ir \<leftarrow> opt t a base_ir;
     if accepted (alive_tv t a base_ir mutated_ir) then llc_objcopy t mutated_ir else None }"

definition programs_run :: "'ir tools \<Rightarrow> 'ir \<Rightarrow> bool" where
  "programs_run t base_ir \<longleftrightarrow> (\<forall>a. \<exists>ir. opt t a base_ir = Some ir \<and> llc_objcopy t ir \<noteq> None)"

definition variant_of :: "'ir tools \<Rightarrow> nat \<Rightarrow> u8 list \<Rightarrow> variant" where
  "variant_of t n data = \<lparr>var_id = n, var_hash = sha256_hexdigest t data, var_size = length data, var_path = bin_file n\<rparr>"

lemma loop_rejected:
  assumes "n < VARIANTS_COUNT" and "programs_run t base_ir" and "attempt_result t base_ir (Suc a) = None"
  shows "generate_loop t base_ir n a vs fs = generate_loop t base_ir n (Suc a) vs fs"
proof -
  obtain ir where ir: "opt t (Suc a) base_ir = Some ir" "llc_objcopy t ir \<noteq> None"
    using assms(2) unfolding programs_run_def by blast
  then have "\<not> accepted (alive_tv t (Suc a) base_ir ir)" using assms(3) by (auto simp: attempt_result_def)
  with ir(1) assms(1) show ?thesis by (subst generate_loop.simps) simp
qed

lemma loop_accepted:
  assumes "n < VARIANTS_COUNT" and "attempt_result t base_ir (Suc a) = Some data"
  shows "generate_loop t base_ir n a vs fs =
    generate_loop t base_ir (Suc n) (Suc a) (vs @ [variant_of t n data]) (fs(bin_file n \<mapsto> data))"
  using assms
  by (subst generate_loop.simps)
     (auto simp: attempt_result_def variant_of_def bind_eq_Some_conv Let_def split: if_splits)

text \<open>The rejected attempts before the next accepted one are skipped.\<close>

lemma loop_until_accepted:
  assumes "n < VARIANTS_COUNT" and "programs_run t base_ir" and "attempt_result t base_ir b = Some data" and "a < b"
  shows "\<exists>c data. a < c \<and> c \<le> b \<and> attempt_result t base_ir c = Some data \<and> generate_loop t base_ir n a vs fs =
    generate_loop t base_ir (Suc n) c (vs @ [variant_of t n data]) (fs(bin_file n \<mapsto> data))"
  using assms(4)
proof (induction "b - a" arbitrary: a rule: less_induct)
  case less
  show ?case
  proof (cases "attempt_result t base_ir (Suc a)")
    case None
    then have "Suc a < b" using assms(3) less.prems by (metis Suc_lessI option.distinct(1))
    moreover have "b - Suc a < b - a" using less.prems by simp
    ultimately obtain c data where "Suc a < c" "c \<le> b"
      "attempt_result t base_ir c = Some data" "generate_loop t base_ir n (Suc a) vs fs =
        generate_loop t base_ir (Suc n) c (vs @ [variant_of t n data]) (fs(bin_file n \<mapsto> data))" using less.hyps [of "Suc a"] by blast
    with loop_rejected [OF assms(1,2) None] show ?thesis by (metis Suc_lessD)
  next
    case (Some data)
    from loop_accepted [OF assms(1) Some] Some less.prems show ?thesis by (metis Suc_leI lessI)
  qed
qed

text \<open>What the loop has collected after \<open>n\<close> variants.\<close>

definition pool_inv :: "'ir tools \<Rightarrow> 'ir \<Rightarrow> nat \<Rightarrow> variant list \<Rightarrow> files \<Rightarrow> bool" where
  "pool_inv t base_ir n vs fs \<longleftrightarrow> length vs = n \<and>
     (\<forall>i < n. \<exists>a data. attempt_result t base_ir a = Some data \<and> vs ! i = variant_of t i data \<and> fs (bin_file i) = Some data)"

lemma pool_inv_step:
  assumes "pool_inv t base_ir n vs fs" and "n < VARIANTS_COUNT" and "attempt_result t base_ir a = Some data"
  shows "pool_inv t base_ir (Suc n) (vs @ [variant_of t n data]) (fs(bin_file n \<mapsto> data))"
proof -
  have "bin_file i \<noteq> bin_file n" if "i < n" for i
    using that assms(2) bin_file_inj [of i n] by (auto simp: VARIANTS_COUNT_def)
  with assms(1,3) show ?thesis
    by (auto simp: pool_inv_def nth_append less_Suc_eq)
qed

lemma loop_completes:
  assumes "programs_run t base_ir" and "\<forall>a. \<exists>b > a. attempt_result t base_ir b \<noteq> None"
  shows "pool_inv t base_ir n vs fs \<Longrightarrow> n \<le> VARIANTS_COUNT \<Longrightarrow>
    \<exists>vs' fs'. generate_loop t base_ir n a vs fs = Some (Inr (vs', fs')) \<and> pool_inv t base_ir VARIANTS_COUNT vs' fs'"
proof (induction "VARIANTS_COUNT - n" arbitrary: n a vs fs rule: less_induct)
  case less
  show ?case
  proof (cases "n = VARIANTS_COUNT")
    case True
    then show ?thesis using less.prems(1) by (subst generate_loop.simps) simp
  next
    case False
    then have n: "n < VARIANTS_COUNT" using less.prems(2) by simp
    obtain b data where "a < b" "attempt_result t base_ir b = Some data" using assms(2) by blast
    from loop_until_accepted [OF n assms(1) this(2,1), of vs fs]
    obtain c data where c: "attempt_result t base_ir c = Some data" "generate_loop t base_ir n a vs fs =
        generate_loop t base_ir (Suc n) c (vs @ [variant_of t n data]) (fs(bin_file n \<mapsto> data))" by blast
    have "\<exists>vs' fs'. generate_loop t base_ir (Suc n) c (vs @ [variant_of t n data]) (fs(bin_file n \<mapsto> data)) = Some (Inr (vs', fs'))
        \<and> pool_inv t base_ir VARIANTS_COUNT vs' fs'"
      by (rule less.hyps [OF _ pool_inv_step [OF less.prems(1) n c(1)]]) (use n in simp_all)
    with c(2) show ?thesis by simp
  qed
qed

text \<open>If every attempt is rejected the loop does not end.\<close>

lemma loop_never_ends:
  assumes "programs_run t base_ir" and "\<forall>a. attempt_result t base_ir a = None"
  shows "generate_loop t base_ir 0 a vs fs = None"
proof (rule ccontr)
  let ?P = "\<lambda>t base_ir (n :: nat) a vs fs r. programs_run t base_ir \<longrightarrow> (\<forall>a. attempt_result t base_ir a = None) \<longrightarrow> n \<noteq> 0"
  assume "generate_loop t base_ir 0 a vs fs \<noteq> None"
  then obtain r where r: "generate_loop t base_ir 0 a vs fs = Some r" by blast
  have "?P t base_ir 0 a vs fs r"
  proof (rule generate_loop.raw_induct [where P = ?P, OF _ r], intro impI notI)
    fix f :: "'b tools \<Rightarrow> 'b \<Rightarrow> nat \<Rightarrow> nat \<Rightarrow> variant list \<Rightarrow> files \<Rightarrow> (unit + variant list \<times> files) option"
      and t base_ir n a vs fs r
    assume IH: "\<And>t base_ir n a vs fs r. f t base_ir n a vs fs = Some r \<Longrightarrow> ?P t base_ir n a vs fs r"
      and body: "(if n < VARIANTS_COUNT then let attempts = Suc a in case opt t attempts base_ir of None \<Rightarrow> Some (Inl ())
          | Some mutated_ir \<Rightarrow> if accepted (alive_tv t attempts base_ir mutated_ir)
              then case llc_objcopy t mutated_ir of None \<Rightarrow> Some (Inl ())
                | Some data \<Rightarrow> let path = bin_file n; fs = fs(path \<mapsto> data);
                    v = \<lparr>var_id = n, var_hash = sha256_hexdigest t data, var_size = length data, var_path = path\<rparr>
                    in f t base_ir (Suc n) attempts (vs @ [v]) fs
              else f t base_ir n attempts vs fs
        else Some (Inr (vs, fs))) = Some r"
      and run: "programs_run t base_ir" and none: "\<forall>a. attempt_result t base_ir a = None" and n: "n = 0"
    obtain ir where ir: "opt t (Suc a) base_ir = Some ir" "llc_objcopy t ir \<noteq> None"
      using run unfolding programs_run_def by blast
    then have "\<not> accepted (alive_tv t (Suc a) base_ir ir)"
      using none [THEN spec, of "Suc a"] by (auto simp: attempt_result_def)
    with body ir(1) n have "f t base_ir n (Suc a) vs fs = Some r" by (simp add: VARIANTS_COUNT_def)
    from IH [OF this] run none n show False by simp
  qed
  with assms show False by simp
qed

lemma those_map_Some: "(\<And>x. x \<in> set xs \<Longrightarrow> f x \<noteq> None) \<Longrightarrow> those (map f xs) \<noteq> None"
  by (induction xs) (auto split: option.splits)

lemma pool_inv_result:
  assumes "pool_inv t base_ir VARIANTS_COUNT vs fs"
  shows "map var_id vs = [0, 1, 2, 3, 4]"
    and "\<forall>v \<in> set vs. \<exists>a data. attempt_result t base_ir a = Some data \<and> fs (var_path v) = Some data
      \<and> var_size v = length data \<and> var_hash v = sha256_hexdigest t data" (is "\<forall>v \<in> _. ?ok v")
    and "package_header vs fs \<noteq> None"
proof -
  have len: "length vs = 5" and nth: "\<And>i. i < 5 \<Longrightarrow> var_id (vs ! i) = i \<and> ?ok (vs ! i)"
    using assms by (fastforce simp: pool_inv_def VARIANTS_COUNT_def variant_of_def)+
  show "map var_id vs = [0, 1, 2, 3, 4]"
  proof (rule nth_equalityI)
    fix i assume "i < length (map var_id vs)"
    then have i: "i < 5" using len by simp
    then have "i \<in> {0, 1, 2, 3, 4}" by auto
    then show "map var_id vs ! i = [0, 1, 2, 3, 4] ! i" using nth [OF i] len by auto
  qed (simp add: len)
  show ok: "\<forall>v \<in> set vs. ?ok v"
    using nth len by (auto simp: in_set_conv_nth)
  then have "those (map (header_data fs) vs) \<noteq> None"
    by (intro those_map_Some) (auto simp: header_data_def)
  then show "package_header vs fs \<noteq> None" by (auto simp: package_header_def)
qed

section \<open>Property\<close>

text \<open>C17. The generator of the pool either delivers or never returns: if the programs run and again and
  again some attempt is accepted, it returns five variants numbered from 0, each with the size and
  the digest of a binary compiled from an accepted attempt and with that binary in its own file, and
  the header can be written from them; if no attempt is accepted, the script does not return.\<close>

theorem pool_generation:
  assumes "clang t = Some base_ir" and "programs_run t base_ir"
  shows "((\<forall>a. \<exists>b > a. attempt_result t base_ir b \<noteq> None) \<longrightarrow>
      (\<exists>vs fs'. generate_variants t fs = Some (Inr (vs, fs')) \<and> map var_id vs = [0, 1, 2, 3, 4]
        \<and> (\<forall>v \<in> set vs. \<exists>a data. attempt_result t base_ir a = Some data \<and> fs' (var_path v) = Some data
             \<and> var_size v = length data \<and> var_hash v = sha256_hexdigest t data)
        \<and> package_header vs fs' \<noteq> None))
    \<and> ((\<forall>a. attempt_result t base_ir a = None) \<longrightarrow> generate_variants t fs = None)"
proof (intro conjI impI)
  assume "\<forall>a. \<exists>b > a. attempt_result t base_ir b \<noteq> None"
  from loop_completes [OF assms(2) this, of 0 "[]" fs 0]
  obtain vs fs' where "generate_loop t base_ir 0 0 [] fs = Some (Inr (vs, fs'))" "pool_inv t base_ir VARIANTS_COUNT vs fs'"
    by (auto simp: pool_inv_def)
  with pool_inv_result [OF this(2)] assms(1)
  show "\<exists>vs fs'. generate_variants t fs = Some (Inr (vs, fs')) \<and> map var_id vs = [0, 1, 2, 3, 4]
        \<and> (\<forall>v \<in> set vs. \<exists>a data. attempt_result t base_ir a = Some data \<and> fs' (var_path v) = Some data
             \<and> var_size v = length data \<and> var_hash v = sha256_hexdigest t data)
        \<and> package_header vs fs' \<noteq> None"
    by (intro exI [of _ vs] exI [of _ fs']) (simp add: generate_variants_def)
next
  assume "\<forall>a. attempt_result t base_ir a = None"
  with loop_never_ends [OF assms(2)] assms(1) show "generate_variants t fs = None" by (simp add: generate_variants_def)
qed

text \<open>Programs with which every second attempt is accepted.\<close>

definition example_tools :: "nat tools" where
  "example_tools = \<lparr>clang = Some 0, opt = (\<lambda>a ir. Some a),
     alive_tv = (\<lambda>a ir ir'. if even a then ''Transformation seems to be correct!'' else ''ERROR: Value mismatch''),
     llc_objcopy = (\<lambda>ir. Some [of_nat ir, 0xC3]), sha256_hexdigest = (\<lambda>data. ''00'')\<rparr>"

theorem pool_generation_witness:
  "\<exists>vs fs'. generate_variants example_tools Map.empty = Some (Inr (vs, fs')) \<and> map var_id vs = [0, 1, 2, 3, 4]
     \<and> package_header vs fs' \<noteq> None"
proof -
  have run: "clang example_tools = Some 0" "programs_run example_tools 0"
    by (simp_all add: programs_run_def example_tools_def)
  have "attempt_result example_tools 0 (2 * Suc a) \<noteq> None" for a
    unfolding attempt_result_def example_tools_def accepted_def by simp
  then have "\<forall>a. \<exists>b > a. attempt_result example_tools 0 b \<noteq> None"
  proof (intro allI)
    fix a assume "\<And>a. attempt_result example_tools 0 (2 * Suc a) \<noteq> None"
    moreover have "a < 2 * Suc a" by simp
    ultimately show "\<exists>b > a. attempt_result example_tools 0 b \<noteq> None" by blast
  qed
  from pool_generation [OF run, of Map.empty, THEN conjunct1, THEN mp, OF this] show ?thesis
    by (elim exE conjE) (intro exI conjI)
qed

end
