(* ===== verification/K_String.thy ===== *)
theory K_String
  imports HK_Prelude
begin

text \<open>
  The kernel's memory and string routines (src/kernel/src/util.c, lines 22-138). Memory is a
  region indexed by address; an access outside it, a failed assertion and a signed overflow are
  \<open>None\<close>. A char is its byte; the comparisons of \<open>char_to_long\<close> are on ASCII digits and letters,
  where signed and unsigned char agree, and a byte from 128 on is a negative char that no range
  contains.
\<close>

section \<open>Memory\<close>

fun memzero_loop :: "nat \<Rightarrow> nat \<Rightarrow> region \<Rightarrow> region option" where
  "memzero_loop p n r =
     (if n = 0 then Some r
      else do { r \<leftarrow> store_bytes r p (replicate 8 0); memzero_loop (p + 8) (n - 8) r })"

declare memzero_loop.simps [simp del]

definition memzero :: "nat \<Rightarrow> nat \<Rightarrow> region \<Rightarrow> region option" where
  "memzero s n r = (if s mod 8 = 0 \<and> n mod 8 = 0 then memzero_loop s n r else None)"

fun memset_loop :: "nat \<Rightarrow> u8 \<Rightarrow> nat \<Rightarrow> region \<Rightarrow> region option" where
  "memset_loop p c 0 r = Some r"
| "memset_loop p c (Suc n) r = do { r \<leftarrow> store8 r p c; memset_loop (Suc p) c n r }"

definition memset :: "nat \<Rightarrow> u64 \<Rightarrow> nat \<Rightarrow> region \<Rightarrow> region option" where
  "memset s c n r =
     (if c = 0 \<and> s mod 8 = 0 \<and> n mod 8 = 0 then memzero s n r
      else memset_loop s (ucast c) n r)"

text \<open>One memory, so the source may change while it is read when the ranges overlap.\<close>

fun memcpy :: "nat \<Rightarrow> nat \<Rightarrow> nat \<Rightarrow> region \<Rightarrow> region option" where
  "memcpy p q 0 r = Some r"
| "memcpy p q (Suc n) r = do { b \<leftarrow> r q; r \<leftarrow> store8 r p b; memcpy (Suc p) (Suc q) n r }"

section \<open>Strings\<close>

text \<open>The loop counter is a word_t, so the bound n is converted to unsigned long.\<close>

fun strncmp_loop :: "region \<Rightarrow> nat \<Rightarrow> nat \<Rightarrow> nat \<Rightarrow> c_int option" where
  "strncmp_loop r s1 s2 0 = Some 0"
| "strncmp_loop r s1 s2 (Suc n) =
     do { a \<leftarrow> r s1; b \<leftarrow> r s2;
          let diff = (ucast a - ucast b :: c_int);
          if diff \<noteq> 0 \<or> a = 0 then Some diff else strncmp_loop r (Suc s1) (Suc s2) n }"

definition strncmp :: "region \<Rightarrow> nat \<Rightarrow> nat \<Rightarrow> c_int \<Rightarrow> c_int option" where
  "strncmp r s1 s2 n = strncmp_loop r s1 s2 (unat (scast n :: u64))"

definition char_to_long :: "u8 \<Rightarrow> int" where
  "char_to_long c =
     (if 48 \<le> c \<and> c \<le> 57 then uint c - 48
      else if 65 \<le> c \<and> c \<le> 70 then uint c - 65 + 10
      else if 97 \<le> c \<and> c \<le> 102 then uint c - 97 + 10
      else - 1)"

definition long_ok :: "int \<Rightarrow> bool" where
  "long_ok v \<longleftrightarrow> - 9223372036854775808 \<le> v \<and> v < 9223372036854775808"

text \<open>The loop over the digits. It has no bound of its own: it runs until the terminating NUL,
  so the model takes the bytes that are left to read as fuel.\<close>

fun str_to_long_loop :: "region \<Rightarrow> int \<Rightarrow> int \<Rightarrow> nat \<Rightarrow> nat \<Rightarrow> int option" where
  "str_to_long_loop r base val str 0 = None"
| "str_to_long_loop r base val str (Suc fuel) =
     do { c \<leftarrow> r str;
          if c = 0 then Some val
          else (let res = char_to_long c in
            if res = - 1 \<or> res \<ge> base then Some (- 1)
            else if \<not> long_ok (val * base) \<or> \<not> long_ok (val * base + res) then None
            else str_to_long_loop r base (val * base + res) (Suc str) fuel) }"

definition str_to_long :: "nat \<Rightarrow> region \<Rightarrow> nat \<Rightarrow> int option" where
  "str_to_long fuel r str =
     (if str = 0 then Some (- 1)
      else do {
        c0 \<leftarrow> r str;
        if c0 = 0 then Some (- 1)
        else do {
          hex \<leftarrow> (if c0 = 48 then do { c1 \<leftarrow> r (Suc str); Some (c1 = 120 \<or> c1 = 88) } else Some False);
          if hex
          then do { c2 \<leftarrow> r (str + 2);
                    if c2 = 0 then Some (- 1) else str_to_long_loop r 16 0 (str + 2) fuel }
          else str_to_long_loop r 10 0 str fuel } })"

section \<open>Lemmas\<close>

lemma memset_loop_bytes: "memset_loop p c n r = store_bytes r p (replicate n c)"
proof (induction n arbitrary: p r)
  case (Suc n)
  then show ?case by (cases "store8 r p c") simp_all
qed simp

lemma memzero_loop_bytes: "8 dvd n \<Longrightarrow> memzero_loop p n r = store_bytes r p (replicate n 0)"
proof (induction p n r rule: memzero_loop.induct)
  case (1 p n r)
  show ?case
  proof (cases "n = 0")
    case True
    then show ?thesis by (simp add: memzero_loop.simps)
  next
    case False
    with "1.prems" have "8 \<le> n" by (auto dest: dvd_imp_le)
    then have "replicate n (0 :: u8) = replicate 8 0 @ replicate (n - 8) 0"
      by (simp only: replicate_add [symmetric]) simp
    moreover have "8 dvd n - 8" using "1.prems" by simp
    ultimately show ?thesis
      using False 1
      by (cases "store_bytes r p (replicate 8 0)")
         (simp_all only: memzero_loop.simps [of p n] store_bytes_append length_replicate if_False
           Option.bind.simps simp_thms option.inject)
  qed
qed

text \<open>memset writes the low byte of its argument to every byte of the range and to nothing
  else: the word-wise shortcut for zeros is equivalent to the byte loop, and a range that is not
  mapped faults.\<close>

lemma memset_correct:
  "memset s c n r =
     (if mapped r s (s + n) then Some (\<lambda>j. if s \<le> j \<and> j < s + n then Some (ucast c) else r j) else None)"
proof -
  have "memset s c n r = store_bytes r s (replicate n (ucast c))"
    by (simp add: memset_def memzero_def memzero_loop_bytes memset_loop_bytes mod_eq_0_iff_dvd)
  then show ?thesis by (auto simp: store_bytes_closed fun_eq_iff)
qed

section \<open>Parsing numbers\<close>

text \<open>The NUL-terminated string \<open>cs\<close> at an address, and, through the code's own
  conversion of one character, the value of a digit sequence.\<close>

definition c_string :: "region \<Rightarrow> nat \<Rightarrow> u8 list \<Rightarrow> bool" where
  "c_string r p cs \<longleftrightarrow> load_bytes r p (Suc (length cs)) = Some (cs @ [0]) \<and> 0 \<notin> set cs"

definition digits_value :: "int \<Rightarrow> int \<Rightarrow> u8 list \<Rightarrow> int" where
  "digits_value base v cs = foldl (\<lambda>v c. v * base + char_to_long c) v cs"

definition is_digit :: "int \<Rightarrow> u8 \<Rightarrow> bool" where
  "is_digit base c \<longleftrightarrow> 0 \<le> char_to_long c \<and> char_to_long c < base"

lemma c_string_Nil: "c_string r p [] \<longleftrightarrow> r p = Some 0"
  by (auto simp: c_string_def split: bind_splits)

lemma c_string_Cons: "c_string r p (c # cs) \<longleftrightarrow> r p = Some c \<and> c \<noteq> 0 \<and> c_string r (Suc p) cs"
  by (auto simp: c_string_def split: bind_splits)

lemma char_to_long_range: "- 1 \<le> char_to_long c" "char_to_long c < 16"
  by (auto simp: char_to_long_def word_le_def)

lemma digits_value_mono:
  "0 \<le> v \<Longrightarrow> 1 \<le> base \<Longrightarrow> list_all (is_digit base) cs \<Longrightarrow> v \<le> digits_value base v cs"
proof (induction cs arbitrary: v)
  case (Cons c cs)
  let ?v = "v * base + char_to_long c"
  have "v * 1 \<le> v * base" using Cons.prems by (intro mult_left_mono) simp_all
  then have "v \<le> ?v" using Cons.prems by (simp add: is_digit_def)
  with Cons.IH [of ?v] Cons.prems show ?case by (simp add: digits_value_def)
qed (simp add: digits_value_def)

lemma loop_digits:
  assumes "c_string r p cs" "list_all (is_digit base) cs" "0 \<le> v" "1 \<le> base"
    "digits_value base v cs < 9223372036854775808" "length cs < fuel"
  shows "str_to_long_loop r base v p fuel = Some (digits_value base v cs)"
  using assms
proof (induction cs arbitrary: p v fuel)
  case Nil
  then show ?case by (cases fuel) (simp_all add: c_string_Nil digits_value_def)
next
  case (Cons c cs)
  obtain f where f: "fuel = Suc f" using Cons.prems(6) by (cases fuel) simp_all
  let ?v = "v * base + char_to_long c"
  have d: "0 \<le> char_to_long c" "char_to_long c < base" using Cons.prems(2) by (simp_all add: is_digit_def)
  have nn: "0 \<le> v * base" using Cons.prems(3,4) by simp
  have val: "digits_value base v (c # cs) = digits_value base ?v cs" by (simp add: digits_value_def)
  have "?v \<le> digits_value base ?v cs"
    by (rule digits_value_mono) (use nn d Cons.prems(2,4) in simp_all)
  with Cons.prems(5) val nn d have "long_ok (v * base)" "long_ok ?v" by (simp_all add: long_ok_def)
  with Cons.IH [of "Suc p" ?v f] Cons.prems nn d f val show ?case
    by (simp add: c_string_Cons Let_def)
qed

lemma loop_bad_digit:
  assumes "c_string r p (cs @ c # ds)" "list_all (is_digit base) cs" "\<not> is_digit base c" "0 \<le> v" "1 \<le> base"
    "digits_value base v cs < 9223372036854775808" "length cs < fuel"
  shows "str_to_long_loop r base v p fuel = Some (- 1)"
  using assms
proof (induction cs arbitrary: p v fuel)
  case Nil
  then obtain f where f: "fuel = Suc f" by (cases fuel) simp_all
  have "char_to_long c = - 1 \<or> base \<le> char_to_long c"
    using Nil.prems(3) char_to_long_range(1) [of c] by (auto simp: is_digit_def)
  with Nil.prems(1) f show ?case by (auto simp: c_string_Cons Let_def)
next
  case (Cons b cs)
  obtain f where f: "fuel = Suc f" using Cons.prems(7) by (cases fuel) simp_all
  let ?v = "v * base + char_to_long b"
  have d: "0 \<le> char_to_long b" "char_to_long b < base" using Cons.prems(2) by (simp_all add: is_digit_def)
  have nn: "0 \<le> v * base" using Cons.prems(4,5) by simp
  have val: "digits_value base v (b # cs) = digits_value base ?v cs" by (simp add: digits_value_def)
  have "?v \<le> digits_value base ?v cs"
    by (rule digits_value_mono) (use nn d Cons.prems(2,5) in simp_all)
  with Cons.prems(6) val nn d have "long_ok (v * base)" "long_ok ?v" by (simp_all add: long_ok_def)
  with Cons.IH [of "Suc p" ?v f] Cons.prems nn d f val show ?case
    by (simp add: c_string_Cons Let_def)
qed

lemma loop_overflow:
  assumes "c_string r p (cs @ ds)" "list_all (is_digit base) cs" "0 \<le> v" "1 \<le> base" "v < 9223372036854775808"
    "9223372036854775808 \<le> digits_value base v cs"
  shows "str_to_long_loop r base v p fuel = None"
  using assms
proof (induction cs arbitrary: p v fuel)
  case Nil
  then show ?case by (simp add: digits_value_def)
next
  case (Cons c cs)
  let ?v = "v * base + char_to_long c"
  have d: "0 \<le> char_to_long c" "char_to_long c < base" using Cons.prems(2) by (simp_all add: is_digit_def)
  have nn: "0 \<le> v * base" using Cons.prems(3,4) by simp
  have val: "digits_value base v (c # cs) = digits_value base ?v cs" by (simp add: digits_value_def)
  show ?case
  proof (cases fuel)
    case (Suc f)
    show ?thesis
    proof (cases "?v < 9223372036854775808")
      case True
      then show ?thesis using Cons.IH [of "Suc p" ?v f] Cons.prems nn d val Suc by (simp add: c_string_Cons Let_def)
    next
      case False
      then have "\<not> long_ok ?v" by (simp add: long_ok_def)
      then show ?thesis using Cons.prems(1) d Suc by (simp add: c_string_Cons Let_def)
    qed
  qed simp
qed

text \<open>The loop on a string that starts with digits.\<close>

lemma loop_result:
  assumes "c_string r p (cs @ ds)" "list_all (is_digit base) cs" "ds = [] \<or> \<not> is_digit base (hd ds)" "1 \<le> base" "length cs < fuel"
  shows "str_to_long_loop r base 0 p fuel =
    (if 9223372036854775808 \<le> digits_value base 0 cs then None else Some (if ds = [] then digits_value base 0 cs else - 1))"
proof (cases "9223372036854775808 \<le> digits_value base 0 cs")
  case True
  then show ?thesis using loop_overflow [OF assms(1,2) _ assms(4)] by simp
next
  case False
  then show ?thesis using loop_digits [of r p cs base 0 fuel] loop_bad_digit [of r p cs "hd ds" "tl ds" base 0 fuel] assms
    by (cases ds) simp_all
qed

section \<open>Printing numbers\<close>

text \<open>Positional notation: the digits as they are written, in lower or in upper case, and the
  numeral of a number, most significant digit first.\<close>

definition chars :: "string \<Rightarrow> u8 list" where
  "chars t = map of_char t"

definition digit_chars :: "bool \<Rightarrow> u8 list" where
  "digit_chars upper = chars (if upper then ''0123456789ABCDEF'' else ''0123456789abcdef'')"

fun print_number :: "bool \<Rightarrow> nat \<Rightarrow> nat \<Rightarrow> u8 list" where
  "print_number upper base n =
     (if n < base \<or> base < 2 then [digit_chars upper ! n]
      else print_number upper base (n div base) @ [digit_chars upper ! (n mod base)])"

declare print_number.simps [simp del]

lemma digit_chars_code:
  "digit_chars upper = [48, 49, 50, 51, 52, 53, 54, 55, 56, 57]
     @ (if upper then [65, 66, 67, 68, 69, 70] else [97, 98, 99, 100, 101, 102])"
  by (simp add: digit_chars_def chars_def of_char_def)

lemma digit_values: "map char_to_long (digit_chars upper) = map int [0..<16]"
  by (cases upper) (simp_all add: digit_chars_code char_to_long_def upt_conv_Cons)

lemma char_to_long_digit: "i < 16 \<Longrightarrow> char_to_long (digit_chars upper ! i) = int i"
proof -
  assume "i < 16"
  moreover have "length (digit_chars upper) = 16" by (simp add: digit_chars_code)
  ultimately show ?thesis using arg_cong [OF digit_values, of "\<lambda>xs. xs ! i" upper] by simp
qed

lemma print_number_digits:
  assumes "2 \<le> base" "base \<le> 16"
  shows "list_all (is_digit (int base)) (print_number upper base n)
    \<and> digits_value (int base) 0 (print_number upper base n) = int n \<and> print_number upper base n \<noteq> []"
  using assms
proof (induction upper base n rule: print_number.induct)
  case (1 upper base n)
  show ?case
  proof (cases "n < base")
    case True
    then show ?thesis using "1.prems"
      by (simp add: print_number.simps [of upper base n] is_digit_def digits_value_def char_to_long_digit)
  next
    case False
    have "n mod base < base" using "1.prems" by simp
    then have "char_to_long (digit_chars upper ! (n mod base)) = int (n mod base)"
      using "1.prems"(2) by (intro char_to_long_digit) linarith
    moreover have "int n = int (n div base) * int base + int (n mod base)" by (simp add: mult.commute flip: of_nat_mult of_nat_add)
    ultimately show ?thesis using False 1 \<open>n mod base < base\<close>
      by (simp add: print_number.simps [of upper base n] is_digit_def digits_value_def)
  qed
qed

lemma byte_between: "a \<le> uint c \<Longrightarrow> uint c \<le> b \<Longrightarrow> c \<in> set (map word_of_int [a..b])" for c :: u8
  by (auto intro: image_eqI [where x = "uint c"])

lemma digit_char: "0 \<le> char_to_long c \<Longrightarrow> \<exists>upper. c = digit_chars upper ! nat (char_to_long c)"
proof -
  assume "0 \<le> char_to_long c"
  then consider "48 \<le> uint c" "uint c \<le> 57" | "65 \<le> uint c" "uint c \<le> 70" | "97 \<le> uint c" "uint c \<le> 102"
    by (auto simp: char_to_long_def word_le_def split: if_splits)
  then have "c \<in> set (map word_of_int ([48..57] @ [65..70] @ [97..102]))"
    by cases (auto dest: byte_between)
  moreover have "list_all (\<lambda>c. c \<in> {digit_chars True ! nat (char_to_long c), digit_chars False ! nat (char_to_long c)})
      (map word_of_int ([48..57] @ [65..70] @ [97..102]))"
    by code_simp
  ultimately have "c \<in> {digit_chars True ! nat (char_to_long c), digit_chars False ! nat (char_to_long c)}"
    unfolding list_all_iff by blast
  then show ?thesis by blast
qed

lemma is_digit_chars:
  assumes "base \<le> 16"
  shows "is_digit (int base) c \<longleftrightarrow> c \<in> set (take base (digit_chars False)) \<union> set (take base (digit_chars True))"
proof
  assume d: "is_digit (int base) c"
  then have nn: "0 \<le> char_to_long c" "nat (char_to_long c) < base" by (auto simp: is_digit_def)
  obtain upper where "c = digit_chars upper ! nat (char_to_long c)" using digit_char nn(1) by blast
  moreover have "nat (char_to_long c) < length (take base (digit_chars upper))" using nn assms by (simp add: digit_chars_code)
  ultimately have "c \<in> set (take base (digit_chars upper))" using nn by (metis nth_mem nth_take)
  then show "c \<in> set (take base (digit_chars False)) \<union> set (take base (digit_chars True))" by (cases upper) auto
next
  assume "c \<in> set (take base (digit_chars False)) \<union> set (take base (digit_chars True))"
  then obtain upper i where "i < base" "c = digit_chars upper ! i"
    using assms by (auto simp: in_set_conv_nth)
  then show "is_digit (int base) c" using assms by (simp add: is_digit_def char_to_long_digit)
qed

lemma digit_zero: "1 \<le> base \<Longrightarrow> is_digit base 48"
  by (simp add: is_digit_def char_to_long_def)

lemma leading_zeros: "digits_value base 0 (replicate k 48 @ cs) = digits_value base 0 cs"
  by (induction k) (simp_all add: digits_value_def char_to_long_def)

text \<open>A text selects base 16 by its first two characters only.\<close>

lemma decimal_start:
  assumes "c_string r p (cs @ ds)" "cs \<noteq> []" "list_all (is_digit 10) cs" "cs = [48] \<Longrightarrow> ds = [] \<or> hd ds \<notin> {120, 88}" "p \<noteq> 0"
  shows "str_to_long fuel r p = str_to_long_loop r 10 0 p fuel"
proof -
  obtain c cs' where cs: "cs = c # cs'" using assms(2) by (cases cs) simp_all
  have r: "r p = Some c" "c \<noteq> 0" "c_string r (Suc p) (cs' @ ds)"
    using assms(1) cs by (simp_all add: c_string_Cons)
  have "\<exists>c1. r (Suc p) = Some c1 \<and> c1 \<noteq> 120 \<and> c1 \<noteq> 88" if "c = 48"
  proof (cases "cs' @ ds")
    case Nil
    then show ?thesis using r(3) by (simp add: c_string_Nil)
  next
    case (Cons e es)
    then have "r (Suc p) = Some e" using r(3) by (simp add: c_string_Cons)
    moreover have "e \<noteq> 120 \<and> e \<noteq> 88"
      using Cons assms(3,4) cs that by (cases cs') (auto simp: is_digit_def char_to_long_def)
    ultimately show ?thesis by simp
  qed
  then show ?thesis using assms(5) r by (auto simp: str_to_long_def)
qed

lemma hex_start:
  assumes "c_string r p (48 # x # cs)" "x \<in> {120, 88}" "cs \<noteq> []" "p \<noteq> 0"
  shows "str_to_long fuel r p = str_to_long_loop r 16 0 (p + 2) fuel" "c_string r (p + 2) cs"
  using assms by (cases cs; auto simp: str_to_long_def c_string_Cons)+

definition base_prefix :: "nat \<Rightarrow> u8 list \<Rightarrow> bool" where
  "base_prefix base pre \<longleftrightarrow> base = 10 \<and> pre = [] \<or> base = 16 \<and> pre \<in> {chars ''0x'', chars ''0X''}"

text \<open>C39. Reading a number back: the text that consists of a number printed in decimal, or of 0x
  or 0X and the number printed in base 16 (in lower or in upper case), with any number of leading
  zeros, is read as that number when it fits a long. When the numeral is followed by a character
  that is no digit of the base, the result is -1 (a decimal zero followed by x or X apart, which
  selects base 16). A number from 2 ^ 63 on overflows the signed accumulator, which C leaves
  undefined.\<close>

theorem str_to_long_reads_printed:
  assumes "p \<noteq> 0" and "base_prefix base pre"
    and "c_string r p (pre @ replicate k (of_char CHR ''0'') @ print_number upper base n @ ds)"
    and "ds = [] \<or> hd ds \<notin> set (take base (digit_chars False)) \<union> set (take base (digit_chars True))"
    and "base = 10 \<and> k = 0 \<and> n = 0 \<and> ds \<noteq> [] \<longrightarrow> hd ds \<notin> set (chars ''xX'')"
    and "k + length (print_number upper base n) < fuel"
  shows "str_to_long fuel r p = (if 2 ^ 63 \<le> n then None else Some (if ds = [] then int n else - 1))"
proof -
  have b: "2 \<le> base" "base \<le> 16" using assms(2) by (auto simp: base_prefix_def)
  let ?cs = "replicate k 48 @ print_number upper base n"
  note pn = print_number_digits [OF b, of upper n]
  have dig: "list_all (is_digit (int base)) ?cs"
    using pn b digit_zero [of "int base"] by (auto simp: list_all_iff)
  have val: "digits_value (int base) 0 ?cs = int n" using pn by (simp add: leading_zeros)
  have bad: "ds = [] \<or> \<not> is_digit (int base) (hd ds)" using assms(4) by (simp only: is_digit_chars [OF b(2)])
  have str: "c_string r p (pre @ ?cs @ ds)" using assms(3) by (simp add: of_char_def)
  have loop: "str_to_long_loop r (int base) 0 q fuel = (if 2 ^ 63 \<le> n then None else Some (if ds = [] then int n else - 1))"
    if "c_string r q (?cs @ ds)" for q
    using loop_result [OF that dig bad, of fuel] b assms(6) by (simp add: val)
  show ?thesis
  proof (cases "base = 10")
    case True
    then have pre: "pre = []" using assms(2) by (simp add: base_prefix_def)
    have "k = 0 \<and> n = 0" if "?cs = [48]"
    proof -
      have "n = 0" using val that by (simp add: digits_value_def char_to_long_def)
      with that show ?thesis using pn by (cases k) simp_all
    qed
    then have "?cs = [48] \<Longrightarrow> ds = [] \<or> hd ds \<notin> {120, 88}" using assms(5) True by (auto simp: chars_def of_char_def)
    then show ?thesis
      using decimal_start [of r p ?cs ds fuel] loop [of p] str pn dig True pre assms(1) by simp
  next
    case False
    then obtain x where pre: "pre = [48, x]" "x \<in> {120, 88}" and 16: "base = 16"
      using assms(2) by (auto simp: base_prefix_def chars_def of_char_def)
    have "?cs @ ds \<noteq> []" using pn by simp
    from hex_start [OF _ pre(2) this assms(1)] str pre(1) loop [of "p + 2"] 16 show ?thesis by simp
  qed
qed

text \<open>The text 0x1Fg.\<close>

definition example_text :: region where
  "example_text = (\<lambda>i. if 64 \<le> i \<and> i < 70 then Some ((chars ''0x1Fg'' @ [0]) ! (i - 64)) else None)"

theorem str_to_long_reads_printed_witness:
  "print_number True 16 31 = chars ''1F'' \<and> str_to_long 5 example_text 64 = Some (- 1)
   \<and> str_to_long 5 (example_text(68 \<mapsto> 0)) 64 = Some 31"
proof -
  have pr: "print_number True 16 31 = chars ''1F''"
    by (simp add: print_number.simps digit_chars_def chars_def)
  have "str_to_long 5 example_text 64 = (if 2 ^ 63 \<le> (31 :: nat) then None else Some (if chars ''g'' = [] then int 31 else - 1))"
    by (rule str_to_long_reads_printed [where base = 16 and pre = "chars ''0x''" and k = 0 and upper = True])
       (simp_all add: pr base_prefix_def c_string_Cons c_string_Nil example_text_def chars_def of_char_def digit_chars_code)
  moreover have "str_to_long 5 (example_text(68 \<mapsto> 0)) 64
      = (if 2 ^ 63 \<le> (31 :: nat) then None else Some (if ([] :: u8 list) = [] then int 31 else - 1))"
    by (rule str_to_long_reads_printed [where base = 16 and pre = "chars ''0x''" and k = 0 and upper = True])
       (simp_all add: pr base_prefix_def c_string_Cons c_string_Nil example_text_def chars_def of_char_def)
  ultimately show ?thesis using pr by (simp add: chars_def)
qed

section \<open>Copying and comparing\<close>

lemma memcpy_disjoint:
  assumes "mapped r q (q + n)" and "mapped r p (p + n)" and "p + n \<le> q \<or> q + n \<le> p"
  shows "memcpy p q n r = Some (\<lambda>j. if p \<le> j \<and> j < p + n then r (q + (j - p)) else r j)"
  using assms
proof (induction n arbitrary: p q r)
  case 0
  then show ?case by (auto simp: fun_eq_iff)
next
  case (Suc n)
  obtain b where b: "r q = Some b" using Suc.prems(1) by (auto simp: mapped_def)
  obtain c where c: "r p = Some c" using Suc.prems(2) by (auto simp: mapped_def)
  let ?r = "r(p \<mapsto> b)"
  have "memcpy (Suc p) (Suc q) n ?r
      = Some (\<lambda>j. if Suc p \<le> j \<and> j < Suc p + n then ?r (Suc q + (j - Suc p)) else ?r j)"
    by (rule Suc.IH) (use Suc.prems in \<open>auto simp: mapped_def\<close>)
  also have "\<dots> = Some (\<lambda>j. if p \<le> j \<and> j < p + Suc n then r (q + (j - p)) else r j)"
    using Suc.prems(3) b by (auto simp: fun_eq_iff Suc_diff_Suc not_le less_Suc_eq)
  finally show ?case by (simp add: b c store8_def)
qed

lemma byte_eq: "(ucast (a :: u8) :: c_int) = ucast b \<longleftrightarrow> a = b"
  by (auto dest: ucast_u8_u32_inject)

lemma byte_zero: "(ucast (a :: u8) :: c_int) = 0 \<longleftrightarrow> a = 0"
  using byte_eq [of a 0] by simp

text \<open>strncmp returns 0 exactly if the two strings agree in their first n characters, where
  a string that is shorter ends at its NUL.\<close>

lemma strncmp_equal:
  assumes "c_string r p xs" and "c_string r q ys"
  shows "strncmp r p q n = Some 0 \<longleftrightarrow> take (unat (scast n :: u64)) xs = take (unat (scast n :: u64)) ys"
proof -
  have "strncmp_loop r p q k = Some 0 \<longleftrightarrow> take k xs = take k ys" for k
    using assms
  proof (induction k arbitrary: p q xs ys)
    case (Suc k)
    then show ?case
      by (cases xs; cases ys) (auto simp: c_string_Nil c_string_Cons Let_def byte_eq byte_zero)
  qed simp
  then show ?thesis by (simp add: strncmp_def)
qed

end
