(* ===== verification/K_Dll.thy ===== *)
theory K_Dll
  imports HK_Prelude
begin

text \<open>
  Doubly linked lists in a typed heap. The kernel links the same object through several pairs of
  fields (ready queues, endpoint and notification queues, the capability derivation list); the
  locale \<open>links\<close> states what a pair of link fields provides, and every lemma about lists is
  proved once in it. A heap is a partial map from addresses to objects, address 0 is NULL.
\<close>

type_synonym ptr = u64

definition heap_upd :: "(ptr \<rightharpoonup> 'o) \<Rightarrow> ptr \<Rightarrow> ('o \<Rightarrow> 'o) \<Rightarrow> (ptr \<rightharpoonup> 'o) option" where
  "heap_upd h p f = (case h p of None \<Rightarrow> None | Some t \<Rightarrow> Some (h(p \<mapsto> f t)))"

text \<open>The first and the last element, NULL for the empty list.\<close>

definition hd0 :: "ptr list \<Rightarrow> ptr" where
  "hd0 xs = (case xs of [] \<Rightarrow> 0 | x # _ \<Rightarrow> x)"

definition last0 :: "ptr list \<Rightarrow> ptr" where
  "last0 xs = (if xs = [] then 0 else last xs)"

text \<open>A list segment: \<open>p\<close> is the predecessor of its first and \<open>q\<close> the successor of its last
  element.\<close>

fun dseg :: "('o \<Rightarrow> ptr) \<Rightarrow> ('o \<Rightarrow> ptr) \<Rightarrow> (ptr \<rightharpoonup> 'o) \<Rightarrow> ptr \<Rightarrow> ptr list \<Rightarrow> ptr \<Rightarrow> bool" where
  "dseg nxt prv h p [] q = True"
| "dseg nxt prv h p (x # xs) q =
     ((case h x of None \<Rightarrow> False | Some t \<Rightarrow> prv t = p \<and> nxt t = (case xs of [] \<Rightarrow> q | y # _ \<Rightarrow> y))
      \<and> dseg nxt prv h x xs q)"

definition dll :: "('o \<Rightarrow> ptr) \<Rightarrow> ('o \<Rightarrow> ptr) \<Rightarrow> (ptr \<rightharpoonup> 'o) \<Rightarrow> ptr list \<Rightarrow> bool" where
  "dll nxt prv h xs \<longleftrightarrow> distinct xs \<and> 0 \<notin> set xs \<and> dseg nxt prv h 0 xs 0"

lemma hd0_simps [simp]: "hd0 [] = 0" "hd0 (x # xs) = x"
  by (simp_all add: hd0_def)

lemma last0_simps [simp]: "last0 [] = 0" "last0 (xs @ [x]) = x" "last0 [x] = x"
  by (simp_all add: last0_def)

lemma last0_Cons [simp]: "last0 (x # y # ys) = last0 (y # ys)"
  by (simp add: last0_def)

lemma hd0_append: "hd0 (xs @ ys) = (if xs = [] then hd0 ys else hd0 xs)"
  by (cases xs) simp_all

lemma last0_append: "last0 (xs @ ys) = (if ys = [] then last0 xs else last0 ys)"
  by (simp add: last0_def)

lemma hd0_eq_0: "0 \<notin> set xs \<Longrightarrow> hd0 xs = 0 \<longleftrightarrow> xs = []"
  by (cases xs) auto

lemma last0_eq_0: "0 \<notin> set xs \<Longrightarrow> last0 xs = 0 \<longleftrightarrow> xs = []"
  by (cases xs rule: rev_cases) auto

lemma hd0_in: "xs \<noteq> [] \<Longrightarrow> hd0 xs \<in> set xs"
  by (cases xs) auto

lemma last0_in: "xs \<noteq> [] \<Longrightarrow> last0 xs \<in> set xs"
  by (simp add: last0_def)

lemma dseg_append:
  "dseg nxt prv h p (xs @ ys) q \<longleftrightarrow>
     dseg nxt prv h p xs (if ys = [] then q else hd0 ys) \<and> dseg nxt prv h (if xs = [] then p else last0 xs) ys q"
proof (induction xs arbitrary: p)
  case (Cons x xs)
  then show ?case
    by (cases xs; cases ys) (auto simp: last0_def split: option.splits)
qed simp

text \<open>A list depends only on the links of its elements.\<close>

lemma dseg_cong:
  assumes "\<And>x. x \<in> set xs \<Longrightarrow>
    map_option (\<lambda>t. (nxt t, prv t)) (h x) = map_option (\<lambda>t. (nxt t, prv t)) (h' x)"
  shows "dseg nxt prv h p xs q \<longleftrightarrow> dseg nxt prv h' p xs q"
  using assms
proof (induction xs arbitrary: p)
  case (Cons x xs)
  have "map_option (\<lambda>t. (nxt t, prv t)) (h x) = map_option (\<lambda>t. (nxt t, prv t)) (h' x)"
    by (rule Cons.prems) simp
  moreover have "dseg nxt prv h x xs q \<longleftrightarrow> dseg nxt prv h' x xs q"
    by (rule Cons.IH) (rule Cons.prems, simp)
  ultimately show ?case by (cases "h x"; cases "h' x") auto
qed simp

lemma dll_cong:
  assumes "\<And>x. x \<in> set xs \<Longrightarrow>
    map_option (\<lambda>t. (nxt t, prv t)) (h x) = map_option (\<lambda>t. (nxt t, prv t)) (h' x)"
  shows "dll nxt prv h xs \<longleftrightarrow> dll nxt prv h' xs"
  using dseg_cong [OF assms] by (simp add: dll_def)

lemma dseg_other: "x \<notin> set xs \<Longrightarrow> dseg nxt prv (h(x \<mapsto> t)) p xs q \<longleftrightarrow> dseg nxt prv h p xs q"
  by (rule dseg_cong) auto

lemma dll_other: "x \<notin> set xs \<Longrightarrow> dll nxt prv (h(x \<mapsto> t)) xs \<longleftrightarrow> dll nxt prv h xs"
  by (simp add: dll_def dseg_other)

lemma dll_Nil [simp]: "dll nxt prv h []"
  by (simp add: dll_def)

lemma dll_split:
  "dll nxt prv h (us @ x # vs) \<longleftrightarrow> distinct (us @ x # vs) \<and> 0 \<notin> set (us @ x # vs)
     \<and> dseg nxt prv h 0 us x \<and> dseg nxt prv h x vs 0
     \<and> (\<exists>t. h x = Some t \<and> prv t = last0 us \<and> nxt t = hd0 vs)"
  by (cases vs) (auto simp: dll_def dseg_append last0_def split: option.splits)

lemma dll_elem:
  assumes "dll nxt prv h xs" and "x \<in> set xs"
  obtains us vs t where "xs = us @ x # vs" "h x = Some t" "prv t = last0 us" "nxt t = hd0 vs"
  using assms by (metis dll_split split_list)

lemma dll_dom: "dll nxt prv h xs \<Longrightarrow> x \<in> set xs \<Longrightarrow> \<exists>t. h x = Some t"
  by (erule (1) dll_elem) simp

text \<open>Updating an object unless the pointer is NULL.\<close>

definition link_upd :: "('o \<Rightarrow> 'o) \<Rightarrow> (ptr \<rightharpoonup> 'o) \<Rightarrow> ptr \<Rightarrow> (ptr \<rightharpoonup> 'o)" where
  "link_upd f h p = (if p = 0 then h else case h p of None \<Rightarrow> h | Some t \<Rightarrow> h(p \<mapsto> f t))"

lemma link_upd_NULL [simp]: "link_upd f h 0 = h"
  by (simp add: link_upd_def)

lemma heap_upd_link: "h p = Some t \<Longrightarrow> p \<noteq> 0 \<Longrightarrow> heap_upd h p f = Some (link_upd f h p)"
  by (simp add: heap_upd_def link_upd_def)

lemma link_upd_same: "h p = Some t \<Longrightarrow> p \<noteq> 0 \<Longrightarrow> link_upd f h p p = Some (f t)"
  by (simp add: link_upd_def)

lemma link_upd_other [simp]: "p \<noteq> x \<Longrightarrow> link_upd f h p x = h x"
  by (auto simp: link_upd_def split: option.splits)

lemma link_upd_dom [simp]: "dom (link_upd f h p) = dom h"
  by (auto simp: link_upd_def split: option.splits)

lemma link_seg_other:
  "p = 0 \<or> p \<notin> set xs \<Longrightarrow> dseg nxt prv (link_upd f h p) a xs b \<longleftrightarrow> dseg nxt prv h a xs b"
  by (auto simp: link_upd_def dseg_other split: option.splits)

lemma link_dll_other:
  "p = 0 \<or> p \<notin> set xs \<Longrightarrow> dll nxt prv (link_upd f h p) xs \<longleftrightarrow> dll nxt prv h xs"
  by (simp add: dll_def link_seg_other)

section \<open>Link fields\<close>

locale links =
  fixes nxt prv :: "'o \<Rightarrow> ptr" and set_nxt set_prv :: "ptr \<Rightarrow> 'o \<Rightarrow> 'o"
  assumes nxt_set_nxt [simp]: "nxt (set_nxt v t) = v" and prv_set_nxt [simp]: "prv (set_nxt v t) = prv t"
    and prv_set_prv [simp]: "prv (set_prv v t) = v" and nxt_set_prv [simp]: "nxt (set_prv v t) = nxt t"
begin

text \<open>Redirecting the end of a segment: the successor of the last, the predecessor of the first.\<close>

lemma dseg_set_last:
  assumes "dseg nxt prv h p (xs @ [x]) q" and "x \<notin> set xs" and "h x = Some t"
  shows "dseg nxt prv (h(x \<mapsto> set_nxt v t)) p (xs @ [x]) v"
  using assms by (simp add: dseg_append dseg_other)

lemma dseg_set_first:
  assumes "dseg nxt prv h p (x # xs) q" and "x \<notin> set xs" and "h x = Some t"
  shows "dseg nxt prv (h(x \<mapsto> set_prv v t)) v (x # xs) q"
  using assms by (simp add: dseg_other)

lemma link_next_seg:
  assumes "dseg nxt prv h p us q" and "distinct us" and "0 \<notin> set us"
  shows "dseg nxt prv (link_upd (set_nxt v) h (last0 us)) p us v"
proof (cases us rule: rev_cases)
  case (snoc ws w)
  with assms obtain t where "h w = Some t" by (auto simp: dseg_append split: option.splits)
  with snoc assms dseg_set_last [of h p ws w q t v] show ?thesis by (auto simp: link_upd_def)
qed simp

lemma link_prev_seg:
  assumes "dseg nxt prv h p us q" and "distinct us" and "0 \<notin> set us"
  shows "dseg nxt prv (link_upd (set_prv v) h (hd0 us)) v us q"
proof (cases us)
  case (Cons w ws)
  with assms obtain t where "h w = Some t" by (auto split: option.splits)
  with Cons assms dseg_set_first [of h p w ws q t v] show ?thesis by (auto simp: link_upd_def)
qed simp

text \<open>The two neighbours of a position are linked to each other.\<close>

lemma dll_join:
  assumes "dseg nxt prv h 0 us q" and "dseg nxt prv h p vs 0" and "distinct (us @ vs)" and "0 \<notin> set (us @ vs)"
  shows "dll nxt prv (link_upd (set_prv (last0 us)) (link_upd (set_nxt (hd0 vs)) h (last0 us)) (hd0 vs)) (us @ vs)"
proof -
  let ?h1 = "link_upd (set_nxt (hd0 vs)) h (last0 us)" and ?h2 = "link_upd (set_prv (last0 us)) (link_upd (set_nxt (hd0 vs)) h (last0 us)) (hd0 vs)"
  have "dseg nxt prv ?h1 0 us (hd0 vs)" using assms by (intro link_next_seg) auto
  moreover have "hd0 vs = 0 \<or> hd0 vs \<notin> set us" using assms(3) by (cases vs) auto
  ultimately have 1: "dseg nxt prv ?h2 0 us (hd0 vs)" by (simp add: link_seg_other)
  have "last0 us = 0 \<or> last0 us \<notin> set vs" using assms(3) by (cases us rule: rev_cases) auto
  then have "dseg nxt prv ?h1 p vs 0" using assms(2) by (simp add: link_seg_other)
  then have 2: "dseg nxt prv ?h2 (last0 us) vs 0" using assms by (intro link_prev_seg) auto
  from 1 2 assms(3,4) show ?thesis
    by (cases "us = []"; cases "vs = []") (auto simp: dll_def dseg_append)
qed

lemma dll_unlink:
  assumes "dll nxt prv h (us @ x # vs)"
  shows "dll nxt prv (link_upd (set_prv (last0 us)) (link_upd (set_nxt (hd0 vs)) h (last0 us)) (hd0 vs)) (us @ vs)"
  using assms by (intro dll_join [where q = x and p = x]) (auto simp: dll_split)

text \<open>Linking an element whose own links are already set between two segments.\<close>

lemma dll_link:
  assumes seg: "dseg nxt prv h 0 us q" "dseg nxt prv h p vs 0" and d: "distinct (us @ vs)" "0 \<notin> set (us @ vs)"
    and "x \<notin> set (us @ vs)" and "x \<noteq> 0" and x: "h x = Some t" "nxt t = hd0 vs" "prv t = last0 us"
  shows "dll nxt prv (link_upd (set_prv x) (link_upd (set_nxt x) h (last0 us)) (hd0 vs)) (us @ x # vs)"
proof -
  let ?h1 = "link_upd (set_nxt x) h (last0 us)"
  let ?h2 = "link_upd (set_prv x) ?h1 (hd0 vs)"
  have hv: "hd0 vs = 0 \<or> hd0 vs \<notin> set us" using d(1) by (cases vs) auto
  have lu: "last0 us = 0 \<or> last0 us \<notin> set vs" using d(1) by (cases us rule: rev_cases) auto
  have "dseg nxt prv ?h1 0 us x" using seg(1) d by (intro link_next_seg) auto
  then have 1: "dseg nxt prv ?h2 0 us x" using hv by (simp add: link_seg_other)
  have "dseg nxt prv ?h1 p vs 0" using seg(2) lu by (simp add: link_seg_other)
  then have 2: "dseg nxt prv ?h2 x vs 0" using d by (intro link_prev_seg) auto
  have "last0 us \<noteq> x" using assms(5,6) last0_in [of us] by (cases "us = []") auto
  moreover have "hd0 vs \<noteq> x" using assms(5,6) hd0_in [of vs] by (cases "vs = []") auto
  ultimately have 3: "?h2 x = Some t" using x(1) by simp
  from 1 2 3 x d assms(5,6) show ?thesis by (auto simp: dll_split)
qed

lemma dll_insert:
  assumes "dll nxt prv h (us @ vs)" and "x \<notin> set (us @ vs)" and "x \<noteq> 0"
    and "h x = Some t" "nxt t = hd0 vs" "prv t = last0 us"
  shows "dll nxt prv (link_upd (set_prv x) (link_upd (set_nxt x) h (last0 us)) (hd0 vs)) (us @ x # vs)"
proof -
  obtain q p where "dseg nxt prv h 0 us q" "dseg nxt prv h p vs 0"
    using assms(1) unfolding dll_def dseg_append by blast
  then show ?thesis using assms by (intro dll_link) (auto simp: dll_def)
qed

text \<open>Putting an element with the same links in the place of another.\<close>

lemma dll_replace:
  assumes "dll nxt prv h (us @ y # vs)" and "x \<notin> set (us @ vs)" and "x \<noteq> 0"
    and "h x = Some t" "nxt t = hd0 vs" "prv t = last0 us"
  shows "dll nxt prv (link_upd (set_prv x) (link_upd (set_nxt x) h (last0 us)) (hd0 vs)) (us @ x # vs)"
  using assms by (intro dll_link) (auto simp: dll_split)

end

text \<open>Renaming the addresses of a list.\<close>

lemma dseg_rename:
  assumes "\<And>x t. x \<in> set xs \<Longrightarrow> h x = Some t \<Longrightarrow>
      \<exists>t'. h' (r x) = Some t' \<and> nxt t' = r (nxt t) \<and> prv t' = r (prv t)"
  shows "dseg nxt prv h p xs q \<Longrightarrow> dseg nxt prv h' (r p) (map r xs) (r q)"
  using assms
proof (induction xs arbitrary: p)
  case (Cons x xs)
  from Cons.prems(1) obtain t where t: "h x = Some t" by (auto split: option.splits)
  obtain t' where t': "h' (r x) = Some t'" "nxt t' = r (nxt t)" "prv t' = r (prv t)"
    using Cons.prems(2) [OF _ t] by auto
  have "dseg nxt prv h' (r x) (map r xs) (r q)"
    using Cons.prems t by (intro Cons.IH) auto
  then show ?case using Cons.prems(1) t t' by (cases xs) auto
qed simp

lemma dll_rename:
  assumes "dll nxt prv h xs" "inj r" "r 0 = 0"
    and "\<And>x t. x \<in> set xs \<Longrightarrow> h x = Some t \<Longrightarrow> \<exists>t'. h' (r x) = Some t' \<and> nxt t' = r (nxt t) \<and> prv t' = r (prv t)"
  shows "dll nxt prv h' (map r xs)"
proof -
  have "dseg nxt prv h' (r 0) (map r xs) (r 0)"
    by (rule dseg_rename [of xs h h' r nxt prv]) (use assms(1,4) in \<open>auto simp: dll_def\<close>)
  moreover have "distinct (map r xs)"
    using assms(1,2) by (simp add: dll_def distinct_map inj_on_subset [OF assms(2)])
  moreover have "0 \<notin> r ` set xs"
    using assms(1) inj_eq [OF assms(2), of _ 0] assms(3) by (auto simp: dll_def)
  ultimately show ?thesis using assms(3) by (simp add: dll_def)
qed

end
