(* ===== verification/K_State.thy ===== *)
theory K_State
  imports K_Dll
begin

text \<open>
  The kernel objects and the kernel state (src/kernel/include/object/structures.h, the bitfield
  specifications structures_64.bf and include/model/statedata.h), for the configuration of the
  system: x86_64, no MCS scheduling contexts, one processor, one domain, 256 priorities, no VT-x
  and no IOMMU. The accessors of the bitfield generator are the fields of records and the
  arguments of constructors; pointers are addresses and each kind of object has its own heap.

  Every operation of the kernel that dereferences a pointer, asserts or calls fail returns an
  option: \<open>None\<close> is a NULL or dangling access or a failed assertion.
\<close>

section \<open>Capabilities\<close>

datatype arch_cap =
    FrameCap (capFMappedASID: u64) (capFBasePtr: u64) (capFSize: nat) (capFMapType: nat)
             (capFMappedAddress: u64) (capFVMRights: nat) (capFIsDevice: bool)
  | PageTableCap (capPTMappedASID: u64) (capPTBasePtr: u64) (capPTIsMapped: bool) (capPTMappedAddress: u64)
  | PageDirectoryCap (capPDMappedASID: u64) (capPDBasePtr: u64) (capPDIsMapped: bool) (capPDMappedAddress: u64)
  | PDPTCap (capPDPTMappedASID: u64) (capPDPTBasePtr: u64) (capPDPTIsMapped: bool) (capPDPTMappedAddress: u64)
  | PML4Cap (capPML4MappedASID: u64) (capPML4BasePtr: u64) (capPML4IsMapped: bool)
  | ASIDControlCap
  | ASIDPoolCap (capASIDBase: u64) (capASIDPool: u64)
  | IOPortControlCap
  | IOPortCap (capIOPortFirstPort: u16) (capIOPortLastPort: u16)

datatype cap =
    NullCap
  | UntypedCap (capFreeIndex: u64) (capIsDevice: bool) (capBlockSize: u64) (capPtr: u64)
  | EndpointCap (capEPBadge: u64) (capCanGrantReply: bool) (capCanGrant: bool) (capCanSend: bool)
                (capCanReceive: bool) (capEPPtr: ptr)
  | NotificationCap (capNtfnBadge: u64) (capNtfnCanReceive: bool) (capNtfnCanSend: bool) (capNtfnPtr: ptr)
  | ReplyCap (capReplyCanGrant: bool) (capReplyMaster: bool) (capReplyTCBPtr: ptr)
  | CNodeCap (capCNodeRadix: u64) (capCNodeGuardSize: u64) (capCNodeGuard: u64) (capCNodePtr: ptr)
  | ThreadCap (capTCBPtr: ptr)
  | IRQControlCap
  | IRQHandlerCap (capIRQ: u64)
  | ZombieCap (capZombieID: u64) (capZombieType: u64)
  | DomainCap
  | ArchObjectCap arch_cap

record mdb_node =
  mdbNext :: ptr
  mdbRevocable :: bool
  mdbFirstBadged :: bool
  mdbPrev :: ptr

definition nullMDBNode :: mdb_node where
  "nullMDBNode = \<lparr>mdbNext = 0, mdbRevocable = False, mdbFirstBadged = False, mdbPrev = 0\<rparr>"

record cte =
  cteCap :: cap
  cteMDBNode :: mdb_node

section \<open>Threads\<close>

datatype tstype =
    ThreadState_Inactive | ThreadState_Running | ThreadState_Restart
  | ThreadState_BlockedOnReceive | ThreadState_BlockedOnSend | ThreadState_BlockedOnReply
  | ThreadState_BlockedOnNotification | ThreadState_IdleThreadState

record thread_state =
  tsType :: tstype
  blockingObject :: ptr
  blockingIPCBadge :: u64
  blockingIPCCanGrant :: bool
  blockingIPCCanGrantReply :: bool
  blockingIPCIsCall :: bool
  tcbQueued :: bool

datatype register =
    RDI | RSI | RAX | RBX | RBP | R12 | R13 | R14 | RDX | R10 | R8 | R9 | R15 | FLAGS | NextIP
  | Error | RSP | FaultIP | R11 | RCX | CS | SS | FS_BASE | GS_BASE

abbreviation badgeRegister :: register where "badgeRegister \<equiv> RDI"
abbreviation capRegister :: register where "capRegister \<equiv> RDI"
abbreviation msgInfoRegister :: register where "msgInfoRegister \<equiv> RSI"

definition msgRegisters :: "register list" where
  "msgRegisters = [R10, R8, R9, R15]"

datatype lookup_fault =
    LUF_InvalidRoot
  | LUF_MissingCapability u64
  | LUF_DepthMismatch u64 u64
  | LUF_GuardMismatch u64 u64 u64

datatype fault =
    Fault_NullFault
  | Fault_CapFault u64 bool
  | Fault_UnknownSyscall u64
  | Fault_UserException u64 u64
  | Fault_VMFault u64 u64 bool

record tcb =
  tcbContext :: "register \<Rightarrow> u64"
  tcbState :: thread_state
  tcbFlags :: u64
  tcbBoundNotification :: ptr
  tcbFault :: fault
  tcbLookupFailure :: lookup_fault
  tcbDomain :: u64
  tcbMCP :: u64
  tcbPriority :: u64
  tcbTimeSlice :: u64
  tcbFaultHandler :: u64
  tcbIPCBuffer :: u64
  tcbSchedNext :: ptr
  tcbSchedPrev :: ptr
  tcbEPNext :: ptr
  tcbEPPrev :: ptr
  tcbDebugNext :: ptr
  tcbDebugPrev :: ptr

record tcb_queue =
  q_head :: ptr
  q_end :: ptr

section \<open>Endpoints and notifications\<close>

datatype epstate = EPState_Idle | EPState_Send | EPState_Recv

record endpoint =
  epQueue_head :: ptr
  epQueue_tail :: ptr
  ep_state :: epstate

datatype ntfnstate = NtfnState_Idle | NtfnState_Waiting | NtfnState_Active

record notification =
  ntfnBoundTCB :: ptr
  ntfnMsgIdentifier :: u64
  ntfnQueue_head :: ptr
  ntfnQueue_tail :: ptr
  ntfn_state :: ntfnstate

section \<open>Errors\<close>

datatype syscall_error =
    NoError
  | InvalidArgument u64
  | InvalidCapability u64
  | IllegalOperation
  | RangeError u64 u64
  | AlignmentError
  | FailedLookup bool
  | TruncatedMessage
  | DeleteFirst
  | RevokeFirst
  | NotEnoughMemory u64

datatype exception = EXCEPTION_NONE | EXCEPTION_FAULT | EXCEPTION_LOOKUP_FAULT
  | EXCEPTION_SYSCALL_ERROR | EXCEPTION_PREEMPTED

section \<open>The kernel state\<close>

datatype sched_action = ResumeCurrentThread | ChooseNewThread | SwitchToThread ptr

datatype x86_irq_state = irq_free | irq_ioapic u32 u32 u32 u32 bool | irq_msi u32 u32 u32 u32 | irq_reserved

text \<open>Calls into code whose effect is outside the modelled state (page tables, FPU and
  I/O-port state, interrupt controller) are recorded in the order they are made.\<close>

datatype mach_op =
    Op_setVMRoot ptr
  | Op_lazyFPURestore ptr
  | Op_switchLocalFpuOwner ptr
  | Op_fpuRelease ptr
  | Op_maskInterrupt bool u64
  | Op_ackInterrupt u64
  | Op_resetTimer
  | Op_handleReservedIRQ u64
  | Op_Arch_finaliseCap arch_cap bool
  | Op_freeIOPortRange u16 u16
  | Op_clearMemory u64 u64
  | Op_copyGlobalMappings u64
  | Op_initFpuContext ptr
  | Op_updateIRQState u64 x86_irq_state
  | Op_ioapic_map_pin_to_vector u64 u64 u64 u64 u64

datatype irq_state = IRQInactive | IRQSignal | IRQTimer | IRQReserved

text \<open>The field \<open>irq_polls\<close> holds the answers the interrupt controller gives to the next calls of
  isIRQPending; after them no interrupt is pending.\<close>

record kstate =
  tcbs :: "ptr \<rightharpoonup> tcb"
  ctes :: "ptr \<rightharpoonup> cte"
  eps :: "ptr \<rightharpoonup> endpoint"
  ntfns :: "ptr \<rightharpoonup> notification"
  user_mem :: "u64 \<rightharpoonup> u64"
  ksReadyQueues :: "nat \<Rightarrow> tcb_queue"
  ksReadyQueuesL1Bitmap :: "nat \<Rightarrow> u64"
  ksReadyQueuesL2Bitmap :: "nat \<Rightarrow> nat \<Rightarrow> u64"
  ksCurThread :: ptr
  ksIdleThread :: ptr
  ksSchedulerAction :: sched_action
  ksDebugTCBs :: ptr
  ksCurDomain :: u64
  ksDomainTime :: u64
  ksDomScheduleIdx :: nat
  ksWorkUnitsCompleted :: u64
  current_syscall_error :: syscall_error
  current_lookup_fault :: lookup_fault
  current_fault :: fault
  current_extra_caps :: "nat \<Rightarrow> ptr"
  intStateIRQNode :: ptr
  intStateIRQTable :: "nat \<Rightarrow> irq_state"
  irq_polls :: "bool list"
  machine_ops :: "mach_op list"

text \<open>Configuration.\<close>

definition wordRadix :: nat where "wordRadix = 6"
definition wordBits :: u64 where "wordBits = 64"
definition numDomains :: nat where "numDomains = 1"
definition CONFIG_NUM_PRIORITIES :: nat where "CONFIG_NUM_PRIORITIES = 256"
definition L2_BITMAP_SIZE :: nat where "L2_BITMAP_SIZE = 4"
definition CONFIG_TIME_SLICE :: u64 where "CONFIG_TIME_SLICE = 5"
definition seL4_MaxPrio :: u64 where "seL4_MaxPrio = 255"
definition seL4_MinPrio :: u64 where "seL4_MinPrio = 0"

lemmas config_defs = wordRadix_def wordBits_def numDomains_def CONFIG_NUM_PRIORITIES_def
  L2_BITMAP_SIZE_def CONFIG_TIME_SLICE_def seL4_MaxPrio_def seL4_MinPrio_def

definition BIT :: "u64 \<Rightarrow> u64" where
  "BIT n = push_bit (unat n) 1"

definition MASK :: "u64 \<Rightarrow> u64" where
  "MASK n = BIT n - 1"

section \<open>Access to the heaps\<close>

definition tcb_upd :: "ptr \<Rightarrow> (tcb \<Rightarrow> tcb) \<Rightarrow> kstate \<Rightarrow> kstate option" where
  "tcb_upd p f s = (case tcbs s p of None \<Rightarrow> None | Some t \<Rightarrow> Some (s\<lparr>tcbs := (tcbs s)(p \<mapsto> f t)\<rparr>))"

definition cte_upd :: "ptr \<Rightarrow> (cte \<Rightarrow> cte) \<Rightarrow> kstate \<Rightarrow> kstate option" where
  "cte_upd p f s = (case ctes s p of None \<Rightarrow> None | Some t \<Rightarrow> Some (s\<lparr>ctes := (ctes s)(p \<mapsto> f t)\<rparr>))"

definition ep_upd :: "ptr \<Rightarrow> (endpoint \<Rightarrow> endpoint) \<Rightarrow> kstate \<Rightarrow> kstate option" where
  "ep_upd p f s = (case eps s p of None \<Rightarrow> None | Some t \<Rightarrow> Some (s\<lparr>eps := (eps s)(p \<mapsto> f t)\<rparr>))"

definition ntfn_upd :: "ptr \<Rightarrow> (notification \<Rightarrow> notification) \<Rightarrow> kstate \<Rightarrow> kstate option" where
  "ntfn_upd p f s = (case ntfns s p of None \<Rightarrow> None | Some t \<Rightarrow> Some (s\<lparr>ntfns := (ntfns s)(p \<mapsto> f t)\<rparr>))"

definition mach :: "mach_op \<Rightarrow> kstate \<Rightarrow> kstate" where
  "mach m s = s\<lparr>machine_ops := machine_ops s @ [m]\<rparr>"

definition k_assert :: "bool \<Rightarrow> unit option" where
  "k_assert b = (if b then Some () else None)"

lemma k_assert_simps [simp]: "k_assert True = Some ()" "k_assert False = None"
  by (simp_all add: k_assert_def)

lemma k_assert_Some [simp]: "k_assert b = Some u \<longleftrightarrow> b"
  by (simp add: k_assert_def)

lemma upd_Some:
  "tcb_upd p f s = Some s' \<longleftrightarrow> (\<exists>t. tcbs s p = Some t \<and> s' = s\<lparr>tcbs := (tcbs s)(p \<mapsto> f t)\<rparr>)"
  "cte_upd p g s = Some s' \<longleftrightarrow> (\<exists>t. ctes s p = Some t \<and> s' = s\<lparr>ctes := (ctes s)(p \<mapsto> g t)\<rparr>)"
  "ep_upd p h s = Some s' \<longleftrightarrow> (\<exists>t. eps s p = Some t \<and> s' = s\<lparr>eps := (eps s)(p \<mapsto> h t)\<rparr>)"
  "ntfn_upd p i s = Some s' \<longleftrightarrow> (\<exists>t. ntfns s p = Some t \<and> s' = s\<lparr>ntfns := (ntfns s)(p \<mapsto> i t)\<rparr>)"
  by (auto simp: tcb_upd_def cte_upd_def ep_upd_def ntfn_upd_def split: option.splits)

section \<open>Zeroed objects\<close>

text \<open>A cleared thread control block and the state of the kernel's zeroed data segment, from which
  the concrete states of the examples are built.\<close>

definition tcb0 :: tcb where
  "tcb0 = \<lparr>tcbContext = (\<lambda>_. 0),
     tcbState = \<lparr>tsType = ThreadState_Inactive, blockingObject = 0, blockingIPCBadge = 0, blockingIPCCanGrant = False,
       blockingIPCCanGrantReply = False, blockingIPCIsCall = False, tcbQueued = False\<rparr>,
     tcbFlags = 0, tcbBoundNotification = 0, tcbFault = Fault_NullFault, tcbLookupFailure = LUF_InvalidRoot, tcbDomain = 0,
     tcbMCP = 0, tcbPriority = 0, tcbTimeSlice = 0, tcbFaultHandler = 0, tcbIPCBuffer = 0, tcbSchedNext = 0,
     tcbSchedPrev = 0, tcbEPNext = 0, tcbEPPrev = 0, tcbDebugNext = 0, tcbDebugPrev = 0\<rparr>"

definition ks0 :: kstate where
  "ks0 = \<lparr>tcbs = Map.empty, ctes = Map.empty, eps = Map.empty, ntfns = Map.empty, user_mem = Map.empty,
     ksReadyQueues = (\<lambda>_. \<lparr>q_head = 0, q_end = 0\<rparr>), ksReadyQueuesL1Bitmap = (\<lambda>_. 0),
     ksReadyQueuesL2Bitmap = (\<lambda>_ _. 0), ksCurThread = 0, ksIdleThread = 0,
     ksSchedulerAction = ResumeCurrentThread, ksDebugTCBs = 0, ksCurDomain = 0, ksDomainTime = 0,
     ksDomScheduleIdx = 0, ksWorkUnitsCompleted = 0, current_syscall_error = NoError,
     current_lookup_fault = LUF_InvalidRoot, current_fault = Fault_NullFault, current_extra_caps = (\<lambda>_. 0),
     intStateIRQNode = 0, intStateIRQTable = (\<lambda>_. IRQInactive), irq_polls = [], machine_ops = []\<rparr>"

end
