(* ===== verification/K_Queue.thy ===== *)
theory K_Queue
  imports K_State
begin

text \<open>
  Queues of threads: the scheduler queues linked by tcbSchedNext and tcbSchedPrev
  (src/kernel/include/object/tcb.h and src/object/tcb.c) and the endpoint and notification queues
  linked by tcbEPNext and tcbEPPrev. The operations work on the heap of thread control blocks and
  on the queue's pair of head and end; the lemmas refine them to operations on the list of
  threads the links represent.
\<close>

type_synonym tcb_heap = "ptr \<rightharpoonup> tcb"

section \<open>Operations\<close>

definition tcb_queue_empty :: "tcb_queue \<Rightarrow> bool" where
  "tcb_queue_empty queue \<longleftrightarrow> q_head queue = 0"

definition tcb_queue_prepend :: "tcb_queue \<Rightarrow> ptr \<Rightarrow> tcb_heap \<Rightarrow> (tcb_queue \<times> tcb_heap) option" where
  "tcb_queue_prepend queue tcb h =
     (if tcb_queue_empty queue then Some (queue\<lparr>q_end := tcb, q_head := tcb\<rparr>, h)
      else do {
        h \<leftarrow> heap_upd h tcb (tcbSchedNext_update (\<lambda>_. q_head queue));
        h \<leftarrow> heap_upd h (q_head queue) (tcbSchedPrev_update (\<lambda>_. tcb));
        Some (queue\<lparr>q_head := tcb\<rparr>, h) })"

definition tcb_queue_append :: "tcb_queue \<Rightarrow> ptr \<Rightarrow> tcb_heap \<Rightarrow> (tcb_queue \<times> tcb_heap) option" where
  "tcb_queue_append queue tcb h =
     (if tcb_queue_empty queue then Some (queue\<lparr>q_head := tcb, q_end := tcb\<rparr>, h)
      else do {
        h \<leftarrow> heap_upd h tcb (tcbSchedPrev_update (\<lambda>_. q_end queue));
        h \<leftarrow> heap_upd h (q_end queue) (tcbSchedNext_update (\<lambda>_. tcb));
        Some (queue\<lparr>q_end := tcb\<rparr>, h) })"

definition tcb_queue_insert :: "ptr \<Rightarrow> ptr \<Rightarrow> tcb_heap \<Rightarrow> tcb_heap option" where
  "tcb_queue_insert tcb after h =
     do { before \<leftarrow> map_option tcbSchedPrev (h after);
          k_assert (before \<noteq> 0);
          k_assert (before \<noteq> after);
          h \<leftarrow> heap_upd h tcb (tcbSchedPrev_update (\<lambda>_. before));
          h \<leftarrow> heap_upd h tcb (tcbSchedNext_update (\<lambda>_. after));
          h \<leftarrow> heap_upd h after (tcbSchedPrev_update (\<lambda>_. tcb));
          heap_upd h before (tcbSchedNext_update (\<lambda>_. tcb)) }"

definition tcb_queue_remove :: "tcb_queue \<Rightarrow> ptr \<Rightarrow> tcb_heap \<Rightarrow> (tcb_queue \<times> tcb_heap) option" where
  "tcb_queue_remove queue tcb h =
     do { before \<leftarrow> map_option tcbSchedPrev (h tcb);
          after \<leftarrow> map_option tcbSchedNext (h tcb);
          if q_head queue = tcb \<and> q_end queue = tcb
          then Some (queue\<lparr>q_head := 0, q_end := 0\<rparr>, h)
          else if q_head queue = tcb then do {
            h \<leftarrow> heap_upd h after (tcbSchedPrev_update (\<lambda>_. 0));
            h \<leftarrow> heap_upd h tcb (tcbSchedNext_update (\<lambda>_. 0));
            Some (queue\<lparr>q_head := after\<rparr>, h) }
          else if q_end queue = tcb then do {
            h \<leftarrow> heap_upd h before (tcbSchedNext_update (\<lambda>_. 0));
            h \<leftarrow> heap_upd h tcb (tcbSchedPrev_update (\<lambda>_. 0));
            Some (queue\<lparr>q_end := before\<rparr>, h) }
          else do {
            h \<leftarrow> heap_upd h before (tcbSchedNext_update (\<lambda>_. after));
            h \<leftarrow> heap_upd h after (tcbSchedPrev_update (\<lambda>_. before));
            h \<leftarrow> heap_upd h tcb (tcbSchedPrev_update (\<lambda>_. 0));
            h \<leftarrow> heap_upd h tcb (tcbSchedNext_update (\<lambda>_. 0));
            Some (queue, h) } }"

definition tcbEPAppend :: "ptr \<Rightarrow> tcb_queue \<Rightarrow> tcb_heap \<Rightarrow> (tcb_queue \<times> tcb_heap) option" where
  "tcbEPAppend tcb queue h =
     do { (queue, h) \<leftarrow>
            (if q_head queue = 0 then Some (queue\<lparr>q_head := tcb\<rparr>, h)
             else do { h \<leftarrow> heap_upd h (q_end queue) (tcbEPNext_update (\<lambda>_. tcb)); Some (queue, h) });
          h \<leftarrow> heap_upd h tcb (tcbEPPrev_update (\<lambda>_. q_end queue));
          h \<leftarrow> heap_upd h tcb (tcbEPNext_update (\<lambda>_. 0));
          Some (queue\<lparr>q_end := tcb\<rparr>, h) }"

definition tcbEPDequeue :: "ptr \<Rightarrow> tcb_queue \<Rightarrow> tcb_heap \<Rightarrow> (tcb_queue \<times> tcb_heap) option" where
  "tcbEPDequeue tcb queue h =
     do { t \<leftarrow> h tcb;
          (queue, h) \<leftarrow>
            (if tcbEPPrev t \<noteq> 0
             then do { h \<leftarrow> heap_upd h (tcbEPPrev t) (tcbEPNext_update (\<lambda>_. tcbEPNext t)); Some (queue, h) }
             else Some (queue\<lparr>q_head := tcbEPNext t\<rparr>, h));
          t \<leftarrow> h tcb;
          (queue, h) \<leftarrow>
            (if tcbEPNext t \<noteq> 0
             then do { h \<leftarrow> heap_upd h (tcbEPNext t) (tcbEPPrev_update (\<lambda>_. tcbEPPrev t)); Some (queue, h) }
             else Some (queue\<lparr>q_end := tcbEPPrev t\<rparr>, h));
          Some (queue, h) }"

section \<open>Refinement to lists\<close>

interpretation sched: links tcbSchedNext tcbSchedPrev
    "\<lambda>v. tcbSchedNext_update (\<lambda>_. v)" "\<lambda>v. tcbSchedPrev_update (\<lambda>_. v)"
  by unfold_locales simp_all

interpretation ep: links tcbEPNext tcbEPPrev
    "\<lambda>v. tcbEPNext_update (\<lambda>_. v)" "\<lambda>v. tcbEPPrev_update (\<lambda>_. v)"
  by unfold_locales simp_all

text \<open>The queue represents the list \<open>ts\<close> through the scheduler links, or the endpoint links.\<close>

definition sched_queue :: "tcb_heap \<Rightarrow> tcb_queue \<Rightarrow> ptr list \<Rightarrow> bool" where
  "sched_queue h q ts \<longleftrightarrow> dll tcbSchedNext tcbSchedPrev h ts \<and> q_head q = hd0 ts \<and> q_end q = last0 ts"

definition ep_queue :: "tcb_heap \<Rightarrow> tcb_queue \<Rightarrow> ptr list \<Rightarrow> bool" where
  "ep_queue h q ts \<longleftrightarrow> dll tcbEPNext tcbEPPrev h ts \<and> q_head q = hd0 ts \<and> q_end q = last0 ts"

text \<open>Two heaps that differ in scheduler links only, or in endpoint links only.\<close>

definition clear_sched :: "tcb \<Rightarrow> tcb" where
  "clear_sched t = t\<lparr>tcbSchedNext := 0, tcbSchedPrev := 0\<rparr>"

definition clear_ep :: "tcb \<Rightarrow> tcb" where
  "clear_ep t = t\<lparr>tcbEPNext := 0, tcbEPPrev := 0\<rparr>"

definition eq_but :: "(tcb \<Rightarrow> tcb) \<Rightarrow> tcb_heap \<Rightarrow> tcb_heap \<Rightarrow> bool" where
  "eq_but c h h' \<longleftrightarrow> (\<forall>x. map_option c (h x) = map_option c (h' x))"

lemma eq_but_refl [simp]: "eq_but c h h"
  by (simp add: eq_but_def)

lemma eq_but_trans: "eq_but c h h' \<Longrightarrow> eq_but c h' h'' \<Longrightarrow> eq_but c h h''"
  by (simp add: eq_but_def)

lemma eq_but_link:
  "(\<And>t. c (f t) = c t) \<Longrightarrow> eq_but c h (link_upd f h p)"
  by (auto simp: eq_but_def link_upd_def split: option.splits)

lemma clear_sched_links [simp]:
  "clear_sched (tcbSchedNext_update f t) = clear_sched t" "clear_sched (tcbSchedPrev_update f t) = clear_sched t"
  by (simp_all add: clear_sched_def)

lemma clear_ep_links [simp]:
  "clear_ep (tcbEPNext_update f t) = clear_ep t" "clear_ep (tcbEPPrev_update f t) = clear_ep t"
  by (simp_all add: clear_ep_def)

text \<open>A thread outside every scheduler queue has NULL links.\<close>

definition sched_unlinked :: "tcb_heap \<Rightarrow> ptr \<Rightarrow> bool" where
  "sched_unlinked h p \<longleftrightarrow> (case h p of None \<Rightarrow> False | Some t \<Rightarrow> tcbSchedNext t = 0 \<and> tcbSchedPrev t = 0)"

lemma link_set: "h p = Some t \<Longrightarrow> p \<noteq> 0 \<Longrightarrow> link_upd f h p = h(p \<mapsto> f t)"
  by (simp add: link_upd_def)

lemma prepend_refines:
  assumes q: "sched_queue h q ts" and new: "tcb \<notin> set ts" "tcb \<noteq> 0" "sched_unlinked h tcb"
  shows "\<exists>q' h'. tcb_queue_prepend q tcb h = Some (q', h') \<and> sched_queue h' q' (tcb # ts)
    \<and> eq_but clear_sched h h' \<and> (\<forall>x. x \<notin> set (tcb # ts) \<longrightarrow> h' x = h x)"
proof (cases ts)
  case Nil
  with q new show ?thesis
    by (auto simp: tcb_queue_prepend_def tcb_queue_empty_def sched_queue_def dll_def sched_unlinked_def
        split: option.splits)
next
  case (Cons x xs)
  obtain t where t: "h tcb = Some t" "tcbSchedPrev t = 0"
    using new(3) by (auto simp: sched_unlinked_def split: option.splits)
  have dl: "dll tcbSchedNext tcbSchedPrev h (x # xs)" "q_head q = x" "q_end q = last0 (x # xs)"
    using q Cons by (simp_all add: sched_queue_def)
  then have x: "x \<noteq> 0" "x \<noteq> tcb" using new Cons by (auto simp: dll_def)
  obtain tx where tx: "h x = Some tx" using dll_dom [OF dl(1), of x] by auto
  let ?h1 = "h(tcb \<mapsto> t\<lparr>tcbSchedNext := x\<rparr>)"
  let ?h2 = "link_upd (tcbSchedPrev_update (\<lambda>_. tcb)) ?h1 x"
  have "dll tcbSchedNext tcbSchedPrev ?h1 ([] @ x # xs)" using dl(1) new(1) Cons by (simp add: dll_other)
  from sched.dll_insert [OF this, of tcb "t\<lparr>tcbSchedNext := x\<rparr>"] new Cons t(2)
  have "dll tcbSchedNext tcbSchedPrev ?h2 (tcb # x # xs)" by simp
  moreover have "tcb_queue_prepend q tcb h = Some (q\<lparr>q_head := tcb\<rparr>, ?h2)"
    using x tx dl(2) t(1)
    by (simp add: tcb_queue_prepend_def tcb_queue_empty_def heap_upd_def link_upd_def)
  moreover have "eq_but clear_sched h ?h2"
    by (rule eq_but_trans [OF _ eq_but_link]) (use t(1) in \<open>simp_all add: eq_but_def\<close>)
  ultimately show ?thesis
    using Cons dl(3) by (auto simp: sched_queue_def last0_Cons)
qed

lemma append_refines:
  assumes q: "sched_queue h q ts" and new: "tcb \<notin> set ts" "tcb \<noteq> 0" "sched_unlinked h tcb"
  shows "\<exists>q' h'. tcb_queue_append q tcb h = Some (q', h') \<and> sched_queue h' q' (ts @ [tcb])
    \<and> eq_but clear_sched h h' \<and> (\<forall>x. x \<notin> set (ts @ [tcb]) \<longrightarrow> h' x = h x)"
proof (cases ts rule: rev_cases)
  case Nil
  with q new show ?thesis
    by (auto simp: tcb_queue_append_def tcb_queue_empty_def sched_queue_def dll_def sched_unlinked_def
        split: option.splits)
next
  case (snoc xs x)
  obtain t where t: "h tcb = Some t" "tcbSchedNext t = 0"
    using new(3) by (auto simp: sched_unlinked_def split: option.splits)
  have dl: "dll tcbSchedNext tcbSchedPrev h (xs @ [x])" "q_head q = hd0 (xs @ [x])" "q_end q = x"
    using q snoc by (simp_all add: sched_queue_def)
  then have x: "x \<noteq> 0" "x \<noteq> tcb" "hd0 (xs @ [x]) \<noteq> 0"
    using new snoc hd0_in [of "xs @ [x]"] by (auto simp: dll_def hd0_append split: if_splits)
  obtain tx where tx: "h x = Some tx" using dll_dom [OF dl(1), of x] by auto
  let ?h1 = "h(tcb \<mapsto> t\<lparr>tcbSchedPrev := x\<rparr>)"
  let ?h2 = "link_upd (tcbSchedNext_update (\<lambda>_. tcb)) ?h1 x"
  have "dll tcbSchedNext tcbSchedPrev ?h1 ((xs @ [x]) @ [])" using dl(1) new(1) snoc by (simp add: dll_other)
  from sched.dll_insert [OF this, of tcb "t\<lparr>tcbSchedPrev := x\<rparr>"] new snoc t(2)
  have "dll tcbSchedNext tcbSchedPrev ?h2 (xs @ [x, tcb])" by simp
  moreover have "tcb_queue_append q tcb h = Some (q\<lparr>q_end := tcb\<rparr>, ?h2)"
    using x tx dl(2,3) t(1)
    by (simp add: tcb_queue_append_def tcb_queue_empty_def heap_upd_def link_upd_def)
  moreover have "eq_but clear_sched h ?h2"
    by (rule eq_but_trans [OF _ eq_but_link]) (use t(1) in \<open>simp_all add: eq_but_def\<close>)
  moreover have "last0 (xs @ [x, tcb]) = tcb" by (simp add: last0_def)
  ultimately show ?thesis
    using snoc dl(2) by (auto simp: sched_queue_def hd0_append)
qed

text \<open>The heap after linking out \<open>tcb\<close> and clearing its own links.\<close>

definition sched_unlink :: "tcb_heap \<Rightarrow> ptr list \<Rightarrow> ptr \<Rightarrow> ptr list \<Rightarrow> tcb_heap" where
  "sched_unlink h us tcb vs =
     link_upd clear_sched (link_upd (tcbSchedPrev_update (\<lambda>_. last0 us))
       (link_upd (tcbSchedNext_update (\<lambda>_. hd0 vs)) h (last0 us)) (hd0 vs)) tcb"

lemma sched_unlink_props:
  assumes "dll tcbSchedNext tcbSchedPrev h (us @ tcb # vs)"
  shows "dll tcbSchedNext tcbSchedPrev (sched_unlink h us tcb vs) (us @ vs)"
    and "sched_unlinked (sched_unlink h us tcb vs) tcb"
    and "eq_but clear_sched h (sched_unlink h us tcb vs)"
    and "x \<notin> set (us @ tcb # vs) \<Longrightarrow> sched_unlink h us tcb vs x = h x"
proof -
  have tcb: "tcb \<noteq> 0" "tcb \<notin> set (us @ vs)" using assms by (auto simp: dll_split)
  obtain t where t: "h tcb = Some t" using dll_dom [OF assms, of tcb] by auto
  have lu: "last0 us \<noteq> tcb" using tcb last0_in [of us] by (cases "us = []") auto
  have hv: "hd0 vs \<noteq> tcb" using tcb hd0_in [of vs] by (cases "vs = []") auto
  show "dll tcbSchedNext tcbSchedPrev (sched_unlink h us tcb vs) (us @ vs)"
    unfolding sched_unlink_def using sched.dll_unlink [OF assms] tcb by (simp add: link_dll_other)
  show "sched_unlinked (sched_unlink h us tcb vs) tcb"
    using t tcb(1) lu hv by (simp add: sched_unlink_def sched_unlinked_def link_upd_same clear_sched_def)
  show "eq_but clear_sched h (sched_unlink h us tcb vs)"
    unfolding sched_unlink_def
    by (intro eq_but_trans [OF eq_but_trans [OF eq_but_link eq_but_link] eq_but_link])
       (simp_all add: clear_sched_def)
  show "sched_unlink h us tcb vs x = h x" if "x \<notin> set (us @ tcb # vs)"
  proof -
    have "last0 us = 0 \<or> last0 us \<noteq> x" using that last0_in [of us] by (cases "us = []") auto
    moreover have "hd0 vs = 0 \<or> hd0 vs \<noteq> x" using that hd0_in [of vs] by (cases "vs = []") auto
    ultimately show ?thesis using that by (auto simp: sched_unlink_def)
  qed
qed

lemma clear_sched_half:
  "tcbSchedPrev t = 0 \<Longrightarrow> clear_sched t = t\<lparr>tcbSchedNext := 0\<rparr>"
  "tcbSchedNext t = 0 \<Longrightarrow> clear_sched t = t\<lparr>tcbSchedPrev := 0\<rparr>"
  "tcbSchedPrev t = 0 \<Longrightarrow> tcbSchedNext t = 0 \<Longrightarrow> clear_sched t = t"
  by (cases t; simp add: clear_sched_def)+

lemma remove_result:
  assumes q: "sched_queue h q (us @ tcb # vs)"
  shows "tcb_queue_remove q tcb h =
    Some (\<lparr>q_head = hd0 (us @ vs), q_end = last0 (us @ vs)\<rparr>, sched_unlink h us tcb vs)"
proof -
  from q have dl: "dll tcbSchedNext tcbSchedPrev h (us @ tcb # vs)"
    and he: "q_head q = hd0 (us @ tcb # vs)" "q_end q = last0 (us @ tcb # vs)"
    by (simp_all add: sched_queue_def)
  from dl obtain t where t: "h tcb = Some t" "tcbSchedPrev t = last0 us" "tcbSchedNext t = hd0 vs"
    and d: "distinct (us @ tcb # vs)" "0 \<notin> set (us @ tcb # vs)" by (auto simp: dll_split)
  have ex: "\<exists>t. h x = Some t" if "x \<in> set (us @ tcb # vs)" for x using dll_dom [OF dl that] .
  obtain a b where ab: "q = \<lparr>q_head = a, q_end = b\<rparr>" by (cases q)
  note defs = tcb_queue_remove_def sched_unlink_def link_upd_def heap_upd_def hd0_append last0_append
  consider "us = []" "vs = []" | v ws where "us = []" "vs = v # ws"
    | xs u where "us = xs @ [u]" "vs = []" | xs u v ws where "us = xs @ [u]" "vs = v # ws"
    by (cases us rule: rev_cases; cases vs) auto
  then show ?thesis
  proof cases
    case 1
    with t d he ab show ?thesis by (simp add: defs clear_sched_half fun_upd_idem)
  next
    case 2
    obtain tv where tv: "h v = Some tv" using ex [of v] 2 by auto
    have "b \<noteq> tcb" using 2 he(2) ab d last0_in [of vs] by (auto simp: last0_append last0_Cons)
    with 2 t d he ab tv show ?thesis by (auto simp: defs clear_sched_half last0_Cons)
  next
    case 3
    obtain tu where tu: "h u = Some tu" using ex [of u] 3 by auto
    have "a \<noteq> tcb" using 3 he(1) ab d hd0_in [of us] by (auto simp: hd0_append split: if_splits)
    with 3 t d he ab tu show ?thesis by (auto simp: defs clear_sched_half)
  next
    case 4
    obtain tu where tu: "h u = Some tu" using ex [of u] 4 by auto
    obtain tv where tv: "h v = Some tv" using ex [of v] 4 by auto
    have "a \<noteq> tcb" using 4 he(1) ab d hd0_in [of us] by (auto simp: hd0_append split: if_splits)
    moreover have "b \<noteq> tcb" using 4 he(2) ab d last0_in [of vs] by (auto simp: last0_append last0_Cons)
    ultimately show ?thesis
      using 4 t d he ab tu tv by (auto simp: defs clear_sched_def last0_Cons)
  qed
qed

lemma remove_refines:
  assumes q: "sched_queue h q (us @ tcb # vs)"
  shows "\<exists>q' h'. tcb_queue_remove q tcb h = Some (q', h') \<and> sched_queue h' q' (us @ vs)
    \<and> sched_unlinked h' tcb \<and> eq_but clear_sched h h' \<and> (\<forall>x. x \<notin> set (us @ tcb # vs) \<longrightarrow> h' x = h x)"
  using q remove_result [OF q] sched_unlink_props [of h us tcb vs] by (simp add: sched_queue_def)

lemma last0_Cons_ne: "vs \<noteq> [] \<Longrightarrow> last0 (x # vs) = last0 vs"
  by (simp add: last0_def)

lemma insert_refines:
  assumes dl: "dll tcbSchedNext tcbSchedPrev h (us @ after # vs)" and us: "us \<noteq> []"
    and new: "tcb \<notin> set (us @ after # vs)" "tcb \<noteq> 0" "h tcb = Some t"
  shows "\<exists>h'. tcb_queue_insert tcb after h = Some h'
    \<and> dll tcbSchedNext tcbSchedPrev h' (us @ tcb # after # vs) \<and> eq_but clear_sched h h'"
proof -
  obtain xs u where u: "us = xs @ [u]" using us by (cases us rule: rev_cases) auto
  obtain ta where ta: "h after = Some ta" "tcbSchedPrev ta = u" using dl u by (auto simp: dll_split split: option.splits)
  obtain tu where tu: "h u = Some tu" using dll_dom [OF dl, of u] u by auto
  have ne: "u \<noteq> 0" "u \<noteq> after" "after \<noteq> 0" "tcb \<noteq> u" "tcb \<noteq> after"
    using dl new(1) u by (auto simp: dll_def)
  let ?t = "t\<lparr>tcbSchedPrev := u, tcbSchedNext := after\<rparr>"
  let ?h2 = "link_upd (tcbSchedPrev_update (\<lambda>_. tcb)) (link_upd (tcbSchedNext_update (\<lambda>_. tcb)) (h(tcb \<mapsto> ?t)) u) after"
  have "dll tcbSchedNext tcbSchedPrev (h(tcb \<mapsto> ?t)) (us @ after # vs)" using dl new(1) by (simp add: dll_other)
  from sched.dll_insert [OF this new(1,2), of ?t] u
  have "dll tcbSchedNext tcbSchedPrev ?h2 (us @ tcb # after # vs)" by simp
  moreover have "tcb_queue_insert tcb after h = Some ?h2"
    using ta tu ne new(3) by (simp add: tcb_queue_insert_def heap_upd_def link_upd_def fun_upd_twist)
  moreover have "eq_but clear_sched h ?h2"
    by (intro eq_but_trans [OF eq_but_trans [OF _ eq_but_link] eq_but_link])
       (use new(3) in \<open>simp_all add: eq_but_def\<close>)
  ultimately show ?thesis by blast
qed

lemma ep_append_refines:
  assumes q: "ep_queue h q ts" and new: "tcb \<notin> set ts" "tcb \<noteq> 0" "h tcb = Some t"
  shows "\<exists>q' h'. tcbEPAppend tcb q h = Some (q', h') \<and> ep_queue h' q' (ts @ [tcb])
    \<and> eq_but clear_ep h h' \<and> (\<forall>x. x \<notin> set (ts @ [tcb]) \<longrightarrow> h' x = h x)"
proof (cases ts rule: rev_cases)
  case Nil
  with q new show ?thesis
    by (auto simp: tcbEPAppend_def heap_upd_def ep_queue_def dll_def eq_but_def)
next
  case (snoc xs x)
  have dl: "dll tcbEPNext tcbEPPrev h (xs @ [x])" "q_head q = hd0 (xs @ [x])" "q_end q = x"
    using q snoc by (simp_all add: ep_queue_def)
  then have x: "x \<noteq> 0" "x \<noteq> tcb" "hd0 (xs @ [x]) \<noteq> 0"
    using new snoc hd0_in [of "xs @ [x]"] by (auto simp: dll_def hd0_append split: if_splits)
  obtain tx where tx: "h x = Some tx" using dll_dom [OF dl(1), of x] by auto
  let ?t = "t\<lparr>tcbEPPrev := x, tcbEPNext := 0\<rparr>"
  let ?h2 = "link_upd (tcbEPNext_update (\<lambda>_. tcb)) (h(tcb \<mapsto> ?t)) x"
  have "dll tcbEPNext tcbEPPrev (h(tcb \<mapsto> ?t)) ((xs @ [x]) @ [])" using dl(1) new(1) snoc by (simp add: dll_other)
  from ep.dll_insert [OF this, of tcb ?t] new snoc
  have "dll tcbEPNext tcbEPPrev ?h2 (xs @ [x, tcb])" by simp
  moreover have "tcbEPAppend tcb q h = Some (q\<lparr>q_end := tcb\<rparr>, ?h2)"
    using x tx dl(2,3) new(3) by (simp add: tcbEPAppend_def heap_upd_def link_upd_def fun_upd_twist)
  moreover have "eq_but clear_ep h ?h2"
    by (rule eq_but_trans [OF _ eq_but_link]) (use new(3) in \<open>simp_all add: eq_but_def\<close>)
  moreover have "last0 (xs @ [x, tcb]) = tcb" by (simp add: last0_def)
  ultimately show ?thesis
    using snoc dl(2) by (auto simp: ep_queue_def hd0_append)
qed

lemma ep_dequeue_refines:
  assumes q: "ep_queue h q (us @ tcb # vs)"
  shows "\<exists>q' h'. tcbEPDequeue tcb q h = Some (q', h') \<and> ep_queue h' q' (us @ vs)
    \<and> eq_but clear_ep h h' \<and> (\<forall>x. x \<notin> set (us @ vs) \<longrightarrow> h' x = h x)"
proof -
  from q have dl: "dll tcbEPNext tcbEPPrev h (us @ tcb # vs)"
    and he: "q_head q = hd0 (us @ tcb # vs)" "q_end q = last0 (us @ tcb # vs)"
    by (simp_all add: ep_queue_def)
  from dl obtain t where t: "h tcb = Some t" "tcbEPPrev t = last0 us" "tcbEPNext t = hd0 vs"
    and d: "distinct (us @ tcb # vs)" "0 \<notin> set (us @ tcb # vs)" by (auto simp: dll_split)
  let ?h = "link_upd (tcbEPPrev_update (\<lambda>_. last0 us)) (link_upd (tcbEPNext_update (\<lambda>_. hd0 vs)) h (last0 us)) (hd0 vs)"
  let ?q = "\<lparr>q_head = hd0 (us @ vs), q_end = last0 (us @ vs)\<rparr>"
  have u0: "last0 us = 0 \<longleftrightarrow> us = []" and v0: "hd0 vs = 0 \<longleftrightarrow> vs = []"
    using d(2) by (simp_all add: last0_eq_0 hd0_eq_0)
  have ex: "\<exists>t. h x = Some t" if "x \<in> set (us @ tcb # vs)" for x using dll_dom [OF dl that] .
  have run: "tcbEPDequeue tcb q h = Some (?q, ?h)"
  proof -
    obtain a b where ab: "q = \<lparr>q_head = a, q_end = b\<rparr>" by (cases q)
    have lu: "us \<noteq> [] \<Longrightarrow> \<exists>tu. h (last0 us) = Some tu \<and> last0 us \<noteq> tcb"
      using ex [of "last0 us"] last0_in [of us] d(1) by auto
    have hv: "vs \<noteq> [] \<Longrightarrow> \<exists>tv. h (hd0 vs) = Some tv \<and> hd0 vs \<noteq> tcb \<and> (us \<noteq> [] \<longrightarrow> hd0 vs \<noteq> last0 us)"
      using ex [of "hd0 vs"] hd0_in [of vs] last0_in [of us] d(1) by auto
    show ?thesis
      using lu hv t he ab u0 v0
      by (cases "us = []"; cases "vs = []")
         (auto simp: tcbEPDequeue_def heap_upd_def link_upd_def hd0_append last0_append last0_Cons_ne)
  qed
  have "eq_but clear_ep h ?h" by (intro eq_but_trans [OF eq_but_link eq_but_link]) simp_all
  moreover have "?h x = h x" if "x \<notin> set (us @ vs)" for x
  proof -
    have "last0 us = 0 \<or> x \<noteq> last0 us" "hd0 vs = 0 \<or> x \<noteq> hd0 vs"
      using that last0_in [of us] hd0_in [of vs] u0 v0 by auto
    then show ?thesis by (elim disjE) simp_all
  qed
  ultimately show ?thesis
    using run ep.dll_unlink [OF dl] by (auto simp: ep_queue_def)
qed

end
