(* ===== verification/K_Bits.thy ===== *)
theory K_Bits
  imports HK_Prelude
begin

text \<open>
  Counting zeros (src/kernel/src/util.c, lines 186-419): the branch-free binary searches clz32,
  clz64, ctz32 and ctz64. Each \<open>if (1)\<close> block of the source is one call of \<open>clz_step\<close> or
  \<open>ctz_step\<close> with the iteration number; the variables mask, x and count are the threaded triple.
  The scheduler's priority bitmap relies on clzl, which is clz64 on this platform.
\<close>

section \<open>The routines\<close>

fun clz_step :: "nat \<Rightarrow> 'a::len word \<times> 'a word \<times> u32 \<Rightarrow> 'a word \<times> 'a word \<times> u32" where
  "clz_step i (msk, x, count) =
     (let msk = drop_bit (2 ^ i) msk;
          bits = push_bit i (if msk < x then 1 else 0 :: u32);
          x = drop_bit (unat bits) x;
          count = count - bits
      in (msk, x, count))"

definition clz32 :: "u32 \<Rightarrow> u32" where
  "clz32 x =
     (let st = (- 1, x, 32);
          st = clz_step 4 st; st = clz_step 3 st; st = clz_step 2 st;
          st = clz_step 1 st; st = clz_step 0 st;
          (msk, x, count) = st
      in count - x)"

definition clz64 :: "u64 \<Rightarrow> u32" where
  "clz64 x =
     (let st = (- 1, x, 64);
          st = clz_step 5 st; st = clz_step 4 st; st = clz_step 3 st; st = clz_step 2 st;
          st = clz_step 1 st; st = clz_step 0 st;
          (msk, x, count) = st
      in ucast (ucast count - x))"

fun ctz_step :: "nat \<Rightarrow> 'a::len word \<times> 'a word \<times> u32 \<Rightarrow> 'a word \<times> 'a word \<times> u32" where
  "ctz_step i (msk, x, count) =
     (let msk = drop_bit (2 ^ i) msk;
          bits = push_bit i (if x AND msk = 0 then 1 else 0 :: u32);
          x = drop_bit (unat bits) x;
          count = count + bits
      in (msk, x, count))"

definition ctz32 :: "u32 \<Rightarrow> u32" where
  "ctz32 x =
     (let st = (- 1, x, if x = 0 then 1 else 0);
          st = ctz_step 4 st; st = ctz_step 3 st; st = ctz_step 2 st;
          st = ctz_step 1 st; st = ctz_step 0 st;
          (msk, x, count) = st
      in count)"

definition ctz64 :: "u64 \<Rightarrow> u32" where
  "ctz64 x =
     (let st = (- 1, x, if x = 0 then 1 else 0);
          st = ctz_step 5 st; st = ctz_step 4 st; st = ctz_step 3 st; st = ctz_step 2 st;
          st = ctz_step 1 st; st = ctz_step 0 st;
          (msk, x, count) = st
      in count)"

section \<open>The invariants of the searches\<close>

text \<open>\<open>k\<close> is the width of the focus, \<open>c\<close> the bits shifted out so far, \<open>n\<close> the initial count.\<close>

definition clz_inv :: "'a::len word \<Rightarrow> nat \<Rightarrow> nat \<Rightarrow> 'a word \<times> 'a word \<times> u32 \<Rightarrow> bool" where
  "clz_inv X n k st \<longleftrightarrow> (case st of (msk, x, count) \<Rightarrow>
     \<exists>c. unat msk = 2 ^ k - 1 \<and> unat x = unat X div 2 ^ c \<and> unat x < 2 ^ k
       \<and> (X \<noteq> 0 \<longrightarrow> x \<noteq> 0) \<and> c + k \<le> n \<and> count = of_nat (n - c) \<and> (X = 0 \<longrightarrow> c = 0))"

definition ctz_inv :: "'a::len word \<Rightarrow> nat \<Rightarrow> 'a word \<times> 'a word \<times> u32 \<Rightarrow> bool" where
  "ctz_inv X k st \<longleftrightarrow> (case st of (msk, x, count) \<Rightarrow>
     \<exists>c. unat msk = 2 ^ k - 1 \<and> unat x = unat X div 2 ^ c \<and> 2 ^ c dvd unat X
       \<and> \<not> 2 ^ k dvd unat x \<and> count = of_nat c)"

lemma unat_drop_bit: "unat (drop_bit k (x :: 'a::len word)) = unat x div 2 ^ k"
  unfolding unat_drop_bit_eq by (rule drop_bit_eq_div)

lemma mask_shift: "((2 :: nat) ^ (j + i) - 1) div 2 ^ i = 2 ^ j - 1"
proof (rule div_nat_eqI)
  have "(1 :: nat) \<le> 2 ^ i" "(1 :: nat) \<le> 2 ^ j" by simp_all
  then show "2 ^ i * (2 ^ j - 1) \<le> (2 :: nat) ^ (j + i) - 1"
    and "(2 :: nat) ^ (j + i) - 1 < 2 ^ i * Suc (2 ^ j - 1)"
    by (simp_all add: power_add diff_mult_distrib2 diff_le_mono2 mult.commute)
qed

lemma unat_pow2: "i < 32 \<Longrightarrow> unat (2 ^ i :: u32) = 2 ^ i"
proof -
  assume i: "i < 32"
  have "(2 :: nat) ^ i < 2 ^ 32" using i by (rule power_strict_increasing) simp
  then have "unat (of_nat (2 ^ i) :: u32) = 2 ^ i" unfolding unat_of_nat by simp
  then show ?thesis by simp
qed

lemma clz_step_inv:
  assumes inv: "clz_inv X n (2 ^ Suc i) st" and i: "i < 32"
  shows "clz_inv X n (2 ^ i) (clz_step i st)"
proof -
  obtain msk x count where st: "st = (msk, x, count)" by (cases st)
  note inv = inv [unfolded st]
  let ?k = "(2 :: nat) ^ i"
  from inv obtain c where c: "unat msk = 2 ^ (?k + ?k) - 1" "unat x = unat X div 2 ^ c"
    "unat x < 2 ^ (?k + ?k)" "X \<noteq> 0 \<longrightarrow> x \<noteq> 0" "c + (?k + ?k) \<le> n" "count = of_nat (n - c)" "X = 0 \<longrightarrow> c = 0"
    unfolding clz_inv_def prod.case power_Suc mult_2 by blast
  have m: "unat (drop_bit ?k msk) = 2 ^ ?k - 1" unfolding unat_drop_bit c(1) by (rule mask_shift)
  have lt: "drop_bit ?k msk < x \<longleftrightarrow> 2 ^ ?k \<le> unat x"
  proof -
    have "(0 :: nat) < 2 ^ ?k" by simp
    then show ?thesis unfolding word_less_nat_alt m by linarith
  qed
  show ?thesis
  proof (cases "2 ^ ?k \<le> unat x")
    case True
    have "unat (drop_bit ?k x) = unat X div 2 ^ (c + ?k)"
      by (simp add: unat_drop_bit c(2) power_add div_mult2_eq)
    moreover have "unat (drop_bit ?k x) < 2 ^ ?k"
      using c(3) by (simp add: unat_drop_bit power_add less_mult_imp_div_less)
    moreover have "0 < unat (drop_bit ?k x)" using True by (simp add: unat_drop_bit div_greater_zero_iff)
    moreover have "count - push_bit i 1 = of_nat (n - (c + ?k))"
      using c(5,6) by (simp add: of_nat_diff)
    moreover have "X \<noteq> 0" using True c(2) by auto
    ultimately show ?thesis
      using True m c(5) by (auto simp: clz_inv_def st Let_def lt unat_pow2 i intro!: exI [of _ "c + ?k"])
  next
    case False
    then show ?thesis
      using m c by (auto simp: clz_inv_def st Let_def lt intro!: exI [of _ c])
  qed
qed

lemma ctz_step_inv:
  assumes inv: "ctz_inv X (2 ^ Suc i) st" and i: "i < 32"
  shows "ctz_inv X (2 ^ i) (ctz_step i st)"
proof -
  obtain msk x count where st: "st = (msk, x, count)" by (cases st)
  note inv = inv [unfolded st]
  let ?k = "(2 :: nat) ^ i"
  from inv obtain c where c: "unat msk = 2 ^ (?k + ?k) - 1" "unat x = unat X div 2 ^ c"
    "2 ^ c dvd unat X" "\<not> 2 ^ (?k + ?k) dvd unat x" "count = of_nat c"
    unfolding ctz_inv_def prod.case power_Suc mult_2 by blast
  have m: "unat (drop_bit ?k msk) = 2 ^ ?k - 1" unfolding unat_drop_bit c(1) by (rule mask_shift)
  have z: "x AND drop_bit ?k msk = 0 \<longleftrightarrow> 2 ^ ?k dvd unat x"
  proof -
    have "unat (x AND drop_bit ?k msk) = unat x mod 2 ^ ?k"
      by (simp only: unsigned_and_eq m mask_eq_exp_minus_1 [symmetric] take_bit_eq_mask [symmetric] take_bit_eq_mod)
    then show ?thesis by (metis dvd_eq_mod_eq_0 unsigned_eq_0_iff)
  qed
  show ?thesis
  proof (cases "2 ^ ?k dvd unat x")
    case True
    have x: "unat (drop_bit ?k x) = unat X div 2 ^ (c + ?k)"
      by (simp add: unat_drop_bit c(2) power_add div_mult2_eq)
    have d: "2 ^ (c + ?k) dvd unat X"
      using True c(2,3) by (metis dvd_div_iff_mult mult.commute power_add power_not_zero zero_neq_numeral)
    have "\<not> 2 ^ ?k dvd unat (drop_bit ?k x)"
      using True c(4) by (simp add: unat_drop_bit power_add dvd_div_iff_mult)
    with x d True show ?thesis
      using m c(5) by (auto simp: ctz_inv_def st Let_def z unat_pow2 i intro!: exI [of _ "c + ?k"])
  next
    case False
    then show ?thesis
      using m c by (auto simp: ctz_inv_def st Let_def z intro!: exI [of _ c])
  qed
qed

section \<open>Results\<close>

lemma unat_one: "unat (x :: 'a::len word) = 1 \<Longrightarrow> x = 1"
  by (metis of_nat_1 of_nat_unat ucast_id)

lemma div_one:
  fixes q :: nat
  assumes "0 < q" and "x div q = 1"
  shows "q \<le> x \<and> x < 2 * q"
proof -
  have "x = q * (x div q) + x mod q" by simp
  with assms show ?thesis using mod_less_divisor [OF assms(1), of x] by simp
qed

lemma unat_count: "k \<le> 64 \<Longrightarrow> unat (of_nat k :: u32) = k"
  by (simp add: unsigned_of_nat take_bit_nat_eq_self)

lemma count_minus_one:
  assumes "0 < k" and "k \<le> 64"
  shows "ucast (ucast (of_nat k :: u32) - (1 :: u64)) = (of_nat (k - 1) :: u32)"
proof -
  have "(ucast (of_nat k :: u32) :: u64) - 1 = of_nat (k - 1)"
    using assms by (simp add: unsigned_of_nat take_bit_nat_eq_self of_nat_diff)
  then show ?thesis using assms by (simp only: unsigned_of_nat) (simp add: take_bit_nat_eq_self)
qed

lemma clz_inv_init: "clz_inv X LENGTH('a) LENGTH('a) (- 1, X :: 'a::len word, of_nat LENGTH('a))"
  using unsigned_less [where 'a = nat, of X]
  by (auto simp: clz_inv_def unsigned_minus_1_eq_mask mask_eq_exp_minus_1 intro!: exI [of _ 0])

lemma dvd_lt: "(2 :: nat) ^ c dvd unat (X :: 'a::len word) \<Longrightarrow> X \<noteq> 0 \<Longrightarrow> c < LENGTH('a)"
proof -
  assume d: "(2 :: nat) ^ c dvd unat X" and "X \<noteq> 0"
  then have "0 < unat X" by (simp add: unsigned_eq_0_iff neq0_conv [symmetric] del: neq0_conv)
  with d have "(2 :: nat) ^ c \<le> unat X" by (rule dvd_imp_le)
  also have "\<dots> < 2 ^ LENGTH('a)" by (rule unsigned_less)
  finally show ?thesis by (rule power_less_imp_less_exp [rotated]) simp
qed

lemma ctz_inv_init: "X \<noteq> 0 \<Longrightarrow> ctz_inv X LENGTH('a) (- 1, X :: 'a::len word, 0)"
  using dvd_lt [of "LENGTH('a)" X]
  by (auto simp: ctz_inv_def unsigned_minus_1_eq_mask mask_eq_exp_minus_1 intro!: exI [of _ 0])

lemma clz_inv_end:
  assumes "clz_inv X n 1 (msk, x, count)" and "X \<noteq> 0"
  shows "\<exists>c < n. count = of_nat (n - c) \<and> x = 1 \<and> 2 ^ c \<le> unat X \<and> unat X < 2 ^ Suc c"
proof -
  from assms obtain c where c: "unat x = unat X div 2 ^ c" "unat x < 2" "x \<noteq> 0" "c + 1 \<le> n"
    "count = of_nat (n - c)"
    unfolding clz_inv_def prod.case power_one_right by blast
  then have 1: "unat x = 1" by (metis less_2_cases unsigned_eq_0_iff One_nat_def)
  then have "2 ^ c \<le> unat X \<and> unat X < 2 * 2 ^ c" using c(1) by (intro div_one) simp_all
  with c unat_one [OF 1] show ?thesis by (intro exI [of _ c]) simp
qed

lemma clz_inv_zero: "clz_inv 0 n 1 (msk, x, count) \<Longrightarrow> x = 0 \<and> count = of_nat n"
  by (auto simp: clz_inv_def unsigned_eq_0_iff)

lemma ctz_inv_end:
  assumes "ctz_inv X 1 (msk, x, count)"
  shows "\<exists>c. count = of_nat c \<and> 2 ^ c dvd unat X \<and> \<not> 2 ^ Suc c dvd unat X"
proof -
  from assms obtain c where c: "unat x = unat X div 2 ^ c" "2 ^ c dvd unat X" "\<not> 2 dvd unat x"
    "count = of_nat c"
    unfolding ctz_inv_def prod.case power_one_right by blast
  then have "\<not> 2 * 2 ^ c dvd unat X" by (simp add: dvd_div_iff_mult)
  with c show ?thesis by (intro exI [of _ c]) simp
qed

text \<open>The blocks of the source as an iteration counting down.\<close>

fun clz_iter :: "nat \<Rightarrow> 'a::len word \<times> 'a word \<times> u32 \<Rightarrow> 'a word \<times> 'a word \<times> u32" where
  "clz_iter 0 st = st"
| "clz_iter (Suc i) st = clz_iter i (clz_step i st)"

fun ctz_iter :: "nat \<Rightarrow> 'a::len word \<times> 'a word \<times> u32 \<Rightarrow> 'a word \<times> 'a word \<times> u32" where
  "ctz_iter 0 st = st"
| "ctz_iter (Suc i) st = ctz_iter i (ctz_step i st)"

lemma clz_iter_inv: "clz_inv X n (2 ^ i) st \<Longrightarrow> i \<le> 32 \<Longrightarrow> clz_inv X n 1 (clz_iter i st)"
  by (induction i arbitrary: st) (simp_all add: clz_step_inv del: clz_step.simps)

lemma ctz_iter_inv: "ctz_inv X (2 ^ i) st \<Longrightarrow> i \<le> 32 \<Longrightarrow> ctz_inv X 1 (ctz_iter i st)"
  by (induction i arbitrary: st) (simp_all add: ctz_step_inv del: ctz_step.simps)

lemma clz_blocks:
  "clz32 x = (case clz_iter 5 (- 1, x, 32) of (msk, x, count) \<Rightarrow> count - x)"
  "clz64 y = (case clz_iter 6 (- 1, y, 64) of (msk, y, count) \<Rightarrow> ucast (ucast count - y))"
  by (simp_all add: clz32_def clz64_def eval_nat_numeral Let_def del: clz_step.simps)

lemma ctz_blocks:
  "ctz32 x = snd (snd (ctz_iter 5 (- 1, x, if x = 0 then 1 else 0)))"
  "ctz64 y = snd (snd (ctz_iter 6 (- 1, y, if y = 0 then 1 else 0)))"
  by (simp_all add: ctz32_def ctz64_def eval_nat_numeral Let_def split_beta del: ctz_step.simps)

lemma clz32_range:
  assumes "x \<noteq> 0"
  shows "\<exists>c < 32. unat (clz32 x) = 31 - c \<and> 2 ^ c \<le> unat x \<and> unat x < 2 ^ Suc c"
proof -
  obtain msk y count where it: "clz_iter 5 (- 1, x, 32) = (msk, y, count)" by (cases "clz_iter 5 (- 1, x, 32)")
  have "clz_inv x 32 1 (msk, y, count)"
    using clz_iter_inv [of x 32 5 "(- 1, x, 32)"] clz_inv_init [of x] it by simp
  from clz_inv_end [OF this assms] obtain c where
    c: "c < 32" "count = of_nat (32 - c)" "y = 1" "2 ^ c \<le> unat x" "unat x < 2 ^ Suc c" by blast
  have "of_nat (32 - c) - 1 = (of_nat (31 - c) :: u32)" using c(1) by (simp add: of_nat_diff)
  then have "unat (clz32 x) = 31 - c"
    unfolding clz_blocks it c(2,3) prod.case by (simp only: unat_count)
  with c show ?thesis by blast
qed

lemma clz64_range:
  assumes "x \<noteq> 0"
  shows "\<exists>c < 64. unat (clz64 x) = 63 - c \<and> 2 ^ c \<le> unat x \<and> unat x < 2 ^ Suc c"
proof -
  obtain msk y count where it: "clz_iter 6 (- 1, x, 64) = (msk, y, count)" by (cases "clz_iter 6 (- 1, x, 64)")
  have "clz_inv x 64 1 (msk, y, count)"
    using clz_iter_inv [of x 64 6 "(- 1, x, 64)"] clz_inv_init [of x] it by simp
  from clz_inv_end [OF this assms] obtain c where
    c: "c < 64" "count = of_nat (64 - c)" "y = 1" "2 ^ c \<le> unat x" "unat x < 2 ^ Suc c" by blast
  have "ucast (ucast (of_nat (64 - c) :: u32) - (1 :: u64)) = (of_nat (63 - c) :: u32)"
    using c(1) count_minus_one [of "64 - c"] by simp
  then have "unat (clz64 x) = 63 - c"
    unfolding clz_blocks it c(2,3) prod.case by (simp only: unat_count)
  with c show ?thesis by blast
qed

lemma ctz_range:
  "x \<noteq> 0 \<Longrightarrow> \<exists>c < 32. ctz32 x = of_nat c \<and> 2 ^ c dvd unat x \<and> \<not> 2 ^ Suc c dvd unat x"
  "y \<noteq> 0 \<Longrightarrow> \<exists>c < 64. ctz64 y = of_nat c \<and> 2 ^ c dvd unat y \<and> \<not> 2 ^ Suc c dvd unat y"
proof -
  show "\<exists>c < 32. ctz32 x = of_nat c \<and> 2 ^ c dvd unat x \<and> \<not> 2 ^ Suc c dvd unat x" if x: "x \<noteq> 0"
  proof -
    have "ctz_inv x 1 (ctz_iter 5 (- 1, x, 0))"
      using ctz_iter_inv [of x 5] ctz_inv_init [OF x] by simp
    then show ?thesis
      using ctz_inv_end [of x] dvd_lt [of _ x] x
      by (cases "ctz_iter 5 (- 1, x, 0)") (fastforce simp: ctz_blocks)
  qed
  show "\<exists>c < 64. ctz64 y = of_nat c \<and> 2 ^ c dvd unat y \<and> \<not> 2 ^ Suc c dvd unat y" if y: "y \<noteq> 0"
  proof -
    have "ctz_inv y 1 (ctz_iter 6 (- 1, y, 0))"
      using ctz_iter_inv [of y 6] ctz_inv_init [OF y] by simp
    then show ?thesis
      using ctz_inv_end [of y] dvd_lt [of _ y] y
      by (cases "ctz_iter 6 (- 1, y, 0)") (fastforce simp: ctz_blocks)
  qed
qed

text \<open>C37. Counting leading zeros is right at both widths: for a non-zero argument the result n
  is the number of zeros above the most significant one bit (2^(w-1-n) <= x < 2^(w-n)), and
  for zero it is the width.\<close>

theorem clz_correct:
  "(x \<noteq> 0 \<longrightarrow> unat (clz32 x) < 32 \<and> 2 ^ (31 - unat (clz32 x)) \<le> unat x \<and> unat x < 2 ^ (32 - unat (clz32 x)))
   \<and> (y \<noteq> 0 \<longrightarrow> unat (clz64 y) < 64 \<and> 2 ^ (63 - unat (clz64 y)) \<le> unat y \<and> unat y < 2 ^ (64 - unat (clz64 y)))
   \<and> clz32 0 = 32 \<and> clz64 0 = 64"
proof (intro conjI impI)
  show "clz32 0 = 32" "clz64 0 = 64" by code_simp+
  show "unat (clz32 x) < 32" "2 ^ (31 - unat (clz32 x)) \<le> unat x" "unat x < 2 ^ (32 - unat (clz32 x))"
    if "x \<noteq> 0" using clz32_range [OF that] by (auto simp: unat_count Suc_diff_le)
  show "unat (clz64 y) < 64" "2 ^ (63 - unat (clz64 y)) \<le> unat y" "unat y < 2 ^ (64 - unat (clz64 y))"
    if "y \<noteq> 0" using clz64_range [OF that] by (auto simp: unat_count Suc_diff_le)
qed

theorem clz_correct_witness:
  "(0x00010000 :: u32) \<noteq> 0 \<and> unat (clz32 0x00010000) < 32 \<and> clz32 0x00010000 = 15 \<and> clz64 0x00010000 = 47
   \<and> unat (0x00010000 :: u64) < 2 ^ (64 - unat (clz64 0x00010000))"
proof -
  have "clz32 0x00010000 = 15" "clz64 0x00010000 = 47" by code_simp+
  then show ?thesis using clz_correct [of "0x00010000" "0x00010000"] by simp
qed

text \<open>C38. Counting trailing zeros is right at both widths: for a non-zero argument 2^n is the
  largest power of two that divides it, and for zero the result is the width.\<close>

theorem ctz_correct:
  "(x \<noteq> 0 \<longrightarrow> unat (ctz32 x) < 32 \<and> 2 ^ unat (ctz32 x) dvd unat x \<and> \<not> 2 ^ Suc (unat (ctz32 x)) dvd unat x)
   \<and> (y \<noteq> 0 \<longrightarrow> unat (ctz64 y) < 64 \<and> 2 ^ unat (ctz64 y) dvd unat y \<and> \<not> 2 ^ Suc (unat (ctz64 y)) dvd unat y)
   \<and> ctz32 0 = 32 \<and> ctz64 0 = 64"
proof (intro conjI impI)
  show "ctz32 0 = 32" "ctz64 0 = 64" by code_simp+
  show "unat (ctz32 x) < 32" "2 ^ unat (ctz32 x) dvd unat x" "\<not> 2 ^ Suc (unat (ctz32 x)) dvd unat x"
    if "x \<noteq> 0" using ctz_range(1) [OF that] by (auto simp: unat_count)
  show "unat (ctz64 y) < 64" "2 ^ unat (ctz64 y) dvd unat y" "\<not> 2 ^ Suc (unat (ctz64 y)) dvd unat y"
    if "y \<noteq> 0" using ctz_range(2) [OF that] by (auto simp: unat_count)
qed

theorem ctz_correct_witness:
  "(40 :: u32) \<noteq> 0 \<and> unat (ctz32 40) < 32 \<and> ctz32 40 = 3 \<and> ctz64 40 = 3 \<and> 2 ^ unat (ctz64 40) dvd unat (40 :: u64)"
proof -
  have "ctz32 40 = 3" "ctz64 40 = 3" by code_simp+
  then show ?thesis using ctz_correct [of 40 40] by simp
qed

end
