(* ===== verification/K_Sched.thy ===== *)
theory K_Sched
  imports K_Queue K_Bits
begin

text \<open>
  The ready queues and the scheduler (src/kernel/include/kernel/thread.h, src/object/tcb.c and the
  scheduling half of src/kernel/thread.c). Each priority has a queue of ready threads; a two-level
  bitmap says which queues are not empty, so that the highest ready priority is found with two
  count-leading-zeros instructions. \<open>ready_inv\<close> ties queues, bitmap and thread fields to an
  abstract map from priorities to lists of threads, and the lemmas refine enqueue, append,
  dequeue and choose to operations on that map.
\<close>

section \<open>Indices and predicates of thread.h\<close>

text \<open>clzl of include/util.h in the CONFIG_CLZ_NO_BUILTIN build, on the words of \<open>K_Bits\<close>.\<close>

definition clzl :: "u64 \<Rightarrow> u64" where
  "clzl x = ucast (clz64 x)"

definition ready_queues_index :: "u64 \<Rightarrow> u64 \<Rightarrow> u64 option" where
  "ready_queues_index domain prio =
     (if numDomains > 1 then Some (domain * of_nat CONFIG_NUM_PRIORITIES + prio)
      else do { k_assert (domain = 0); Some prio })"

definition prio_to_l1index :: "u64 \<Rightarrow> u64" where
  "prio_to_l1index prio = drop_bit wordRadix prio"

definition l1index_to_prio :: "u64 \<Rightarrow> u64" where
  "l1index_to_prio l1index = push_bit wordRadix l1index"

definition isRunnable :: "tcb \<Rightarrow> bool" where
  "isRunnable thread = (case tsType (tcbState thread) of
       ThreadState_Running \<Rightarrow> True
     | ThreadState_Restart \<Rightarrow> True
     | _ \<Rightarrow> False)"

definition invert_l1index :: "u64 \<Rightarrow> u64 option" where
  "invert_l1index l1index =
     (let inverted = of_nat L2_BITMAP_SIZE - 1 - l1index in
      do { k_assert (inverted < of_nat L2_BITMAP_SIZE); Some inverted })"

definition getHighestPrio :: "u64 \<Rightarrow> kstate \<Rightarrow> u64 option" where
  "getHighestPrio domain s =
     (let l1 = ksReadyQueuesL1Bitmap s (unat domain) in
      do { k_assert (l1 \<noteq> 0);
           let l1index = wordBits - 1 - clzl l1;
           l1index_inverted \<leftarrow> invert_l1index l1index;
           let l2 = ksReadyQueuesL2Bitmap s (unat domain) (unat l1index_inverted);
           k_assert (l2 \<noteq> 0);
           let l2index = wordBits - 1 - clzl l2;
           Some (l1index_to_prio l1index OR l2index) })"

definition isHighestPrio :: "u64 \<Rightarrow> u64 \<Rightarrow> kstate \<Rightarrow> bool option" where
  "isHighestPrio domain prio s =
     (if ksReadyQueuesL1Bitmap s (unat domain) = 0 then Some True
      else do { p \<leftarrow> getHighestPrio domain s; Some (prio \<ge> p) })"

definition isBlocked :: "tcb \<Rightarrow> bool" where
  "isBlocked thread = (case tsType (tcbState thread) of
       ThreadState_BlockedOnReceive \<Rightarrow> True
     | ThreadState_BlockedOnSend \<Rightarrow> True
     | ThreadState_BlockedOnNotification \<Rightarrow> True
     | ThreadState_BlockedOnReply \<Rightarrow> True
     | _ \<Rightarrow> False)"

definition isStopped :: "tcb \<Rightarrow> bool" where
  "isStopped thread = (case tsType (tcbState thread) of
       ThreadState_Inactive \<Rightarrow> True
     | ThreadState_BlockedOnReceive \<Rightarrow> True
     | ThreadState_BlockedOnSend \<Rightarrow> True
     | ThreadState_BlockedOnNotification \<Rightarrow> True
     | ThreadState_BlockedOnReply \<Rightarrow> True
     | _ \<Rightarrow> False)"

section \<open>Ready queues of tcb.c\<close>

definition checkPrio :: "u64 \<Rightarrow> tcb \<Rightarrow> kstate \<Rightarrow> (exception \<times> kstate) option" where
  "checkPrio prio auth s =
     do { k_assert (tcbMCP auth \<le> seL4_MaxPrio);
          if prio > tcbMCP auth
          then Some (EXCEPTION_SYSCALL_ERROR,
                     s\<lparr>current_syscall_error := RangeError seL4_MinPrio (tcbMCP auth)\<rparr>)
          else Some (EXCEPTION_NONE, s) }"

definition addToBitmap :: "u64 \<Rightarrow> u64 \<Rightarrow> kstate \<Rightarrow> kstate option" where
  "addToBitmap domain prio s =
     (let l1index = prio_to_l1index prio; d = unat domain in
      do { l1index_inverted \<leftarrow> invert_l1index l1index;
           let i = unat l1index_inverted;
           let s = s\<lparr>ksReadyQueuesL1Bitmap :=
                      (ksReadyQueuesL1Bitmap s)(d := ksReadyQueuesL1Bitmap s d OR BIT l1index)\<rparr>;
           Some (s\<lparr>ksReadyQueuesL2Bitmap := (ksReadyQueuesL2Bitmap s)(d := (ksReadyQueuesL2Bitmap s d)
                      (i := ksReadyQueuesL2Bitmap s d i OR BIT (prio AND MASK (of_nat wordRadix))))\<rparr>) })"

definition removeFromBitmap :: "u64 \<Rightarrow> u64 \<Rightarrow> kstate \<Rightarrow> kstate option" where
  "removeFromBitmap domain prio s =
     (let l1index = prio_to_l1index prio; d = unat domain in
      do { l1index_inverted \<leftarrow> invert_l1index l1index;
           let i = unat l1index_inverted;
           let s = s\<lparr>ksReadyQueuesL2Bitmap := (ksReadyQueuesL2Bitmap s)(d := (ksReadyQueuesL2Bitmap s d)
                      (i := ksReadyQueuesL2Bitmap s d i AND NOT (BIT (prio AND MASK (of_nat wordRadix)))))\<rparr>;
           Some (if ksReadyQueuesL2Bitmap s d i = 0
                 then s\<lparr>ksReadyQueuesL1Bitmap :=
                      (ksReadyQueuesL1Bitmap s)(d := ksReadyQueuesL1Bitmap s d AND NOT (BIT l1index))\<rparr>
                 else s) })"

text \<open>The array ksReadyQueues has one entry per priority; an access behind its end is a fault.\<close>

definition ready_queue_get :: "u64 \<Rightarrow> kstate \<Rightarrow> tcb_queue option" where
  "ready_queue_get idx s =
     do { k_assert (unat idx < numDomains * CONFIG_NUM_PRIORITIES); Some (ksReadyQueues s (unat idx)) }"

definition ready_queue_set :: "u64 \<Rightarrow> tcb_queue \<Rightarrow> kstate \<Rightarrow> kstate option" where
  "ready_queue_set idx q s =
     do { k_assert (unat idx < numDomains * CONFIG_NUM_PRIORITIES);
          Some (s\<lparr>ksReadyQueues := (ksReadyQueues s)(unat idx := q)\<rparr>) }"

definition set_tcbQueued :: "ptr \<Rightarrow> bool \<Rightarrow> kstate \<Rightarrow> kstate option" where
  "set_tcbQueued tcb b = tcb_upd tcb (tcbState_update (tcbQueued_update (\<lambda>_. b)))"

definition tcbSchedEnqueue :: "ptr \<Rightarrow> kstate \<Rightarrow> kstate option" where
  "tcbSchedEnqueue tcb s =
     do { t \<leftarrow> tcbs s tcb;
          if \<not> tcbQueued (tcbState t) then do {
            let domain = tcbDomain t;
            let prio = tcbPriority t;
            idx \<leftarrow> ready_queues_index domain prio;
            queue \<leftarrow> ready_queue_get idx s;
            s \<leftarrow> (if tcb_queue_empty queue then addToBitmap domain prio s else Some s);
            (queue, h) \<leftarrow> tcb_queue_prepend queue tcb (tcbs s);
            s \<leftarrow> ready_queue_set idx queue (s\<lparr>tcbs := h\<rparr>);
            set_tcbQueued tcb True s }
          else Some s }"

definition tcbSchedAppend :: "ptr \<Rightarrow> kstate \<Rightarrow> kstate option" where
  "tcbSchedAppend tcb s =
     do { t \<leftarrow> tcbs s tcb;
          if \<not> tcbQueued (tcbState t) then do {
            let domain = tcbDomain t;
            let prio = tcbPriority t;
            idx \<leftarrow> ready_queues_index domain prio;
            queue \<leftarrow> ready_queue_get idx s;
            s \<leftarrow> (if tcb_queue_empty queue then addToBitmap domain prio s else Some s);
            (queue, h) \<leftarrow> tcb_queue_append queue tcb (tcbs s);
            s \<leftarrow> ready_queue_set idx queue (s\<lparr>tcbs := h\<rparr>);
            set_tcbQueued tcb True s }
          else Some s }"

definition tcbSchedDequeue :: "ptr \<Rightarrow> kstate \<Rightarrow> kstate option" where
  "tcbSchedDequeue tcb s =
     do { t \<leftarrow> tcbs s tcb;
          if tcbQueued (tcbState t) then do {
            let domain = tcbDomain t;
            let prio = tcbPriority t;
            idx \<leftarrow> ready_queues_index domain prio;
            queue \<leftarrow> ready_queue_get idx s;
            (new_queue, h) \<leftarrow> tcb_queue_remove queue tcb (tcbs s);
            s \<leftarrow> ready_queue_set idx new_queue (s\<lparr>tcbs := h\<rparr>);
            s \<leftarrow> set_tcbQueued tcb False s;
            if tcb_queue_empty new_queue then removeFromBitmap domain prio s else Some s }
          else Some s }"

text \<open>The list of all threads of a debug build.\<close>

definition tcbDebugAppend :: "ptr \<Rightarrow> kstate \<Rightarrow> kstate option" where
  "tcbDebugAppend tcb s =
     do { s \<leftarrow> tcb_upd tcb (tcbDebugPrev_update (\<lambda>_. 0)) s;
          s \<leftarrow> tcb_upd tcb (tcbDebugNext_update (\<lambda>_. ksDebugTCBs s)) s;
          s \<leftarrow> (if ksDebugTCBs s \<noteq> 0 then tcb_upd (ksDebugTCBs s) (tcbDebugPrev_update (\<lambda>_. tcb)) s
                else Some s);
          Some (s\<lparr>ksDebugTCBs := tcb\<rparr>) }"

definition tcbDebugRemove :: "ptr \<Rightarrow> kstate \<Rightarrow> kstate option" where
  "tcbDebugRemove tcb s =
     do { k_assert (ksDebugTCBs s \<noteq> 0);
          t \<leftarrow> tcbs s tcb;
          s \<leftarrow> (if tcb = ksDebugTCBs s then Some (s\<lparr>ksDebugTCBs := tcbDebugNext t\<rparr>)
                else do { k_assert (tcbDebugPrev t \<noteq> 0);
                          tcb_upd (tcbDebugPrev t) (tcbDebugNext_update (\<lambda>_. tcbDebugNext t)) s });
          t \<leftarrow> tcbs s tcb;
          s \<leftarrow> (if tcbDebugNext t \<noteq> 0
                then tcb_upd (tcbDebugNext t) (tcbDebugPrev_update (\<lambda>_. tcbDebugPrev t)) s
                else Some s);
          s \<leftarrow> tcb_upd tcb (tcbDebugPrev_update (\<lambda>_. 0)) s;
          tcb_upd tcb (tcbDebugNext_update (\<lambda>_. 0)) s }"

section \<open>The scheduler of thread.c\<close>

text \<open>The domain schedule of src/config/default_domain.c.\<close>

definition ksDomSchedule :: "(u64 \<times> u64) list" where
  "ksDomSchedule = [(0, 1)]"

definition ksDomScheduleLength :: nat where
  "ksDomScheduleLength = length ksDomSchedule"

definition rescheduleRequired :: "kstate \<Rightarrow> kstate option" where
  "rescheduleRequired s =
     do { s \<leftarrow> (case ksSchedulerAction s of SwitchToThread t \<Rightarrow> tcbSchedEnqueue t s | _ \<Rightarrow> Some s);
          Some (s\<lparr>ksSchedulerAction := ChooseNewThread\<rparr>) }"

definition possibleSwitchTo :: "ptr \<Rightarrow> kstate \<Rightarrow> kstate option" where
  "possibleSwitchTo target s =
     do { t \<leftarrow> tcbs s target;
          if ksCurDomain s \<noteq> tcbDomain t then tcbSchedEnqueue target s
          else if ksSchedulerAction s \<noteq> ResumeCurrentThread
          then do { s \<leftarrow> rescheduleRequired s; tcbSchedEnqueue target s }
          else Some (s\<lparr>ksSchedulerAction := SwitchToThread target\<rparr>) }"

definition scheduleTCB :: "ptr \<Rightarrow> kstate \<Rightarrow> kstate option" where
  "scheduleTCB tptr s =
     do { t \<leftarrow> tcbs s tptr;
          if tptr = ksCurThread s \<and> ksSchedulerAction s = ResumeCurrentThread \<and> \<not> isRunnable t
          then rescheduleRequired s else Some s }"

definition setThreadState :: "ptr \<Rightarrow> tstype \<Rightarrow> kstate \<Rightarrow> kstate option" where
  "setThreadState tptr ts s =
     do { s \<leftarrow> tcb_upd tptr (tcbState_update (tsType_update (\<lambda>_. ts))) s; scheduleTCB tptr s }"

definition switchToThread :: "ptr \<Rightarrow> kstate \<Rightarrow> kstate option" where
  "switchToThread thread s =
     do { let s = mach (Op_setVMRoot thread) s;
          let s = mach (Op_lazyFPURestore thread) s;
          s \<leftarrow> tcbSchedDequeue thread s;
          Some (s\<lparr>ksCurThread := thread\<rparr>) }"

definition switchToIdleThread :: "kstate \<Rightarrow> kstate option" where
  "switchToIdleThread s =
     do { let s = mach (Op_setVMRoot (ksIdleThread s)) s;
          Some (s\<lparr>ksCurThread := ksIdleThread s\<rparr>) }"

definition chooseThread :: "kstate \<Rightarrow> kstate option" where
  "chooseThread s =
     (let domain = (if numDomains > 1 then ksCurDomain s else 0) in
      if ksReadyQueuesL1Bitmap s (unat domain) \<noteq> 0 then do {
        prio \<leftarrow> getHighestPrio domain s;
        idx \<leftarrow> ready_queues_index domain prio;
        queue \<leftarrow> ready_queue_get idx s;
        let thread = q_head queue;
        k_assert (thread \<noteq> 0);
        t \<leftarrow> tcbs s thread;
        k_assert (isRunnable t);
        switchToThread thread s }
      else switchToIdleThread s)"

definition prepareSetDomain :: "ptr \<Rightarrow> u64 \<Rightarrow> kstate \<Rightarrow> kstate option" where
  "prepareSetDomain tptr domain s =
     (if ksCurDomain s \<noteq> domain then Some (mach (Op_fpuRelease tptr) s) else Some s)"

definition prepareNextDomain :: "kstate \<Rightarrow> kstate" where
  "prepareNextDomain s = mach (Op_switchLocalFpuOwner 0) s"

definition nextDomain :: "kstate \<Rightarrow> kstate" where
  "nextDomain s =
     (let i = ksDomScheduleIdx s + 1; i = (if i \<ge> ksDomScheduleLength then 0 else i) in
      s\<lparr>ksDomScheduleIdx := i, ksWorkUnitsCompleted := 0, ksCurDomain := fst (ksDomSchedule ! i),
        ksDomainTime := snd (ksDomSchedule ! i)\<rparr>)"

definition scheduleChooseNewThread :: "kstate \<Rightarrow> kstate option" where
  "scheduleChooseNewThread s =
     (let s = (if ksDomainTime s = 0 then nextDomain (prepareNextDomain s) else s) in chooseThread s)"

text \<open>The branch of schedule that decides about the candidate of ksSchedulerAction.\<close>

definition schedule_candidate :: "ptr \<Rightarrow> bool \<Rightarrow> kstate \<Rightarrow> kstate option" where
  "schedule_candidate candidate was_runnable s =
     do { c \<leftarrow> tcbs s candidate;
          k_assert (isRunnable c);
          cur \<leftarrow> tcbs s (ksCurThread s);
          let fastfail = (ksCurThread s = ksIdleThread s \<or> tcbPriority c < tcbPriority cur);
          highest \<leftarrow> (if fastfail then isHighestPrio (ksCurDomain s) (tcbPriority c) s else Some True);
          if fastfail \<and> \<not> highest then do {
            s \<leftarrow> tcbSchedEnqueue candidate s;
            scheduleChooseNewThread (s\<lparr>ksSchedulerAction := ChooseNewThread\<rparr>) }
          else if was_runnable \<and> tcbPriority c = tcbPriority cur then do {
            s \<leftarrow> tcbSchedAppend candidate s;
            scheduleChooseNewThread (s\<lparr>ksSchedulerAction := ChooseNewThread\<rparr>) }
          else do {
            k_assert (candidate \<noteq> ksCurThread s);
            switchToThread candidate s } }"

definition schedule :: "kstate \<Rightarrow> kstate option" where
  "schedule s =
     do { s \<leftarrow> (if ksSchedulerAction s \<noteq> ResumeCurrentThread then do {
            cur \<leftarrow> tcbs s (ksCurThread s);
            let was_runnable = isRunnable cur;
            s \<leftarrow> (if was_runnable then tcbSchedEnqueue (ksCurThread s) s else Some s);
            (case ksSchedulerAction s of
               SwitchToThread candidate \<Rightarrow> schedule_candidate candidate was_runnable s
             | _ \<Rightarrow> scheduleChooseNewThread s) }
          else Some s);
          Some (s\<lparr>ksSchedulerAction := ResumeCurrentThread\<rparr>) }"

definition setDomain :: "ptr \<Rightarrow> u64 \<Rightarrow> kstate \<Rightarrow> kstate option" where
  "setDomain tptr domain s =
     do { s \<leftarrow> tcbSchedDequeue tptr s;
          s \<leftarrow> tcb_upd tptr (tcbDomain_update (\<lambda>_. domain)) s;
          t \<leftarrow> tcbs s tptr;
          s \<leftarrow> (if isRunnable t then tcbSchedEnqueue tptr s else Some s);
          if tptr = ksCurThread s then rescheduleRequired s else Some s }"

definition setMCPriority :: "ptr \<Rightarrow> u64 \<Rightarrow> kstate \<Rightarrow> kstate option" where
  "setMCPriority tptr mcp s = tcb_upd tptr (tcbMCP_update (\<lambda>_. mcp)) s"

definition setPriority :: "ptr \<Rightarrow> u64 \<Rightarrow> kstate \<Rightarrow> kstate option" where
  "setPriority tptr prio s =
     do { s \<leftarrow> tcbSchedDequeue tptr s;
          s \<leftarrow> tcb_upd tptr (tcbPriority_update (\<lambda>_. prio)) s;
          t \<leftarrow> tcbs s tptr;
          if isRunnable t then
            (if tptr = ksCurThread s then rescheduleRequired s else possibleSwitchTo tptr s)
          else Some s }"

definition timerTick :: "kstate \<Rightarrow> kstate option" where
  "timerTick s =
     do { cur \<leftarrow> tcbs s (ksCurThread s);
          s \<leftarrow> (if tsType (tcbState cur) = ThreadState_Running then
                 (if tcbTimeSlice cur > 1
                  then tcb_upd (ksCurThread s) (tcbTimeSlice_update (\<lambda>n. n - 1)) s
                  else do {
                    s \<leftarrow> tcb_upd (ksCurThread s) (tcbTimeSlice_update (\<lambda>_. CONFIG_TIME_SLICE)) s;
                    s \<leftarrow> tcbSchedAppend (ksCurThread s) s;
                    rescheduleRequired s })
                else Some s);
          if numDomains > 1 then do {
            let s = s\<lparr>ksDomainTime := ksDomainTime s - 1\<rparr>;
            if ksDomainTime s = 0 then rescheduleRequired s else Some s }
          else Some s }"

text \<open>getRestartPC, setNextPC (src/arch/x86/machine/hardware.c) and updateRestartPC.\<close>

definition setRegister :: "ptr \<Rightarrow> register \<Rightarrow> u64 \<Rightarrow> kstate \<Rightarrow> kstate option" where
  "setRegister thread reg w = tcb_upd thread (tcbContext_update (\<lambda>c. c(reg := w)))"

definition getRegister :: "ptr \<Rightarrow> register \<Rightarrow> kstate \<Rightarrow> u64 option" where
  "getRegister thread reg s = map_option (\<lambda>t. tcbContext t reg) (tcbs s thread)"

definition getRestartPC :: "ptr \<Rightarrow> kstate \<Rightarrow> u64 option" where
  "getRestartPC thread = getRegister thread FaultIP"

definition setNextPC :: "ptr \<Rightarrow> u64 \<Rightarrow> kstate \<Rightarrow> kstate option" where
  "setNextPC thread v = setRegister thread NextIP v"

definition updateRestartPC :: "ptr \<Rightarrow> kstate \<Rightarrow> kstate option" where
  "updateRestartPC tcb s = do { pc \<leftarrow> getRegister tcb NextIP s; setRegister tcb FaultIP pc s }"

definition activateThread :: "kstate \<Rightarrow> kstate option" where
  "activateThread s =
     do { cur \<leftarrow> tcbs s (ksCurThread s);
          (case tsType (tcbState cur) of
             ThreadState_Running \<Rightarrow> Some s
           | ThreadState_Restart \<Rightarrow> do {
               pc \<leftarrow> getRestartPC (ksCurThread s) s;
               s \<leftarrow> setNextPC (ksCurThread s) pc s;
               setThreadState (ksCurThread s) ThreadState_Running s }
           | ThreadState_IdleThreadState \<Rightarrow> Some s
           | _ \<Rightarrow> None) }"

section \<open>The bitmap\<close>

lemma unat_MASK6: "unat (prio AND MASK (of_nat wordRadix) :: u64) = unat prio mod 64"
proof -
  have "MASK (of_nat wordRadix) = (mask 6 :: u64)"
    by (simp add: MASK_def BIT_def wordRadix_def mask_eq_exp_minus_1)
  then have "unat (prio AND MASK (of_nat wordRadix)) = unat (take_bit 6 prio)"
    by (simp add: take_bit_eq_mask)
  also have "\<dots> = take_bit 6 (unat prio)" by (simp add: unsigned_take_bit_eq)
  also have "\<dots> = unat prio mod 64" by (simp add: take_bit_eq_mod)
  finally show ?thesis .
qed

lemma unat_l1index: "unat (prio_to_l1index prio) = unat prio div 64"
  by (simp add: prio_to_l1index_def wordRadix_def unat_drop_bit)

lemma unat_sub_small: "unat (w :: u64) < 4 \<Longrightarrow> unat (3 - w) = 3 - unat w"
  by (subst unat_sub) (simp_all add: word_le_nat_alt)

lemma invert_l1index_small:
  "unat l1 < 4 \<Longrightarrow> invert_l1index l1 = Some (3 - l1)"
  by (subgoal_tac "3 - unat l1 < 4") (simp_all add: invert_l1index_def config_defs word_less_nat_alt unat_sub_small)

lemma bit_or_BIT: "i < 64 \<Longrightarrow> unat n < 64 \<Longrightarrow> bit (x OR BIT n) i \<longleftrightarrow> bit x i \<or> i = unat n"
  by (auto simp: BIT_def bit_or_iff bit_exp_iff possible_bit_def)

lemma bit_and_not_BIT: "i < 64 \<Longrightarrow> unat n < 64 \<Longrightarrow> bit (x AND NOT (BIT n)) i \<longleftrightarrow> bit x i \<and> i \<noteq> unat n"
  by (auto simp: BIT_def bit_and_iff bit_not_iff bit_exp_iff possible_bit_def)

text \<open>The bitmap of domain 0 represents a predicate on priorities.\<close>

definition bitmap_ok :: "(nat \<Rightarrow> bool) \<Rightarrow> kstate \<Rightarrow> bool" where
  "bitmap_ok P s \<longleftrightarrow>
     (\<forall>i < 64. bit (ksReadyQueuesL1Bitmap s 0) i \<longleftrightarrow> i < 4 \<and> ksReadyQueuesL2Bitmap s 0 (3 - i) \<noteq> 0)
   \<and> (\<forall>i < 4. \<forall>j < 64. bit (ksReadyQueuesL2Bitmap s 0 (3 - i)) j \<longleftrightarrow> P (64 * i + j))"

lemma u64_zero_iff: "(x :: u64) = 0 \<longleftrightarrow> (\<forall>i < 64. \<not> bit x i)"
  by (auto simp: bit_eq_iff possible_bit_def)

text \<open>Setting and clearing one priority, as an update of the two levels by index.\<close>

definition l12_set :: "kstate \<Rightarrow> u64 \<Rightarrow> nat \<Rightarrow> u64 \<Rightarrow> kstate" where
  "l12_set s l1 i l2 = s\<lparr>ksReadyQueuesL1Bitmap := (ksReadyQueuesL1Bitmap s)(0 := l1),
     ksReadyQueuesL2Bitmap := (ksReadyQueuesL2Bitmap s)(0 := (ksReadyQueuesL2Bitmap s 0)(i := l2))\<rparr>"

lemma l12_set_ok:
  assumes ok: "bitmap_ok P s" and a: "a < 4" and b: "b < 64"
    and l1: "\<And>i. i < 64 \<Longrightarrow> i \<noteq> a \<Longrightarrow> bit l1 i = bit (ksReadyQueuesL1Bitmap s 0) i"
    and l1a: "bit l1 a \<longleftrightarrow> l2 \<noteq> 0"
    and l2: "\<And>j. j < 64 \<Longrightarrow> bit l2 j = (if j = b then v else bit (ksReadyQueuesL2Bitmap s 0 (3 - a)) j)"
  shows "bitmap_ok (P(64 * a + b := v)) (l12_set s l1 (3 - a) l2)"
proof -
  have eq: "3 - i = 3 - a \<longleftrightarrow> i = a" if "i < 4" for i using that a by auto
  have key: "64 * i + j = 64 * a + b \<longleftrightarrow> i = a \<and> j = b" if "j < 64" for i j using that b by (cases i a rule: linorder_cases) auto
  have 1: "bit l1 i \<longleftrightarrow> i < 4 \<and> (if i = a then l2 else ksReadyQueuesL2Bitmap s 0 (3 - i)) \<noteq> 0" if "i < 64" for i
    using l1 [OF that] l1a a ok that by (auto simp: bitmap_ok_def)
  have 2: "bit (if i = a then l2 else ksReadyQueuesL2Bitmap s 0 (3 - i)) j \<longleftrightarrow> (P(64 * a + b := v)) (64 * i + j)"
    if "i < 4" "j < 64" for i j
    using l2 [OF that(2)] ok that a by (auto simp: bitmap_ok_def key)
  show ?thesis
    unfolding bitmap_ok_def
  proof (intro conjI allI impI)
    fix i :: nat assume "i < 64"
    then show "bit (ksReadyQueuesL1Bitmap (l12_set s l1 (3 - a) l2) 0) i \<longleftrightarrow>
        i < 4 \<and> ksReadyQueuesL2Bitmap (l12_set s l1 (3 - a) l2) 0 (3 - i) \<noteq> 0"
      using 1 [of i] eq [of i] by (cases "i < 4") (auto simp: l12_set_def)
  qed (use 2 eq in \<open>simp add: l12_set_def\<close>)
qed

lemma prio_parts:
  assumes "unat prio < 256"
  shows "unat (prio_to_l1index prio) < 4" "unat (prio AND MASK (of_nat wordRadix)) < 64"
    and "invert_l1index (prio_to_l1index prio) = Some (3 - prio_to_l1index prio)"
    and "unat (3 - prio_to_l1index prio) = 3 - unat (prio_to_l1index prio)"
    and "64 * unat (prio_to_l1index prio) + unat (prio AND MASK (of_nat wordRadix)) = unat prio"
  using assms by (simp_all add: unat_l1index unat_MASK6 invert_l1index_small unat_sub_small)

lemma addToBitmap_ok:
  assumes ok: "bitmap_ok P s" and p: "unat prio < 256"
  shows "\<exists>l1 i l2. addToBitmap 0 prio s = Some (l12_set s l1 i l2)
    \<and> bitmap_ok (P(unat prio := True)) (l12_set s l1 i l2)"
proof -
  note pp = prio_parts [OF p]
  let ?l1 = "ksReadyQueuesL1Bitmap s 0 OR BIT (prio_to_l1index prio)" and ?i = "3 - unat (prio_to_l1index prio)"
  let ?l2 = "ksReadyQueuesL2Bitmap s 0 ?i OR BIT (prio AND MASK (of_nat wordRadix))"
  have "addToBitmap 0 prio s = Some (l12_set s ?l1 ?i ?l2)"
    by (simp add: addToBitmap_def pp(3,4) l12_set_def Let_def)
  moreover have "bit ?l2 (unat (prio AND MASK (of_nat wordRadix)))" using pp(2) by (simp add: bit_or_BIT)
  then have "?l2 \<noteq> 0" by auto
  then have "bitmap_ok (P(64 * unat (prio_to_l1index prio) + unat (prio AND MASK (of_nat wordRadix)) := True))
      (l12_set s ?l1 ?i ?l2)"
    by (intro l12_set_ok [OF ok pp(1,2)]) (use pp(1,2) in \<open>auto simp: bit_or_BIT\<close>)
  ultimately show ?thesis unfolding pp(5) by blast
qed

lemma removeFromBitmap_ok:
  assumes ok: "bitmap_ok P s" and p: "unat prio < 256"
  shows "\<exists>l1 i l2. removeFromBitmap 0 prio s = Some (l12_set s l1 i l2)
    \<and> bitmap_ok (P(unat prio := False)) (l12_set s l1 i l2)"
proof -
  note pp = prio_parts [OF p]
  let ?i = "3 - unat (prio_to_l1index prio)"
  let ?l2 = "ksReadyQueuesL2Bitmap s 0 ?i AND NOT (BIT (prio AND MASK (of_nat wordRadix)))"
  let ?l1 = "if ?l2 = 0 then ksReadyQueuesL1Bitmap s 0 AND NOT (BIT (prio_to_l1index prio)) else ksReadyQueuesL1Bitmap s 0"
  have "removeFromBitmap 0 prio s = Some (l12_set s ?l1 ?i ?l2)"
    by (simp add: removeFromBitmap_def pp(3,4) l12_set_def Let_def)
  moreover have "bit (ksReadyQueuesL1Bitmap s 0) (unat (prio_to_l1index prio))" if "?l2 \<noteq> 0"
    using that ok pp(1) by (auto simp: bitmap_ok_def)
  then have "bitmap_ok (P(64 * unat (prio_to_l1index prio) + unat (prio AND MASK (of_nat wordRadix)) := False))
      (l12_set s ?l1 ?i ?l2)"
    by (intro l12_set_ok [OF ok pp(1,2)]) (use pp(1,2) in \<open>auto simp: bit_and_not_BIT\<close>)
  ultimately show ?thesis unfolding pp(5) by blast
qed

text \<open>The position clzl finds is the top bit.\<close>

lemma clzl_top:
  assumes "x \<noteq> 0"
  shows "\<exists>c < 64. wordBits - 1 - clzl x = of_nat c \<and> bit x c \<and> (\<forall>j < 64. c < j \<longrightarrow> \<not> bit x j)"
proof -
  obtain c where c: "c < 64" "unat (clz64 x) = 63 - c" "2 ^ c \<le> unat x" "unat x < 2 ^ Suc c"
    using clz64_range [OF assms] by blast
  have "clzl x = of_nat (63 - c)"
    by (simp add: clzl_def flip: c(2))
  then have 1: "wordBits - 1 - clzl x = of_nat c" using c(1) by (simp add: wordBits_def of_nat_diff)
  have bit: "bit x j \<longleftrightarrow> odd (unat x div 2 ^ j)" for j
    by (simp add: bit_unsigned_iff flip: bit_iff_odd)
  have "unat x div 2 ^ c = 1" using c(3,4) by (simp add: div_nat_eqI)
  moreover have "unat x div 2 ^ j = 0" if "c < j" for j
  proof -
    have "(2 :: nat) ^ Suc c \<le> 2 ^ j" using that by (intro power_increasing) auto
    then show ?thesis using c(4) by simp
  qed
  ultimately show ?thesis using 1 c(1) bit by (intro exI [of _ c]) simp
qed

lemma join_prio:
  assumes "a < 4" "b < 64"
  shows "l1index_to_prio (of_nat a) OR of_nat b = (of_nat (64 * a + b) :: u64)"
proof -
  have "push_bit 6 (of_nat a) AND (of_nat b :: u64) = 0"
  proof (rule bit_eqI)
    fix n assume "possible_bit TYPE(64 word) n"
    have "\<not> bit b n" if "6 \<le> n"
    proof -
      have "(2 :: nat) ^ 6 \<le> 2 ^ n" using that by (intro power_increasing) auto
      then show ?thesis using assms(2) by (simp add: bit_iff_odd)
    qed
    then show "bit (push_bit 6 (of_nat a) AND (of_nat b :: u64)) n \<longleftrightarrow> bit (0 :: u64) n"
      by (auto simp: bit_and_iff bit_push_bit_iff bit_of_nat_iff)
  qed
  then have "push_bit 6 (of_nat a) OR (of_nat b :: u64) = push_bit 6 (of_nat a) + of_nat b"
    by (simp add: disjunctive_add_eq_or)
  then show ?thesis by (simp add: l1index_to_prio_def wordRadix_def push_bit_eq_mult)
qed

lemma getHighestPrio_max:
  assumes ok: "bitmap_ok P s" and ne: "ksReadyQueuesL1Bitmap s 0 \<noteq> 0"
  shows "\<exists>p < 256. getHighestPrio 0 s = Some (of_nat p) \<and> P p \<and> (\<forall>q < 256. p < q \<longrightarrow> \<not> P q)"
proof -
  let ?L1 = "ksReadyQueuesL1Bitmap s 0"
  obtain a where a: "a < 64" "wordBits - 1 - clzl ?L1 = of_nat a" "bit ?L1 a" "\<forall>j < 64. a < j \<longrightarrow> \<not> bit ?L1 j"
    using clzl_top [OF ne] by blast
  then have a4: "a < 4" and l2: "ksReadyQueuesL2Bitmap s 0 (3 - a) \<noteq> 0" using ok by (auto simp: bitmap_ok_def)
  let ?L2 = "ksReadyQueuesL2Bitmap s 0 (3 - a)"
  obtain b where b: "b < 64" "wordBits - 1 - clzl ?L2 = of_nat b" "bit ?L2 b" "\<forall>j < 64. b < j \<longrightarrow> \<not> bit ?L2 j"
    using clzl_top [OF l2] by blast
  have ua: "unat (of_nat a :: u64) = a" using a4 by (simp add: unat_of_nat)
  then have "unat (3 - of_nat a :: u64) = 3 - a" using a4 by (simp add: unat_sub_small)
  then have run: "getHighestPrio 0 s = Some (of_nat (64 * a + b))"
    using ne l2 a(2) b(2) ua a4
    by (simp add: getHighestPrio_def invert_l1index_small join_prio [OF a4 b(1)] Let_def)
  have P: "P (64 * i + j) \<longleftrightarrow> bit (ksReadyQueuesL2Bitmap s 0 (3 - i)) j" if "i < 4" "j < 64" for i j
    using ok that by (simp add: bitmap_ok_def)
  have "\<not> P q" if q: "q < 256" "64 * a + b < q" for q
  proof -
    define i j where "i = q div 64" and "j = q mod 64"
    have ij: "i < 4" "j < 64" "q = 64 * i + j" using q(1) by (auto simp: i_def j_def)
    have "a < i \<or> a = i \<and> b < j" using q(2) ij b(1) by (cases a i rule: linorder_cases) auto
    then have "\<not> bit (ksReadyQueuesL2Bitmap s 0 (3 - i)) j"
    proof
      assume "a < i"
      then have "\<not> bit ?L1 i" using a(4) ij by auto
      then have "ksReadyQueuesL2Bitmap s 0 (3 - i) = 0" using ok ij by (auto simp: bitmap_ok_def)
      then show ?thesis by simp
    qed (use b(4) ij in auto)
    then show ?thesis using P [OF ij(1,2)] ij(3) by simp
  qed
  moreover have "P (64 * a + b)" using P [OF a4 b(1)] b(3) by simp
  moreover have "64 * a + b < 256" using a4 b(1) by simp
  ultimately show ?thesis using run by blast
qed

lemma bitmap_empty: "bitmap_ok P s \<Longrightarrow> ksReadyQueuesL1Bitmap s 0 = 0 \<longleftrightarrow> (\<forall>p < 256. \<not> P p)"
proof -
  assume ok: "bitmap_ok P s"
  have "(\<exists>i < 64. bit (ksReadyQueuesL1Bitmap s 0) i) \<longleftrightarrow> (\<exists>p < 256. P p)" (is "?l \<longleftrightarrow> ?r")
  proof
    assume ?l
    then have "ksReadyQueuesL1Bitmap s 0 \<noteq> 0" by auto
    then show ?r using getHighestPrio_max [OF ok] by blast
  next
    assume ?r
    then obtain p where p: "p < 256" "P (64 * (p div 64) + p mod 64)" by auto
    then have lt: "p div 64 < 4" "p mod 64 < 64" by auto
    have "bit (ksReadyQueuesL2Bitmap s 0 (3 - p div 64)) (p mod 64)"
      using ok p(2) lt unfolding bitmap_ok_def by blast
    then have "ksReadyQueuesL2Bitmap s 0 (3 - p div 64) \<noteq> 0" by auto
    with ok lt(1) show ?l by (intro exI [of _ "p div 64"]) (simp add: bitmap_ok_def)
  qed
  then show ?thesis by (auto simp: u64_zero_iff)
qed

section \<open>The ready queues\<close>

text \<open>A thread is in the queue of its priority exactly if its tcbQueued flag is set, and in no
  other; a thread outside the queues has no scheduler links.\<close>

definition thread_ok :: "(nat \<Rightarrow> ptr list) \<Rightarrow> ptr \<Rightarrow> tcb \<Rightarrow> bool" where
  "thread_ok Q x t \<longleftrightarrow> tcbDomain t = 0 \<and> unat (tcbPriority t) < 256
     \<and> (\<forall>p < 256. x \<in> set (Q p) \<longleftrightarrow> tcbQueued (tcbState t) \<and> p = unat (tcbPriority t))
     \<and> (tcbQueued (tcbState t) \<or> tcbSchedNext t = 0 \<and> tcbSchedPrev t = 0)"

definition queues_ok :: "(nat \<Rightarrow> ptr list) \<Rightarrow> tcb_heap \<Rightarrow> (nat \<Rightarrow> tcb_queue) \<Rightarrow> bool" where
  "queues_ok Q h rq \<longleftrightarrow> h 0 = None \<and> (\<forall>p < 256. sched_queue h (rq p) (Q p))
     \<and> (\<forall>x t. h x = Some t \<longrightarrow> thread_ok Q x t)"

definition ready_inv :: "(nat \<Rightarrow> ptr list) \<Rightarrow> kstate \<Rightarrow> bool" where
  "ready_inv Q s \<longleftrightarrow> queues_ok Q (tcbs s) (ksReadyQueues s) \<and> bitmap_ok (\<lambda>p. Q p \<noteq> []) s"

abbreviation queued_upd :: "bool \<Rightarrow> tcb \<Rightarrow> tcb" where
  "queued_upd b \<equiv> tcbState_update (tcbQueued_update (\<lambda>_. b))"

lemma sched_queue_cong:
  assumes "\<And>x. x \<in> set ts \<Longrightarrow>
    map_option (\<lambda>t. (tcbSchedNext t, tcbSchedPrev t)) (h x) = map_option (\<lambda>t. (tcbSchedNext t, tcbSchedPrev t)) (h' x)"
  shows "sched_queue h q ts \<longleftrightarrow> sched_queue h' q ts"
  using dll_cong [OF assms] by (simp add: sched_queue_def)

lemma eq_but_Some:
  assumes "eq_but clear_sched h h'" and "h' x = Some t'"
  obtains t where "h x = Some t" "clear_sched t = clear_sched t'"
  using assms unfolding eq_but_def by (metis map_option_eq_Some)

lemma eq_but_Some':
  assumes "eq_but clear_sched h h'" and "h x = Some t"
  obtains t' where "h' x = Some t'" "clear_sched t = clear_sched t'"
  using assms unfolding eq_but_def by (metis map_option_eq_Some)

lemma clear_sched_fields:
  assumes "clear_sched t = clear_sched t'"
  shows "tcbDomain t = tcbDomain t'" "tcbPriority t = tcbPriority t'" "tcbState t = tcbState t'"
  using assms by (cases t; cases t'; simp add: clear_sched_def)+

lemma queues_ok_elem:
  assumes "queues_ok Q h rq" "p < 256" "x \<in> set (Q p)"
  obtains t where "h x = Some t" "tcbQueued (tcbState t)" "unat (tcbPriority t) = p" "x \<noteq> 0"
proof -
  have "dll tcbSchedNext tcbSchedPrev h (Q p)" using assms by (simp add: queues_ok_def sched_queue_def)
  from dll_dom [OF this assms(3)] obtain t where t: "h x = Some t" by blast
  with assms have "thread_ok Q x t" "h 0 = None" by (auto simp: queues_ok_def)
  with assms(2,3) t show ?thesis by (intro that [of t]) (auto simp: thread_ok_def)
qed

lemma queues_ok_change:
  assumes ok: "queues_ok Q h rq" and t: "h tcb = Some t" and k: "k = unat (tcbPriority t)"
    and q': "sched_queue h' q' ts'" and st: "set ts' - {tcb} = set (Q k) - {tcb}" "b \<longleftrightarrow> tcb \<in> set ts'"
    and eq: "eq_but clear_sched h h'" and fr: "\<And>x. x \<notin> insert tcb (set (Q k)) \<Longrightarrow> h' x = h x"
    and t': "h' tcb = Some t'" "b \<or> tcbSchedNext t' = 0 \<and> tcbSchedPrev t' = 0"
  shows "queues_ok (Q(k := ts')) (h'(tcb \<mapsto> queued_upd b t')) (rq(k := q'))"
proof -
  let ?h = "h'(tcb \<mapsto> queued_upd b t')"
  have k256: "k < 256" using ok t k by (auto simp: queues_ok_def thread_ok_def)
  have links: "map_option (\<lambda>t. (tcbSchedNext t, tcbSchedPrev t)) (?h x)
      = map_option (\<lambda>t. (tcbSchedNext t, tcbSchedPrev t)) (h' x)" for x
    using t'(1) by simp
  have other: "h' x = h x \<and> x \<noteq> tcb" if x: "p < 256" "p \<noteq> k" "x \<in> set (Q p)" for x p
  proof -
    obtain tx where tx: "h x = Some tx" "unat (tcbPriority tx) = p" by (rule queues_ok_elem [OF ok x(1,3)])
    then have "x \<noteq> tcb" using t k x(2) by auto
    moreover have "x \<notin> set (Q k)"
      using queues_ok_elem [OF ok k256, of x] tx x(2) by (metis option.inject)
    ultimately show ?thesis using fr [of x] by auto
  qed
  have "sched_queue ?h ((rq(k := q')) p) ((Q(k := ts')) p)" if p: "p < 256" for p
  proof (cases "p = k")
    case True
    then show ?thesis using q' sched_queue_cong [of ts' ?h h' q'] links by simp
  next
    case False
    have "sched_queue ?h (rq p) (Q p) \<longleftrightarrow> sched_queue h (rq p) (Q p)"
      using other [OF p False] by (intro sched_queue_cong) simp
    then show ?thesis using ok p False by (simp add: queues_ok_def)
  qed
  moreover have "thread_ok (Q(k := ts')) x u" if u: "?h x = Some u" for x u
  proof (cases "x = tcb")
    case True
    obtain t0 where t0: "h tcb = Some t0" "clear_sched t0 = clear_sched t'" by (rule eq_but_Some [OF eq t'(1)])
    have fields: "tcbDomain t' = tcbDomain t" "tcbPriority t' = tcbPriority t"
      using clear_sched_fields [OF t0(2)] t0(1) t by auto
    have "thread_ok Q tcb t" using ok t by (simp add: queues_ok_def)
    then have "tcb \<in> set ((Q(k := ts')) p) \<longleftrightarrow> b \<and> p = k" if "p < 256" for p
      using that k st(2) by (simp add: thread_ok_def)
    then show ?thesis using \<open>thread_ok Q tcb t\<close> True u fields k t'(2) by (auto simp: thread_ok_def)
  next
    case False
    then obtain u0 where u0: "h x = Some u0" "clear_sched u0 = clear_sched u"
      using u by (auto elim: eq_but_Some [OF eq])
    have ok0: "thread_ok Q x u0" using ok u0 by (simp add: queues_ok_def)
    have unl: "tcbSchedNext u = 0 \<and> tcbSchedPrev u = 0" if "\<not> tcbQueued (tcbState u)"
    proof -
      have nq: "\<not> tcbQueued (tcbState u0)" using that clear_sched_fields [OF u0(2)] by simp
      then have "x \<notin> set (Q k)" using ok0 k256 by (simp add: thread_ok_def)
      then have "u = u0" using fr [of x] False u u0(1) by simp
      then show ?thesis using ok0 nq by (simp add: thread_ok_def)
    qed
    have "x \<in> set ts' \<longleftrightarrow> x \<in> set (Q k)" using st(1) False by blast
    then have "x \<in> set ((Q(k := ts')) p) \<longleftrightarrow> x \<in> set (Q p)" for p by simp
    then show ?thesis using ok0 clear_sched_fields [OF u0(2)] unl unfolding thread_ok_def by metis
  qed
  moreover have "?h 0 = None"
  proof -
    have "h 0 = None" using ok by (simp add: queues_ok_def)
    then have "h' 0 = None" using eq_but_Some [OF eq, of 0] by fastforce
    then show ?thesis using t'(1) by auto
  qed
  ultimately show ?thesis by (simp add: queues_ok_def)
qed

text \<open>What the queue operations may change: the scheduler links, the queued flag, the queues and
  the bitmap.\<close>

definition clear_q :: "tcb \<Rightarrow> tcb" where
  "clear_q t = queued_upd False (clear_sched t)"

definition sched_only :: "kstate \<Rightarrow> kstate \<Rightarrow> bool" where
  "sched_only s s' \<longleftrightarrow> eq_but clear_q (tcbs s) (tcbs s') \<and>
     s' = s\<lparr>tcbs := tcbs s', ksReadyQueues := ksReadyQueues s', ksReadyQueuesL1Bitmap := ksReadyQueuesL1Bitmap s',
            ksReadyQueuesL2Bitmap := ksReadyQueuesL2Bitmap s'\<rparr>"

lemma sched_only_refl [simp]: "sched_only s s"
  by (simp add: sched_only_def)

lemma sched_only_trans: "sched_only s s' \<Longrightarrow> sched_only s' s'' \<Longrightarrow> sched_only s s''"
  unfolding sched_only_def
  by (elim conjE, intro conjI, erule (1) eq_but_trans) (cases s; cases s'; cases s''; simp)

lemma sched_only_fields:
  assumes "sched_only s s'"
  shows "ksCurThread s' = ksCurThread s" "ksIdleThread s' = ksIdleThread s" "ksCurDomain s' = ksCurDomain s"
    "ksSchedulerAction s' = ksSchedulerAction s" "ksDomainTime s' = ksDomainTime s" "eps s' = eps s"
    "ntfns s' = ntfns s" "ctes s' = ctes s"
  using assms unfolding sched_only_def by (cases s; cases s'; simp)+

lemma clear_q_fields:
  assumes "clear_q t = clear_q t'"
  shows "tcbDomain t = tcbDomain t'" "tcbPriority t = tcbPriority t'" "tsType (tcbState t) = tsType (tcbState t')"
    and "tcbContext t = tcbContext t'" "tcbEPNext t = tcbEPNext t'" "tcbEPPrev t = tcbEPPrev t'"
    and "blockingObject (tcbState t) = blockingObject (tcbState t')" "tcbBoundNotification t = tcbBoundNotification t'"
    and "isRunnable t = isRunnable t'"
  using assms unfolding clear_q_def clear_sched_def isRunnable_def
  by (cases t; cases t'; cases "tcbState t"; cases "tcbState t'"; simp)+

lemma sched_only_tcb:
  assumes "sched_only s s'" and "tcbs s x = Some t"
  obtains t' where "tcbs s' x = Some t'" "clear_q t = clear_q t'"
  using assms unfolding sched_only_def eq_but_def by (metis map_option_eq_Some)

lemma eq_but_q:
  assumes "eq_but clear_sched h h'" and "h' x = Some t"
  shows "eq_but clear_q h (h'(x \<mapsto> queued_upd b t))"
proof -
  have "clear_q (queued_upd b t) = clear_q t" by (simp add: clear_q_def clear_sched_def)
  moreover have "map_option clear_q (h y) = map_option clear_q (h' y)" for y
  proof -
    have "map_option (queued_upd False) (map_option clear_sched (h y))
        = map_option (queued_upd False) (map_option clear_sched (h' y))"
      using assms(1) by (simp add: eq_but_def)
    then show ?thesis by (simp add: option.map_comp clear_q_def [abs_def] comp_def)
  qed
  ultimately show ?thesis using assms(2) by (simp add: eq_but_def)
qed

lemma Q_upd_nonempty: "(\<lambda>p. (Q(k := ts)) p \<noteq> []) = (\<lambda>p. Q p \<noteq> [])(k := ts \<noteq> [])"
  by auto

lemma bitmap_upd_same: "P k = v \<Longrightarrow> P(k := v) = P"
  by auto

text \<open>Both insertions update the bitmap if the queue was empty, link the thread and set its flag.\<close>

lemma insert_bitmap:
  assumes inv: "ready_inv Q s" and p: "unat prio < 256" and q: "queue = ksReadyQueues s (unat prio)" and ts: "ts \<noteq> []"
  shows "\<exists>l1 i l2. (if tcb_queue_empty queue then addToBitmap 0 prio s else Some s) = Some (l12_set s l1 i l2)
    \<and> bitmap_ok (\<lambda>p. (Q(unat prio := ts)) p \<noteq> []) (l12_set s l1 i l2)"
proof (cases "tcb_queue_empty queue")
  case True
  have "bitmap_ok (\<lambda>p. Q p \<noteq> []) s" using inv by (simp add: ready_inv_def)
  from addToBitmap_ok [OF this p] True ts show ?thesis by (simp only: Q_upd_nonempty if_True simp_thms)
next
  case False
  have "sched_queue (tcbs s) queue (Q (unat prio))" using inv p q by (simp add: ready_inv_def queues_ok_def)
  then have "Q (unat prio) \<noteq> []" using False by (auto simp: tcb_queue_empty_def sched_queue_def)
  then have "(\<lambda>p. (Q(unat prio := ts)) p \<noteq> []) = (\<lambda>p. Q p \<noteq> [])" using ts by auto
  moreover have "l12_set s (ksReadyQueuesL1Bitmap s 0) 0 (ksReadyQueuesL2Bitmap s 0 0) = s"
    by (simp add: l12_set_def)
  ultimately show ?thesis using inv False by (metis ready_inv_def)
qed

lemma l12_set_simps [simp]:
  "tcbs (l12_set s a i b) = tcbs s" "ksReadyQueues (l12_set s a i b) = ksReadyQueues s"
  by (simp_all add: l12_set_def)

lemma bitmap_ok_cong:
  "ksReadyQueuesL1Bitmap s = ksReadyQueuesL1Bitmap s' \<Longrightarrow> ksReadyQueuesL2Bitmap s = ksReadyQueuesL2Bitmap s'
    \<Longrightarrow> bitmap_ok P s = bitmap_ok P s'"
  by (simp add: bitmap_ok_def)

lemma ready_insert:
  assumes inv: "ready_inv Q s" and t: "tcbs s tcb = Some t" "\<not> tcbQueued (tcbState t)" and k: "k = unat (tcbPriority t)"
    and st: "set ts = insert tcb (set (Q k))"
    and q': "sched_queue h' q' ts" "eq_but clear_sched (tcbs s) h'" "\<forall>x. x \<notin> set ts \<longrightarrow> h' x = tcbs s x"
    and bm: "bitmap_ok (\<lambda>p. (Q(k := ts)) p \<noteq> []) (l12_set s l1 i l2)"
  shows "\<exists>s'. do { s \<leftarrow> ready_queue_set (tcbPriority t) q' ((l12_set s l1 i l2)\<lparr>tcbs := h'\<rparr>); set_tcbQueued tcb True s } = Some s'
    \<and> ready_inv (Q(k := ts)) s' \<and> sched_only s s'"
proof -
  have ok: "queues_ok Q (tcbs s) (ksReadyQueues s)" using inv by (simp add: ready_inv_def)
  then have k256: "k < 256" using t k by (auto simp: queues_ok_def thread_ok_def)
  obtain t' where t': "h' tcb = Some t'" by (rule eq_but_Some' [OF q'(2) t(1)])
  let ?s = "(l12_set s l1 i l2)\<lparr>tcbs := h'(tcb \<mapsto> queued_upd True t'), ksReadyQueues := (ksReadyQueues s)(k := q')\<rparr>"
  have "queues_ok (Q(k := ts)) (h'(tcb \<mapsto> queued_upd True t')) ((ksReadyQueues s)(k := q'))"
    using st q'(3) t' by (intro queues_ok_change [OF ok t(1) k q'(1) _ _ q'(2)]) auto
  moreover have "bitmap_ok (\<lambda>p. (Q(k := ts)) p \<noteq> []) ?s"
    using bm by (subst bitmap_ok_cong [of _ "l12_set s l1 i l2"]) simp_all
  ultimately have "ready_inv (Q(k := ts)) ?s" by (simp add: ready_inv_def)
  moreover have "sched_only s ?s"
    using eq_but_q [OF q'(2) t', of True] by (simp add: sched_only_def l12_set_def)
  moreover have "do { s \<leftarrow> ready_queue_set (tcbPriority t) q' ((l12_set s l1 i l2)\<lparr>tcbs := h'\<rparr>); set_tcbQueued tcb True s } = Some ?s"
    using k256 k t' by (simp add: ready_queue_set_def set_tcbQueued_def tcb_upd_def config_defs)
  ultimately show ?thesis by blast
qed

lemma ready_start:
  assumes inv: "ready_inv Q s" and t: "tcbs s tcb = Some t"
  shows "tcbDomain t = 0" "unat (tcbPriority t) < 256" "ready_queues_index 0 (tcbPriority t) = Some (tcbPriority t)"
    "ready_queue_get (tcbPriority t) s = Some (ksReadyQueues s (unat (tcbPriority t)))"
    "sched_queue (tcbs s) (ksReadyQueues s (unat (tcbPriority t))) (Q (unat (tcbPriority t)))"
    "tcb \<in> set (Q (unat (tcbPriority t))) \<longleftrightarrow> tcbQueued (tcbState t)" "tcb \<noteq> 0"
    "\<not> tcbQueued (tcbState t) \<Longrightarrow> sched_unlinked (tcbs s) tcb"
proof -
  have ok: "thread_ok Q tcb t" using assms by (simp add: ready_inv_def queues_ok_def)
  then show "tcbDomain t = 0" "unat (tcbPriority t) < 256" by (simp_all add: thread_ok_def)
  then show "ready_queues_index 0 (tcbPriority t) = Some (tcbPriority t)"
    "ready_queue_get (tcbPriority t) s = Some (ksReadyQueues s (unat (tcbPriority t)))"
    "sched_queue (tcbs s) (ksReadyQueues s (unat (tcbPriority t))) (Q (unat (tcbPriority t)))"
    using inv by (simp_all add: ready_queues_index_def ready_queue_get_def config_defs ready_inv_def queues_ok_def)
  show "tcb \<in> set (Q (unat (tcbPriority t))) \<longleftrightarrow> tcbQueued (tcbState t)" using ok by (simp add: thread_ok_def)
  show "tcb \<noteq> 0" using inv t by (auto simp: ready_inv_def queues_ok_def)
  show "\<not> tcbQueued (tcbState t) \<Longrightarrow> sched_unlinked (tcbs s) tcb"
    using ok t by (auto simp: thread_ok_def sched_unlinked_def)
qed

definition enq :: "(ptr \<Rightarrow> ptr list \<Rightarrow> ptr list) \<Rightarrow> ptr \<Rightarrow> tcb \<Rightarrow> (nat \<Rightarrow> ptr list) \<Rightarrow> nat \<Rightarrow> ptr list" where
  "enq f tcb t Q = (if tcbQueued (tcbState t) then Q
     else Q(unat (tcbPriority t) := f tcb (Q (unat (tcbPriority t)))))"

lemma tcbSchedEnqueue_refines:
  assumes inv: "ready_inv Q s" and t: "tcbs s tcb = Some t"
  shows "\<exists>s'. tcbSchedEnqueue tcb s = Some s' \<and> ready_inv (enq (#) tcb t Q) s' \<and> sched_only s s'"
proof (cases "tcbQueued (tcbState t)")
  case True
  then show ?thesis using assms by (simp add: tcbSchedEnqueue_def enq_def)
next
  case False
  note st = ready_start [OF inv t]
  let ?k = "unat (tcbPriority t)" let ?ts = "tcb # Q ?k"
  obtain l1 i l2 where bm: "(if tcb_queue_empty (ksReadyQueues s ?k) then addToBitmap 0 (tcbPriority t) s else Some s)
      = Some (l12_set s l1 i l2)" "bitmap_ok (\<lambda>p. (Q(?k := ?ts)) p \<noteq> []) (l12_set s l1 i l2)"
    using insert_bitmap [OF inv st(2) refl, of ?ts] by auto
  obtain q' h' where q': "tcb_queue_prepend (ksReadyQueues s ?k) tcb (tcbs s) = Some (q', h')" "sched_queue h' q' ?ts"
      "eq_but clear_sched (tcbs s) h'" "\<forall>x. x \<notin> set ?ts \<longrightarrow> h' x = tcbs s x"
    using prepend_refines [OF st(5) _ st(7) st(8) [OF False]] st(6) False by auto
  from ready_insert [OF inv t False refl _ q'(2,3,4) bm(2)] show ?thesis
    using False t by (simp add: tcbSchedEnqueue_def st(1,3,4) bm(1) q'(1) enq_def)
qed

lemma tcbSchedAppend_refines:
  assumes inv: "ready_inv Q s" and t: "tcbs s tcb = Some t"
  shows "\<exists>s'. tcbSchedAppend tcb s = Some s' \<and> ready_inv (enq (\<lambda>x xs. xs @ [x]) tcb t Q) s' \<and> sched_only s s'"
proof (cases "tcbQueued (tcbState t)")
  case True
  then show ?thesis using assms by (simp add: tcbSchedAppend_def enq_def)
next
  case False
  note st = ready_start [OF inv t]
  let ?k = "unat (tcbPriority t)" let ?ts = "Q ?k @ [tcb]"
  obtain l1 i l2 where bm: "(if tcb_queue_empty (ksReadyQueues s ?k) then addToBitmap 0 (tcbPriority t) s else Some s)
      = Some (l12_set s l1 i l2)" "bitmap_ok (\<lambda>p. (Q(?k := ?ts)) p \<noteq> []) (l12_set s l1 i l2)"
    using insert_bitmap [OF inv st(2) refl, of ?ts] by auto
  obtain q' h' where q': "tcb_queue_append (ksReadyQueues s ?k) tcb (tcbs s) = Some (q', h')" "sched_queue h' q' ?ts"
      "eq_but clear_sched (tcbs s) h'" "\<forall>x. x \<notin> set ?ts \<longrightarrow> h' x = tcbs s x"
    using append_refines [OF st(5) _ st(7) st(8) [OF False]] st(6) False by auto
  from ready_insert [OF inv t False refl _ q'(2,3,4) bm(2)] show ?thesis
    using False t by (simp add: tcbSchedAppend_def st(1,3,4) bm(1) q'(1) enq_def)
qed

definition deq :: "ptr \<Rightarrow> (nat \<Rightarrow> ptr list) \<Rightarrow> nat \<Rightarrow> ptr list" where
  "deq tcb Q = (\<lambda>p. remove1 tcb (Q p))"

lemma deq_id: "(\<And>p. tcb \<notin> set (Q p)) \<Longrightarrow> deq tcb Q = Q"
  by (auto simp: deq_def remove1_idem)

lemma remove_bitmap:
  assumes bm: "bitmap_ok (\<lambda>p. Q p \<noteq> []) s" and p: "unat prio < 256" and k: "k = unat prio" and ne: "Q k \<noteq> []"
    and e: "e \<longleftrightarrow> ts = []"
  shows "\<exists>l1 i l2. (if e then removeFromBitmap 0 prio s else Some s) = Some (l12_set s l1 i l2)
    \<and> bitmap_ok (\<lambda>p. (Q(k := ts)) p \<noteq> []) (l12_set s l1 i l2)"
proof (cases e)
  case True
  from removeFromBitmap_ok [OF bm p] True e show ?thesis unfolding Q_upd_nonempty k by simp
next
  case False
  then have "(\<lambda>p. (Q(k := ts)) p \<noteq> []) = (\<lambda>p. Q p \<noteq> [])" using ne e by auto
  moreover have "l12_set s (ksReadyQueuesL1Bitmap s 0) 0 (ksReadyQueuesL2Bitmap s 0 0) = s"
    by (simp add: l12_set_def)
  ultimately show ?thesis using bm False by metis
qed

lemma tcbSchedDequeue_refines:
  assumes inv: "ready_inv Q s" and t: "tcbs s tcb = Some t" and qd: "tcbQueued (tcbState t)"
  shows "\<exists>s'. tcbSchedDequeue tcb s = Some s' \<and> sched_only s s'
    \<and> ready_inv (Q(unat (tcbPriority t) := remove1 tcb (Q (unat (tcbPriority t))))) s'"
proof -
  note st = ready_start [OF inv t]
  let ?k = "unat (tcbPriority t)"
  obtain us vs where uv: "Q ?k = us @ tcb # vs" using st(6) qd by (auto dest: split_list)
  have d: "distinct (us @ tcb # vs)" using st(5) uv by (simp add: sched_queue_def dll_def)
  have rm: "remove1 tcb (Q ?k) = us @ vs" using uv d by (simp add: remove1_append)
  obtain q' h' where q': "tcb_queue_remove (ksReadyQueues s ?k) tcb (tcbs s) = Some (q', h')" "sched_queue h' q' (us @ vs)"
      "sched_unlinked h' tcb" "eq_but clear_sched (tcbs s) h'" "\<forall>x. x \<notin> set (us @ tcb # vs) \<longrightarrow> h' x = tcbs s x"
    using remove_refines [OF st(5) [unfolded uv]] by auto
  obtain t' where t': "h' tcb = Some t'" "tcbSchedNext t' = 0" "tcbSchedPrev t' = 0"
    using q'(3) by (auto simp: sched_unlinked_def split: option.splits)
  let ?s = "s\<lparr>ksReadyQueues := (ksReadyQueues s)(?k := q'), tcbs := h'(tcb \<mapsto> queued_upd False t')\<rparr>"
  have ok: "queues_ok Q (tcbs s) (ksReadyQueues s)" using inv by (simp add: ready_inv_def)
  have qs: "queues_ok (Q(?k := us @ vs)) (tcbs ?s) (ksReadyQueues ?s)"
    using queues_ok_change [OF ok t refl q'(2) _ _ q'(4), of False t'] uv d q'(5) t' by auto
  have "bitmap_ok (\<lambda>p. Q p \<noteq> []) ?s" using inv by (simp add: ready_inv_def bitmap_ok_def)
  moreover have "tcb_queue_empty q' \<longleftrightarrow> us @ vs = []"
    using q'(2) hd0_eq_0 [of "us @ vs"] by (auto simp: tcb_queue_empty_def sched_queue_def dll_def)
  ultimately obtain l1 i l2 where bm: "(if tcb_queue_empty q' then removeFromBitmap 0 (tcbPriority t) ?s else Some ?s)
      = Some (l12_set ?s l1 i l2)" "bitmap_ok (\<lambda>p. (Q(?k := us @ vs)) p \<noteq> []) (l12_set ?s l1 i l2)"
    using remove_bitmap [of Q ?s "tcbPriority t" ?k "tcb_queue_empty q'" "us @ vs"] st(2) uv by auto
  have "tcbSchedDequeue tcb s = Some (l12_set ?s l1 i l2)"
    using t qd t'(1) bm(1) st(2)
    by (simp add: tcbSchedDequeue_def st(1,3,4) q'(1) ready_queue_set_def set_tcbQueued_def tcb_upd_def config_defs Let_def)
  moreover have "sched_only s (l12_set ?s l1 i l2)"
    using eq_but_q [OF q'(4) t'(1), of False] by (simp add: sched_only_def l12_set_def)
  moreover have "ready_inv (Q(?k := us @ vs)) (l12_set ?s l1 i l2)"
    using qs bm(2) by (simp add: ready_inv_def)
  ultimately show ?thesis by (auto simp: rm)
qed

lemma tcbSchedDequeue_unqueued:
  "tcbs s tcb = Some t \<Longrightarrow> \<not> tcbQueued (tcbState t) \<Longrightarrow> tcbSchedDequeue tcb s = Some s"
  by (simp add: tcbSchedDequeue_def)

text \<open>C19. The ready queues refine lists: in every state whose queues, bitmap and thread flags
  represent the lists Q (one list per priority), enqueueing puts a thread that is not queued at
  the head of the list of its priority, appending at its end, and dequeueing a queued thread
  takes it out of that list; enqueueing a queued thread and dequeueing one that is not queued do
  nothing. None of them fails an assertion, and no other part of the kernel state changes.\<close>

theorem ready_queues_refine_lists:
  assumes inv: "ready_inv Q s" and t: "tcbs s tcb = Some t" and k: "k = unat (tcbPriority t)"
  shows "(\<exists>s'. tcbSchedEnqueue tcb s = Some s' \<and> sched_only s s'
           \<and> ready_inv (if tcbQueued (tcbState t) then Q else Q(k := tcb # Q k)) s')
       \<and> (\<exists>s'. tcbSchedAppend tcb s = Some s' \<and> sched_only s s'
           \<and> ready_inv (if tcbQueued (tcbState t) then Q else Q(k := Q k @ [tcb])) s')
       \<and> (\<exists>s'. tcbSchedDequeue tcb s = Some s' \<and> sched_only s s'
           \<and> ready_inv (if tcbQueued (tcbState t) then Q(k := remove1 tcb (Q k)) else Q) s')"
proof (intro conjI)
  show "\<exists>s'. tcbSchedEnqueue tcb s = Some s' \<and> sched_only s s'
      \<and> ready_inv (if tcbQueued (tcbState t) then Q else Q(k := tcb # Q k)) s'"
    using tcbSchedEnqueue_refines [OF inv t] unfolding enq_def k by blast
  show "\<exists>s'. tcbSchedAppend tcb s = Some s' \<and> sched_only s s'
      \<and> ready_inv (if tcbQueued (tcbState t) then Q else Q(k := Q k @ [tcb])) s'"
    using tcbSchedAppend_refines [OF inv t] unfolding enq_def k by blast
  show "\<exists>s'. tcbSchedDequeue tcb s = Some s' \<and> sched_only s s'
      \<and> ready_inv (if tcbQueued (tcbState t) then Q(k := remove1 tcb (Q k)) else Q) s'"
    using tcbSchedDequeue_refines [OF inv t] tcbSchedDequeue_unqueued [of s tcb t] inv t k
    by (cases "tcbQueued (tcbState t)") auto
qed

lemma ready_inv_empty:
  assumes "s = ks0\<lparr>tcbs := h, ksCurThread := c, ksIdleThread := i, ksSchedulerAction := a\<rparr>" "h 0 = None"
    "\<And>x t. h x = Some t \<Longrightarrow> tcbDomain t = 0 \<and> unat (tcbPriority t) < 256 \<and> \<not> tcbQueued (tcbState t)
       \<and> tcbSchedNext t = 0 \<and> tcbSchedPrev t = 0"
  shows "ready_inv (\<lambda>_. []) s"
  using assms by (auto simp: ready_inv_def queues_ok_def thread_ok_def sched_queue_def bitmap_ok_def ks0_def)

theorem ready_queues_refine_lists_witness:
  "ready_inv (\<lambda>_. []) (ks0\<lparr>tcbs := [1 \<mapsto> tcb0\<lparr>tcbPriority := 7\<rparr>]\<rparr>)
   \<and> (\<exists>s'. tcbSchedEnqueue 1 (ks0\<lparr>tcbs := [1 \<mapsto> tcb0\<lparr>tcbPriority := 7\<rparr>]\<rparr>) = Some s'
        \<and> ready_inv ((\<lambda>_. [])(7 := [1])) s')"
proof -
  let ?s = "ks0\<lparr>tcbs := [1 \<mapsto> tcb0\<lparr>tcbPriority := 7\<rparr>]\<rparr>"
  have inv: "ready_inv (\<lambda>_. []) ?s"
    by (rule ready_inv_empty [where h = "[1 \<mapsto> tcb0\<lparr>tcbPriority := 7\<rparr>]" and c = 0 and i = 0 and a = ResumeCurrentThread])
       (auto simp: ks0_def tcb0_def split: if_splits)
  have "tcbs ?s 1 = Some (tcb0\<lparr>tcbPriority := 7\<rparr>)" by simp
  from ready_queues_refine_lists [OF inv this refl] inv show ?thesis by (auto simp: tcb0_def)
qed

end
