(* ===== verification/K_Schedule.thy ===== *)
theory K_Schedule
  imports K_Sched
begin

text \<open>
  Correctness of the scheduler of src/kernel/src/kernel/thread.c: chooseThread takes the first
  thread of the highest ready priority, and schedule ends with a best thread running for each of
  its four ways to decide (nothing to do, choose, candidate accepted, candidate queued), without
  losing a thread.
\<close>

section \<open>Choosing a thread\<close>

text \<open>Every thread in a ready queue may run.\<close>

definition queued_runnable :: "(nat \<Rightarrow> ptr list) \<Rightarrow> kstate \<Rightarrow> bool" where
  "queued_runnable Q s \<longleftrightarrow> (\<forall>x t. tcbs s x = Some t \<longrightarrow> tcbQueued (tcbState t) \<longrightarrow> isRunnable t)"

lemma ready_inv_mach [simp]: "ready_inv Q (mach m s) = ready_inv Q s"
  by (simp add: ready_inv_def mach_def bitmap_ok_def)

lemma ready_inv_upd [simp]:
  "ready_inv Q (s\<lparr>ksCurThread := c\<rparr>) = ready_inv Q s"
  "ready_inv Q (s\<lparr>ksSchedulerAction := a\<rparr>) = ready_inv Q s"
  by (simp_all add: ready_inv_def bitmap_ok_def)

lemma mach_simps [simp]:
  "tcbs (mach m s) = tcbs s" "ksIdleThread (mach m s) = ksIdleThread s" "ksReadyQueues (mach m s) = ksReadyQueues s"
  "ksCurThread (mach m s) = ksCurThread s" "ksSchedulerAction (mach m s) = ksSchedulerAction s"
  "ksReadyQueuesL1Bitmap (mach m s) = ksReadyQueuesL1Bitmap s" "ksCurDomain (mach m s) = ksCurDomain s"
  "ksReadyQueuesL2Bitmap (mach m s) = ksReadyQueuesL2Bitmap s"
  by (simp_all add: mach_def)

text \<open>The outcome of a scheduling decision: the idle thread if nothing is ready, otherwise a
  runnable thread outside the queues whose priority no ready thread exceeds.\<close>

definition best_thread :: "(nat \<Rightarrow> ptr list) \<Rightarrow> kstate \<Rightarrow> bool" where
  "best_thread Q s \<longleftrightarrow>
     (if ksCurThread s = ksIdleThread s then \<forall>p < 256. Q p = []
      else case tcbs s (ksCurThread s) of
          None \<Rightarrow> False
        | Some t \<Rightarrow> isRunnable t \<and> \<not> tcbQueued (tcbState t) \<and> (\<forall>p < 256. unat (tcbPriority t) < p \<longrightarrow> Q p = []))"

definition ready :: "(nat \<Rightarrow> ptr list) \<Rightarrow> ptr set" where
  "ready Q = (\<Union>p \<in> {..<256}. set (Q p))"

text \<open>The best thread of the set \<open>R\<close> runs and the others are exactly those left in the queues.\<close>

definition scheduled_from :: "ptr set \<Rightarrow> kstate \<Rightarrow> bool" where
  "scheduled_from R s \<longleftrightarrow> (\<exists>Q. ready_inv Q s \<and> best_thread Q s \<and>
     R = ready Q \<union> (if ksCurThread s = ksIdleThread s then {} else {ksCurThread s}))"

lemma ready_upd: "p < 256 \<Longrightarrow> Q p = x # xs \<Longrightarrow> ready Q = insert x (ready (Q(p := xs)))"
  by (auto simp: ready_def split: if_splits) (metis set_ConsD lessThan_iff)

lemma switchToThread_queued:
  assumes inv: "ready_inv Q s" and t: "tcbs s x = Some t" and qd: "tcbQueued (tcbState t)"
  shows "\<exists>s' t'. switchToThread x s = Some s' \<and> ksCurThread s' = x \<and> ksIdleThread s' = ksIdleThread s
    \<and> ready_inv (Q(unat (tcbPriority t) := remove1 x (Q (unat (tcbPriority t))))) s'
    \<and> tcbs s' x = Some t' \<and> clear_q t = clear_q t' \<and> eq_but clear_q (tcbs s) (tcbs s')"
proof -
  let ?s = "mach (Op_lazyFPURestore x) (mach (Op_setVMRoot x) s)"
  have "ready_inv Q ?s" "tcbs ?s x = Some t" using inv t by simp_all
  from tcbSchedDequeue_refines [OF this qd] obtain s' where
    s': "tcbSchedDequeue x ?s = Some s'" "sched_only ?s s'"
      "ready_inv (Q(unat (tcbPriority t) := remove1 x (Q (unat (tcbPriority t))))) s'" by blast
  obtain t' where "tcbs s' x = Some t'" "clear_q t = clear_q t'"
    using sched_only_tcb [OF s'(2)] t by auto
  moreover have "eq_but clear_q (tcbs s) (tcbs s')" using s'(2) by (simp add: sched_only_def)
  ultimately show ?thesis
    using s' sched_only_fields(2) [OF s'(2)] by (simp add: switchToThread_def)
qed

text \<open>The thread chosen is the first one of the highest non-empty priority.\<close>

lemma chooseThread_head:
  assumes inv: "ready_inv Q s" and run: "queued_runnable Q s" and p: "p < 256" "Q p \<noteq> []" "\<forall>q < 256. p < q \<longrightarrow> Q q = []"
  shows "\<exists>s' t'. chooseThread s = Some s' \<and> ksCurThread s' = hd (Q p) \<and> ksIdleThread s' = ksIdleThread s
    \<and> ready_inv (Q(p := tl (Q p))) s' \<and> tcbs s' (hd (Q p)) = Some t' \<and> isRunnable t' \<and> unat (tcbPriority t') = p
    \<and> eq_but clear_q (tcbs s) (tcbs s')"
proof -
  have bm: "bitmap_ok (\<lambda>p. Q p \<noteq> []) s" and ok: "queues_ok Q (tcbs s) (ksReadyQueues s)"
    using inv by (simp_all add: ready_inv_def)
  have ne: "ksReadyQueuesL1Bitmap s 0 \<noteq> 0" using bitmap_empty [OF bm] p(1,2) by blast
  obtain r where r: "r < 256" "getHighestPrio 0 s = Some (of_nat r)" "Q r \<noteq> []" "\<forall>q < 256. r < q \<longrightarrow> Q q = []"
    using getHighestPrio_max [OF bm ne] by blast
  have "r = p" using p r by (metis linorder_neqE_nat)
  define x where "x = hd (Q p)"
  have x: "x \<in> set (Q p)" "remove1 x (Q p) = tl (Q p)" using p(2) by (cases "Q p"; simp add: x_def)+
  obtain t where t: "tcbs s x = Some t" "tcbQueued (tcbState t)" "unat (tcbPriority t) = p" "x \<noteq> 0"
    by (rule queues_ok_elem [OF ok p(1) x(1)])
  have qh: "q_head (ksReadyQueues s p) = x"
    using ok p(1,2) by (cases "Q p") (auto simp: queues_ok_def sched_queue_def x_def)
  have up: "unat (of_nat p :: u64) = p" using p(1) by (simp add: unat_of_nat)
  have "chooseThread s = switchToThread x s"
    using ne r(2) \<open>r = p\<close> qh t run p(1) up
    by (simp add: chooseThread_def ready_queues_index_def ready_queue_get_def config_defs queued_runnable_def)
  then show ?thesis
    using switchToThread_queued [OF inv t(1,2)] t(1,2,3) x(2) run clear_q_fields(2,9)
    unfolding x_def [symmetric] queued_runnable_def by metis
qed

lemma chooseThread_idle:
  assumes "ready_inv Q s" and "\<forall>p < 256. Q p = []"
  shows "chooseThread s = switchToIdleThread s"
  using assms bitmap_empty [of "\<lambda>p. Q p \<noteq> []" s]
  by (simp add: chooseThread_def config_defs ready_inv_def)

lemma chooseThread_best:
  assumes inv: "ready_inv Q s" and run: "queued_runnable Q s" and idle: "\<forall>p < 256. ksIdleThread s \<notin> set (Q p)"
  shows "\<exists>s'. chooseThread s = Some s' \<and> scheduled_from (ready Q) s'"
proof (cases "\<forall>p < 256. Q p = []")
  case True
  then show ?thesis using chooseThread_idle [OF inv True] inv
    by (auto simp: switchToIdleThread_def best_thread_def scheduled_from_def intro!: exI [of _ Q])
next
  case False
  then have "ksReadyQueuesL1Bitmap s 0 \<noteq> 0" and "bitmap_ok (\<lambda>p. Q p \<noteq> []) s"
    using inv bitmap_empty [of "\<lambda>p. Q p \<noteq> []" s] by (auto simp: ready_inv_def)
  with getHighestPrio_max obtain p where p: "p < 256" "Q p \<noteq> []" "\<forall>q < 256. p < q \<longrightarrow> Q q = []" by blast
  obtain s' t' where s': "chooseThread s = Some s'" "ksCurThread s' = hd (Q p)" "ksIdleThread s' = ksIdleThread s"
      "ready_inv (Q(p := tl (Q p))) s'" "tcbs s' (hd (Q p)) = Some t'" "isRunnable t'" "unat (tcbPriority t') = p"
    using chooseThread_head [OF inv run p] by blast
  have "hd (Q p) \<noteq> ksIdleThread s" using idle p(1) hd_in_set [OF p(2)] by metis
  moreover have "\<not> tcbQueued (tcbState t')"
  proof -
    have "sched_queue (tcbs s) (ksReadyQueues s p) (Q p)" using inv p(1) by (simp add: ready_inv_def queues_ok_def)
    then have "hd (Q p) \<notin> set (tl (Q p))" using p(2) by (cases "Q p") (auto simp: sched_queue_def dll_def)
    then show ?thesis using ready_start(6) [OF s'(4,5)] s'(7) by simp
  qed
  ultimately have "best_thread (Q(p := tl (Q p))) s'"
    using s' p(3) by (simp add: best_thread_def)
  moreover have "ready Q = insert (hd (Q p)) (ready (Q(p := tl (Q p))))" using p(1,2) by (intro ready_upd) auto
  ultimately show ?thesis
    using s' \<open>hd (Q p) \<noteq> ksIdleThread s\<close> by (auto simp: scheduled_from_def)
qed

lemma enq_other: "p \<noteq> unat (tcbPriority t) \<Longrightarrow> enq f x t Q p = Q p"
  by (simp add: enq_def)

lemma enq_set:
  assumes "ready_inv Q s" "tcbs s x = Some t" "\<And>a xs. set (f a xs) = insert a (set xs)"
  shows "set (enq f x t Q p) = set (Q p) \<union> (if p = unat (tcbPriority t) then {x} else {})"
  using ready_start(6) [OF assms(1,2)] assms(3) by (auto simp: enq_def)

lemma queued_runnable_enq:
  assumes inv: "ready_inv Q s" and t: "tcbs s x = Some t" "isRunnable t" and run: "queued_runnable Q s"
    and f: "\<And>a xs. set (f a xs) = insert a (set xs)"
    and inv': "ready_inv (enq f x t Q) s'" and so: "sched_only s s'"
  shows "queued_runnable (enq f x t Q) s'"
  unfolding queued_runnable_def
proof (intro allI impI)
  fix y u' assume u': "tcbs s' y = Some u'" "tcbQueued (tcbState u')"
  obtain u where u: "tcbs s y = Some u" "clear_q u = clear_q u'"
    using so u'(1) unfolding sched_only_def eq_but_def by (metis map_option_eq_Some)
  have "y \<in> set (enq f x t Q (unat (tcbPriority u')))" using ready_start(6) [OF inv' u'(1)] u'(2) by simp
  then have "y = x \<or> y \<in> set (Q (unat (tcbPriority u)))"
    using enq_set [OF inv t(1) f] clear_q_fields(2) [OF u(2)] by (auto split: if_splits)
  then have "isRunnable u"
    using t u(1) run ready_start(6) [OF inv u(1)] by (auto simp: queued_runnable_def)
  then show "isRunnable u'" using clear_q_fields(9) [OF u(2)] by simp
qed

text \<open>What the scheduler relies on when it starts: the queues hold runnable threads, the idle thread
  is outside of them and a candidate is runnable. The code looks for a ready thread above the
  candidate only if the idle thread was running or the candidate is below the current thread;
  otherwise it relies on there being none. The current thread and the candidate may be queued.\<close>

definition sched_pre :: "(nat \<Rightarrow> ptr list) \<Rightarrow> kstate \<Rightarrow> bool" where
  "sched_pre Q s \<longleftrightarrow> ready_inv Q s \<and> queued_runnable Q s \<and> ksCurDomain s = 0
     \<and> (case tcbs s (ksIdleThread s) of None \<Rightarrow> False | Some t \<Rightarrow> \<not> isRunnable t \<and> \<not> tcbQueued (tcbState t))
     \<and> (case tcbs s (ksCurThread s) of
          None \<Rightarrow> False
        | Some cur \<Rightarrow>
            (case ksSchedulerAction s of
               SwitchToThread c \<Rightarrow>
                 (case tcbs s c of
                    None \<Rightarrow> False
                  | Some t \<Rightarrow> isRunnable t
                      \<and> (ksCurThread s \<noteq> ksIdleThread s \<and> tcbPriority cur \<le> tcbPriority t \<longrightarrow>
                          (\<forall>p < 256. unat (tcbPriority t) < p \<longrightarrow> Q p = [])))
             | _ \<Rightarrow> True))"

lemma idle_not_queued:
  assumes "ready_inv Q s" "tcbs s i = Some t" "\<not> tcbQueued (tcbState t)"
  shows "\<forall>p < 256. i \<notin> set (Q p)"
  using assms queues_ok_elem [of Q "tcbs s" "ksReadyQueues s"] by (metis option.inject ready_inv_def)

lemma ready_inv_nextDomain [simp]: "ready_inv Q (nextDomain s) = ready_inv Q s"
  by (simp add: ready_inv_def bitmap_ok_def nextDomain_def Let_def)

lemma nextDomain_simps [simp]:
  "tcbs (nextDomain s) = tcbs s" "ksIdleThread (nextDomain s) = ksIdleThread s"
  by (simp_all add: nextDomain_def Let_def)

lemma queued_runnable_cong: "tcbs s = tcbs s' \<Longrightarrow> queued_runnable Q s = queued_runnable Q s'"
  by (simp add: queued_runnable_def)

lemma best_thread_action [simp]:
  "best_thread Q (s\<lparr>ksSchedulerAction := a\<rparr>) = best_thread Q s"
  "scheduled_from R (s\<lparr>ksSchedulerAction := a\<rparr>) = scheduled_from R s"
  by (simp_all add: best_thread_def scheduled_from_def)

lemma scheduleChooseNewThread_best:
  assumes "ready_inv Q s" "queued_runnable Q s" "\<forall>p < 256. ksIdleThread s \<notin> set (Q p)"
  shows "\<exists>s'. scheduleChooseNewThread s = Some s' \<and> scheduled_from (ready Q) s'"
proof -
  let ?s = "if ksDomainTime s = 0 then nextDomain (prepareNextDomain s) else s"
  have "ready_inv Q ?s" "queued_runnable Q ?s" "\<forall>p < 256. ksIdleThread ?s \<notin> set (Q p)"
    using assms by (auto simp: prepareNextDomain_def queued_runnable_def)
  from chooseThread_best [OF this] show ?thesis by (simp add: scheduleChooseNewThread_def Let_def)
qed

text \<open>Enqueueing a runnable thread keeps what the choice relies on.\<close>

definition choosable :: "(nat \<Rightarrow> ptr list) \<Rightarrow> kstate \<Rightarrow> bool" where
  "choosable Q s \<longleftrightarrow> ready_inv Q s \<and> queued_runnable Q s \<and>
     (case tcbs s (ksIdleThread s) of None \<Rightarrow> False | Some t \<Rightarrow> \<not> isRunnable t \<and> \<not> tcbQueued (tcbState t))"

lemma choosable_best:
  assumes "choosable Q s"
  shows "\<exists>s'. scheduleChooseNewThread (s\<lparr>ksSchedulerAction := a\<rparr>) = Some s' \<and> scheduled_from (ready Q) s'"
proof -
  obtain t where t: "tcbs s (ksIdleThread s) = Some t" "\<not> tcbQueued (tcbState t)"
    using assms by (auto simp: choosable_def split: option.splits)
  have inv: "ready_inv Q s" "queued_runnable Q s" using assms by (simp_all add: choosable_def)
  from idle_not_queued [OF inv(1) t] inv show ?thesis
    by (intro scheduleChooseNewThread_best [of Q]) (simp_all add: queued_runnable_def)
qed

lemma choosable_enq:
  assumes c: "choosable Q s" and x: "tcbs s x = Some t" "isRunnable t"
    and f: "\<And>a xs. set (f a xs) = insert a (set xs)"
    and s': "ready_inv (enq f x t Q) s'" "sched_only s s'"
  shows "choosable (enq f x t Q) s'"
proof -
  have inv: "ready_inv Q s" "queued_runnable Q s" using c by (simp_all add: choosable_def)
  obtain i where i: "tcbs s (ksIdleThread s) = Some i" "\<not> isRunnable i" "\<not> tcbQueued (tcbState i)"
    using c by (auto simp: choosable_def split: option.splits)
  obtain i' where i': "tcbs s' (ksIdleThread s) = Some i'" "clear_q i = clear_q i'"
    by (rule sched_only_tcb [OF s'(2) i(1)])
  have "ksIdleThread s \<noteq> x" using x i by auto
  then have "ksIdleThread s \<notin> set (enq f x t Q (unat (tcbPriority i')))"
    using enq_set [OF inv(1) x(1) f] ready_start(6) [OF inv(1) i(1)] i(3) clear_q_fields(2) [OF i'(2)] by simp
  then have "\<not> tcbQueued (tcbState i')" using ready_start(6) [OF s'(1) i'(1)] by simp
  moreover have "\<not> isRunnable i'" using i(2) clear_q_fields(9) [OF i'(2)] by simp
  ultimately show ?thesis
    using s' queued_runnable_enq [OF inv(1) x inv(2) f s'] i'(1) sched_only_fields(2) [OF s'(2)]
    by (simp add: choosable_def)
qed

lemma ready_enq:
  assumes "ready_inv Q s" "tcbs s x = Some t" "\<And>a xs. set (f a xs) = insert a (set xs)"
  shows "ready (enq f x t Q) = insert x (ready Q)"
  using enq_set [OF assms] ready_start(2) [OF assms(1,2)] by (auto simp: ready_def split: if_splits)

text \<open>Enqueueing the current thread if it can still run.\<close>

lemma enqueue_current:
  assumes c: "choosable Q s" and cur: "tcbs s (ksCurThread s) = Some cur"
  shows "\<exists>s1 Q1. (if isRunnable cur then tcbSchedEnqueue (ksCurThread s) s else Some s) = Some s1 \<and> choosable Q1 s1
    \<and> sched_only s s1 \<and> ready Q1 = ready Q \<union> (if isRunnable cur then {ksCurThread s} else {})
    \<and> (\<forall>p. p \<noteq> unat (tcbPriority cur) \<longrightarrow> Q1 p = Q p)"
proof (cases "isRunnable cur")
  case True
  have inv: "ready_inv Q s" using c by (simp add: choosable_def)
  obtain s1 where s1: "tcbSchedEnqueue (ksCurThread s) s = Some s1" "ready_inv (enq (#) (ksCurThread s) cur Q) s1" "sched_only s s1"
    using tcbSchedEnqueue_refines [OF inv cur] by blast
  have "choosable (enq (#) (ksCurThread s) cur Q) s1" by (rule choosable_enq [OF c cur True _ s1(2,3)]) simp
  moreover have "ready (enq (#) (ksCurThread s) cur Q) = ready Q \<union> {ksCurThread s}"
    using ready_enq [OF inv cur, of "(#)"] by simp
  ultimately show ?thesis using True s1(1,3) by (simp add: enq_other exI [of _ "enq (#) (ksCurThread s) cur Q"])
qed (use c in auto)

text \<open>Switching to a candidate, which may be queued.\<close>

lemma ready_split: "p < 256 \<Longrightarrow> ready Q = set (Q p) \<union> (\<Union>q \<in> {..<256} - {p}. set (Q q))"
  by (auto simp: ready_def)

lemma ready_remove:
  assumes "ready_inv Q s" "tcbs s x = Some t" "tcbQueued (tcbState t)"
  shows "insert x (ready (Q(unat (tcbPriority t) := remove1 x (Q (unat (tcbPriority t)))))) = insert x (ready Q)"
    "x \<notin> set (remove1 x (Q (unat (tcbPriority t))))"
proof -
  have p: "unat (tcbPriority t) < 256" by (rule ready_start(2) [OF assms(1,2)])
  have "distinct (Q (unat (tcbPriority t)))"
    using assms(1) p by (auto simp: ready_inv_def queues_ok_def sched_queue_def dll_def)
  then show "x \<notin> set (remove1 x (Q (unat (tcbPriority t))))" by simp
  show "insert x (ready (Q(unat (tcbPriority t) := remove1 x (Q (unat (tcbPriority t)))))) = insert x (ready Q)"
    using ready_start(6) [OF assms(1,2)] \<open>distinct _\<close> assms(3)
    by (simp add: ready_split [OF p] insert_Diff_if Un_insert_left [symmetric] del: Un_insert_left) 
qed

lemma switchToThread_candidate:
  assumes c: "choosable Q s" and t: "tcbs s x = Some t" "isRunnable t"
    and top: "\<forall>p < 256. unat (tcbPriority t) < p \<longrightarrow> Q p = []"
  shows "\<exists>s'. switchToThread x s = Some s' \<and> scheduled_from (insert x (ready Q)) s'"
proof -
  have inv: "ready_inv Q s" using c by (simp add: choosable_def)
  have ni: "x \<noteq> ksIdleThread s" using c t by (auto simp: choosable_def split: option.splits)
  show ?thesis
  proof (cases "tcbQueued (tcbState t)")
    case False
    then show ?thesis using t top inv ni
      by (auto simp: switchToThread_def tcbSchedDequeue_def scheduled_from_def best_thread_def intro!: exI [of _ Q])
  next
    case True
    let ?Q = "Q(unat (tcbPriority t) := remove1 x (Q (unat (tcbPriority t))))"
    obtain s' t' where s': "switchToThread x s = Some s'" "ksCurThread s' = x" "ksIdleThread s' = ksIdleThread s"
        "ready_inv ?Q s'" "tcbs s' x = Some t'" "clear_q t = clear_q t'"
      using switchToThread_queued [OF inv t(1) True] by blast
    note rm = ready_remove [OF inv t(1) True] and same = clear_q_fields(2,9) [OF s'(6)]
    have "\<not> tcbQueued (tcbState t')" using ready_start(6) [OF s'(4,5)] rm(2) same(1) by simp
    then have "best_thread ?Q s'" using s' ni t(2) top same by (simp add: best_thread_def)
    then show ?thesis using s' ni rm(1) by (auto simp: scheduled_from_def)
  qed
qed

lemma isHighestPrio_iff:
  assumes inv: "ready_inv Q s" and prio: "unat prio < 256"
  shows "\<exists>b. isHighestPrio 0 prio s = Some b \<and> (b \<longleftrightarrow> (\<forall>p < 256. unat prio < p \<longrightarrow> Q p = []))"
proof (cases "ksReadyQueuesL1Bitmap s 0 = 0")
  case True
  then show ?thesis using inv bitmap_empty [of "\<lambda>p. Q p \<noteq> []" s] by (auto simp: isHighestPrio_def ready_inv_def)
next
  case False
  have bm: "bitmap_ok (\<lambda>p. Q p \<noteq> []) s" using inv by (simp add: ready_inv_def)
  obtain r where r: "r < 256" "getHighestPrio 0 s = Some (of_nat r)" "Q r \<noteq> []" "\<forall>q < 256. r < q \<longrightarrow> Q q = []"
    using getHighestPrio_max [OF bm False] by blast
  have "unat (of_nat r :: u64) = r" using r(1) by (simp add: unat_of_nat)
  then have "isHighestPrio 0 prio s = Some (r \<le> unat prio)"
    using False r(2) by (simp add: isHighestPrio_def word_le_nat_alt)
  moreover have "r \<le> unat prio \<longleftrightarrow> (\<forall>p < 256. unat prio < p \<longrightarrow> Q p = [])"
    using r by (metis leI le_less_trans less_le_trans not_less_iff_gr_or_eq)
  ultimately show ?thesis by blast
qed

text \<open>The threads that compete: the ready ones, the current one if it can run and the candidate.\<close>

definition contenders :: "(nat \<Rightarrow> ptr list) \<Rightarrow> kstate \<Rightarrow> ptr set" where
  "contenders Q s = ready Q
     \<union> (case tcbs s (ksCurThread s) of Some t \<Rightarrow> if isRunnable t then {ksCurThread s} else {} | None \<Rightarrow> {})
     \<union> (case ksSchedulerAction s of SwitchToThread c \<Rightarrow> {c} | _ \<Rightarrow> {})"

lemma schedule_candidate_best:
  assumes c: "choosable Q s" and act: "ksSchedulerAction s = SwitchToThread x" and dm: "ksCurDomain s = 0"
    and x: "tcbs s x = Some t" "isRunnable t" and cur: "tcbs s (ksCurThread s) = Some cur"
    and self: "x = ksCurThread s \<Longrightarrow> r"
    and top: "ksCurThread s \<noteq> ksIdleThread s \<Longrightarrow> tcbPriority cur \<le> tcbPriority t \<Longrightarrow> \<forall>p < 256. unat (tcbPriority t) < p \<longrightarrow> Q p = []"
  shows "\<exists>s'. schedule_candidate x r s = Some s'
    \<and> scheduled_from (insert x (ready Q)) s'"
proof -
  have inv: "ready_inv Q s" using c by (simp add: choosable_def)
  let ?ff = "ksCurThread s = ksIdleThread s \<or> tcbPriority t < tcbPriority cur"
  obtain b where b: "isHighestPrio 0 (tcbPriority t) s = Some b" "b \<longleftrightarrow> (\<forall>p < 256. unat (tcbPriority t) < p \<longrightarrow> Q p = [])"
    using isHighestPrio_iff [OF inv ready_start(2) [OF inv x(1)]] by blast
  obtain s1 where s1: "tcbSchedEnqueue x s = Some s1" "ready_inv (enq (#) x t Q) s1" "sched_only s s1"
    using tcbSchedEnqueue_refines [OF inv x(1)] by blast
  obtain s2 where s2: "tcbSchedAppend x s = Some s2" "ready_inv (enq (\<lambda>x xs. xs @ [x]) x t Q) s2" "sched_only s s2"
    using tcbSchedAppend_refines [OF inv x(1)] by blast
  have 1: "\<exists>s'. scheduleChooseNewThread (s1\<lparr>ksSchedulerAction := ChooseNewThread\<rparr>) = Some s' \<and> scheduled_from (insert x (ready Q)) s'"
    using choosable_best [OF choosable_enq [OF c x(1,2) _ s1(2,3)]] ready_enq [OF inv x(1), of "(#)"] by simp
  have 2: "\<exists>s'. scheduleChooseNewThread (s2\<lparr>ksSchedulerAction := ChooseNewThread\<rparr>) = Some s' \<and> scheduled_from (insert x (ready Q)) s'"
    using choosable_best [OF choosable_enq [OF c x(1,2) _ s2(2,3)]] ready_enq [OF inv x(1), of "\<lambda>x xs. xs @ [x]"] by simp
  have 3: "\<exists>s'. switchToThread x s = Some s' \<and> scheduled_from (insert x (ready Q)) s'" if "?ff \<Longrightarrow> b"
  proof (rule switchToThread_candidate [OF c x])
    show "\<forall>p < 256. unat (tcbPriority t) < p \<longrightarrow> Q p = []"
      using that b(2) top by (cases ?ff) auto
  qed
  have "x \<noteq> ksCurThread s" if "\<not> (r \<and> tcbPriority t = tcbPriority cur)" using that self x(1) cur by auto
  then show ?thesis
    using 1 2 3 b(1) dm s1(1) s2(1) x cur
    by (cases "r \<and> tcbPriority t = tcbPriority cur"; cases ?ff; cases b) (simp_all add: schedule_candidate_def Let_def)
qed

text \<open>How a candidate comes about: while the best thread runs, a thread becomes runnable, is possibly
  put into its ready queue (as restart does) and is proposed with possibleSwitchTo.\<close>

lemma woken_sched_pre:
  assumes c: "choosable Q s" and s: "ksCurDomain s = 0" "ksSchedulerAction s = ResumeCurrentThread"
    and cur: "tcbs s (ksCurThread s) = Some cur"
    and top: "ksCurThread s \<noteq> ksIdleThread s \<Longrightarrow> \<forall>p < 256. unat (tcbPriority cur) < p \<longrightarrow> Q p = []"
    and x: "tcbs s x = Some t" "isRunnable t"
  shows "\<exists>s1 s2. tcbSchedEnqueue x s = Some s1 \<and> possibleSwitchTo x s1 = Some s2 \<and> sched_pre (enq (#) x t Q) s2
    \<and> sched_only s s1 \<and> s2 = s1\<lparr>ksSchedulerAction := SwitchToThread x\<rparr>"
proof -
  have inv: "ready_inv Q s" using c by (simp add: choosable_def)
  obtain s1 where s1: "tcbSchedEnqueue x s = Some s1" "ready_inv (enq (#) x t Q) s1" "sched_only s s1"
    using tcbSchedEnqueue_refines [OF inv x(1)] by blast
  have c1: "choosable (enq (#) x t Q) s1" by (rule choosable_enq [OF c x _ s1(2,3)]) simp
  obtain t' cur' where t': "tcbs s1 x = Some t'" "clear_q t = clear_q t'" and cur': "tcbs s1 (ksCurThread s) = Some cur'" "clear_q cur = clear_q cur'"
    using sched_only_tcb [OF s1(3)] x(1) cur by metis
  note so = sched_only_fields [OF s1(3)] and same = clear_q_fields(2) [OF cur'(2)] clear_q_fields(1,2,9) [OF t'(2)]
  let ?s2 = "s1\<lparr>ksSchedulerAction := SwitchToThread x\<rparr>"
  have "possibleSwitchTo x s1 = Some ?s2"
    using t'(1) so s same ready_start(1) [OF inv x(1)] by (simp add: possibleSwitchTo_def)
  moreover have "enq (#) x t Q p = []" if "p < 256" "unat (tcbPriority t) < p" "ksCurThread s \<noteq> ksIdleThread s" "tcbPriority cur \<le> tcbPriority t" for p
    using that top by (simp add: enq_other word_le_nat_alt)
  then have "sched_pre (enq (#) x t Q) ?s2"
    using c1 cur'(1) t'(1) so s same x(2) by (simp add: sched_pre_def choosable_def queued_runnable_def)
  ultimately show ?thesis using s1(1,3) by blast
qed

text \<open>C20. The scheduler picks a best thread: from a state with correct ready queues of runnable
  threads, when the scheduler has a decision to make, schedule returns without a failed assertion;
  afterwards either the idle thread runs and nothing is ready, or a runnable thread runs that is in
  no queue and whose priority no ready thread exceeds; the running thread and the ready threads are
  together exactly the threads that competed (the ready ones, the current one if it is runnable,
  the candidate), so none is lost and none appears. A candidate that the kernel asks to switch to
  must be runnable, and no ready thread may be above it if it is not below a current thread other
  than idle, since the code does not look at the queues then; nothing is asked of the current
  thread, and the current thread and the candidate may be in a queue or not.\<close>

theorem schedule_picks_best:
  assumes pre: "sched_pre Q s" and act: "ksSchedulerAction s \<noteq> ResumeCurrentThread"
  shows "\<exists>s'. schedule s = Some s' \<and> scheduled_from (contenders Q s) s' \<and> ksSchedulerAction s' = ResumeCurrentThread"
proof -
  have c: "choosable Q s" using pre by (simp add: sched_pre_def choosable_def)
  obtain cur where cur: "tcbs s (ksCurThread s) = Some cur" using pre by (auto simp: sched_pre_def split: option.splits)
  obtain s1 Q1 where s1: "(if isRunnable cur then tcbSchedEnqueue (ksCurThread s) s else Some s) = Some s1" "choosable Q1 s1"
      "sched_only s s1" "ready Q1 = ready Q \<union> (if isRunnable cur then {ksCurThread s} else {})"
      "\<forall>p. p \<noteq> unat (tcbPriority cur) \<longrightarrow> Q1 p = Q p"
    using enqueue_current [OF c cur] by blast
  note so = sched_only_fields [OF s1(3)]
  have inv1: "ready_inv Q1 s1" using s1(2) by (simp add: choosable_def)
  show ?thesis
  proof (cases "ksSchedulerAction s")
    case ChooseNewThread
    have "\<exists>s'. scheduleChooseNewThread s1 = Some s' \<and> scheduled_from (ready Q1) s'"
      using choosable_best [OF s1(2), of "ksSchedulerAction s1"] by simp
    then show ?thesis using ChooseNewThread cur s1(1,4) so by (auto simp: schedule_def contenders_def)
  next
    case (SwitchToThread x)
    obtain t where t: "tcbs s x = Some t" "isRunnable t"
      and above: "ksCurThread s \<noteq> ksIdleThread s \<Longrightarrow> tcbPriority cur \<le> tcbPriority t \<Longrightarrow> \<forall>p < 256. unat (tcbPriority t) < p \<longrightarrow> Q p = []"
      using pre SwitchToThread cur by (auto simp: sched_pre_def split: option.splits)
    obtain t' where t': "tcbs s1 x = Some t'" "clear_q t = clear_q t'" by (rule sched_only_tcb [OF s1(3) t(1)])
    obtain cur' where cur': "tcbs s1 (ksCurThread s) = Some cur'" "clear_q cur = clear_q cur'"
      by (rule sched_only_tcb [OF s1(3) cur])
    note same = clear_q_fields(2,9) [OF t'(2)] clear_q_fields(2) [OF cur'(2)]
    have top: "\<forall>p < 256. unat (tcbPriority t') < p \<longrightarrow> Q1 p = []"
      if "ksCurThread s1 \<noteq> ksIdleThread s1" "tcbPriority cur' \<le> tcbPriority t'"
      using that above so s1(5) same by (auto simp: word_le_nat_alt)
    have "ksSchedulerAction s1 = SwitchToThread x" "ksCurDomain s1 = 0" "tcbs s1 (ksCurThread s1) = Some cur'" "isRunnable t'"
      using SwitchToThread so cur'(1) pre t(2) same by (simp_all add: sched_pre_def)
    moreover have "isRunnable cur" if "x = ksCurThread s1" using that t cur so by simp
    ultimately have "\<exists>s'. schedule_candidate x (isRunnable cur) s1 = Some s' \<and> scheduled_from (insert x (ready Q1)) s'"
      using schedule_candidate_best [OF s1(2) _ _ t'(1) _ _ _ top] by blast
    then show ?thesis
      using SwitchToThread cur cur'(1) s1(1,4) so by (auto simp: schedule_def contenders_def)
  qed (use act in simp)
qed

text \<open>A thread of priority 5 runs and one of priority 7 is restarted, so the candidate is queued.\<close>

definition sched_example :: kstate where
  "sched_example = ks0\<lparr>tcbs := [1 \<mapsto> tcb0\<lparr>tcbPriority := 5, tcbState := (tcbState tcb0)\<lparr>tsType := ThreadState_Running\<rparr>\<rparr>,
       2 \<mapsto> tcb0\<lparr>tcbPriority := 7, tcbState := (tcbState tcb0)\<lparr>tsType := ThreadState_Restart\<rparr>\<rparr>,
       3 \<mapsto> tcb0\<lparr>tcbState := (tcbState tcb0)\<lparr>tsType := ThreadState_IdleThreadState\<rparr>\<rparr>],
     ksCurThread := 1, ksIdleThread := 3, ksSchedulerAction := ResumeCurrentThread\<rparr>"

theorem schedule_picks_best_witness:
  "\<exists>s1 s2 s'. tcbSchedEnqueue 2 sched_example = Some s1 \<and> possibleSwitchTo 2 s1 = Some s2
     \<and> ksSchedulerAction s2 = SwitchToThread 2 \<and> schedule s2 = Some s' \<and> scheduled_from {1, 2} s'"
proof -
  let ?t = "tcb0\<lparr>tcbPriority := 7, tcbState := (tcbState tcb0)\<lparr>tsType := ThreadState_Restart\<rparr>\<rparr>"
  let ?Q = "enq (#) 2 ?t (\<lambda>_. [])"
  have inv: "ready_inv (\<lambda>_. []) sched_example"
    by (rule ready_inv_empty [OF sched_example_def]) (auto simp: tcb0_def split: if_splits)
  then have "choosable (\<lambda>_. []) sched_example"
    by (simp add: choosable_def sched_example_def queued_runnable_def tcb0_def ks0_def isRunnable_def)
  then have "\<exists>s1 s2. tcbSchedEnqueue 2 sched_example = Some s1 \<and> possibleSwitchTo 2 s1 = Some s2 \<and> sched_pre ?Q s2
      \<and> sched_only sched_example s1 \<and> s2 = s1\<lparr>ksSchedulerAction := SwitchToThread 2\<rparr>"
    by (rule woken_sched_pre) (simp_all add: sched_example_def ks0_def isRunnable_def)
  then obtain s1 s2 where s: "tcbSchedEnqueue 2 sched_example = Some s1" "possibleSwitchTo 2 s1 = Some s2" "sched_pre ?Q s2"
      "sched_only sched_example s1" "s2 = s1\<lparr>ksSchedulerAction := SwitchToThread 2\<rparr>"
    by blast
  let ?cur = "tcb0\<lparr>tcbPriority := 5, tcbState := (tcbState tcb0)\<lparr>tsType := ThreadState_Running\<rparr>\<rparr>"
  obtain t where t: "tcbs s1 1 = Some t" "clear_q ?cur = clear_q t"
    by (rule sched_only_tcb [OF s(4), of 1 ?cur]) (simp add: sched_example_def)
  have "isRunnable t" using clear_q_fields(9) [OF t(2)] by (simp add: isRunnable_def)
  moreover have "ready ?Q = {2}" using ready_enq [OF inv, of 2 ?t "(#)"] by (simp add: sched_example_def ready_def)
  ultimately have "contenders ?Q s2 = {1, 2}"
    using t(1) sched_only_fields [OF s(4)] by (auto simp: contenders_def s(5) sched_example_def)
  moreover have "ksSchedulerAction s2 \<noteq> ResumeCurrentThread" by (simp add: s(5))
  ultimately show ?thesis using schedule_picks_best [OF s(3)] s(1,2,5) by auto
qed

end
