(* ===== verification/K_CSpace.thy ===== *)
theory K_CSpace
  imports K_State
begin

text \<open>
  Capability lookup (src/kernel/src/kernel/cspace.c). A capability space is a directed graph of
  CNodes; resolveAddressBits walks it, taking from the address at each level a guard, which must
  match, and an index. The loop is a function whose termination rests on every level consuming
  at least one bit; it is proved equal to a resolution on bit strings that knows nothing of
  shifts and masks.
\<close>

section \<open>Resolving an address\<close>

definition seL4_SlotBits :: nat where "seL4_SlotBits = 5"
definition seL4_TCBBits :: u64 where "seL4_TCBBits = 11"

text \<open>Slot \<open>i\<close> of an array of capability table entries, and of the CNode of a thread.\<close>

definition cte_index :: "ptr \<Rightarrow> u64 \<Rightarrow> ptr" where
  "cte_index base i = base + push_bit seL4_SlotBits i"

definition TCB_PTR_CTE_PTR :: "ptr \<Rightarrow> u64 \<Rightarrow> ptr" where
  "TCB_PTR_CTE_PTR p i = cte_index (p AND NOT (MASK seL4_TCBBits)) i"

definition tcbCTable :: u64 where "tcbCTable = 0"
definition tcbVTable :: u64 where "tcbVTable = 1"
definition tcbReply :: u64 where "tcbReply = 2"
definition tcbCaller :: u64 where "tcbCaller = 3"
definition tcbBuffer :: u64 where "tcbBuffer = 4"
definition tcbCNodeEntries :: u64 where "tcbCNodeEntries = 5"

text \<open>A right shift by the width of the word or more is undefined.\<close>

definition c_shr :: "u64 \<Rightarrow> u64 \<Rightarrow> u64 option" where
  "c_shr x n = (if n < 64 then Some (drop_bit (unat n) x) else None)"

lemma unat_sub_less: "l \<noteq> 0 \<Longrightarrow> \<not> n < l \<Longrightarrow> unat (n - l) < unat (n :: u64)"
  using unat_gt_0 [of l] by (simp add: word_less_nat_alt unat_sub not_less word_le_nat_alt)

type_synonym resolved = "lookup_fault + ptr \<times> u64"

function resolve_loop :: "(ptr \<rightharpoonup> cte) \<Rightarrow> cap \<Rightarrow> u64 \<Rightarrow> u64 \<Rightarrow> resolved option" where
  "resolve_loop h nodeCap capptr n_bits =
     (let radixBits = capCNodeRadix nodeCap;
          guardBits = capCNodeGuardSize nodeCap;
          levelBits = radixBits + guardBits in
      if levelBits = 0 then None
      else let capGuard = capCNodeGuard nodeCap in
      case c_shr capptr ((n_bits - guardBits) AND MASK (of_nat wordRadix)) of
        None \<Rightarrow> None
      | Some g \<Rightarrow>
        let guard = g AND MASK guardBits in
        if guardBits > n_bits \<or> guard \<noteq> capGuard then Some (Inl (LUF_GuardMismatch capGuard n_bits guardBits))
        else if levelBits > n_bits then Some (Inl (LUF_DepthMismatch levelBits n_bits))
        else case c_shr capptr (n_bits - levelBits) of
          None \<Rightarrow> None
        | Some o' \<Rightarrow>
          let offset = o' AND MASK radixBits;
              slot = cte_index (capCNodePtr nodeCap) offset in
          if n_bits = levelBits then Some (Inr (slot, 0))
          else case h slot of
            None \<Rightarrow> None
          | Some c \<Rightarrow>
            if is_CNodeCap (cteCap c) then resolve_loop h (cteCap c) capptr (n_bits - levelBits)
            else Some (Inr (slot, n_bits - levelBits)))"
  by pat_completeness auto
termination
  by (relation "measure (\<lambda>(h, nodeCap, capptr, n_bits). unat n_bits)") (auto intro: unat_sub_less)

declare resolve_loop.simps [simp del]

definition resolveAddressBits :: "cap \<Rightarrow> u64 \<Rightarrow> u64 \<Rightarrow> kstate \<Rightarrow> (exception \<times> ptr \<times> u64 \<times> kstate) option" where
  "resolveAddressBits nodeCap capptr n_bits s =
     (if \<not> is_CNodeCap nodeCap
      then Some (EXCEPTION_LOOKUP_FAULT, 0, n_bits, s\<lparr>current_lookup_fault := LUF_InvalidRoot\<rparr>)
      else case resolve_loop (ctes s) nodeCap capptr n_bits of
        None \<Rightarrow> None
      | Some (Inl f) \<Rightarrow> Some (EXCEPTION_LOOKUP_FAULT, 0, n_bits, s\<lparr>current_lookup_fault := f\<rparr>)
      | Some (Inr (slot, bitsRemaining)) \<Rightarrow> Some (EXCEPTION_NONE, slot, bitsRemaining, s))"

section \<open>Lookups\<close>

definition lookupSlot :: "ptr \<Rightarrow> u64 \<Rightarrow> kstate \<Rightarrow> (exception \<times> ptr \<times> kstate) option" where
  "lookupSlot thread capptr s =
     do { threadRoot \<leftarrow> ctes s (TCB_PTR_CTE_PTR thread tcbCTable);
          (status, slot, _, s) \<leftarrow> resolveAddressBits (cteCap threadRoot) capptr wordBits s;
          Some (status, slot, s) }"

definition lookupCap :: "ptr \<Rightarrow> u64 \<Rightarrow> kstate \<Rightarrow> (exception \<times> cap \<times> kstate) option" where
  "lookupCap thread cPtr s =
     do { (status, slot, s) \<leftarrow> lookupSlot thread cPtr s;
          if status \<noteq> EXCEPTION_NONE then Some (status, NullCap, s)
          else do { c \<leftarrow> ctes s slot; Some (EXCEPTION_NONE, cteCap c, s) } }"

definition lookupCapAndSlot :: "ptr \<Rightarrow> u64 \<Rightarrow> kstate \<Rightarrow> (exception \<times> cap \<times> ptr \<times> kstate) option" where
  "lookupCapAndSlot thread cPtr s =
     do { (status, slot, s) \<leftarrow> lookupSlot thread cPtr s;
          if status \<noteq> EXCEPTION_NONE then Some (status, NullCap, 0, s)
          else do { c \<leftarrow> ctes s slot; Some (EXCEPTION_NONE, cteCap c, slot, s) } }"

definition lookupSlotForCNodeOp :: "bool \<Rightarrow> cap \<Rightarrow> u64 \<Rightarrow> u64 \<Rightarrow> kstate \<Rightarrow> (exception \<times> ptr \<times> kstate) option" where
  "lookupSlotForCNodeOp isSource root capptr depth s =
     (if \<not> is_CNodeCap root
      then Some (EXCEPTION_SYSCALL_ERROR, 0,
             s\<lparr>current_syscall_error := FailedLookup isSource, current_lookup_fault := LUF_InvalidRoot\<rparr>)
      else if depth < 1 \<or> depth > wordBits
      then Some (EXCEPTION_SYSCALL_ERROR, 0, s\<lparr>current_syscall_error := RangeError 1 wordBits\<rparr>)
      else do {
        (status, slot, bitsRemaining, s) \<leftarrow> resolveAddressBits root capptr depth s;
        if status \<noteq> EXCEPTION_NONE
        then Some (EXCEPTION_SYSCALL_ERROR, 0, s\<lparr>current_syscall_error := FailedLookup isSource\<rparr>)
        else if bitsRemaining \<noteq> 0
        then Some (EXCEPTION_SYSCALL_ERROR, 0,
               s\<lparr>current_syscall_error := FailedLookup isSource,
                 current_lookup_fault := LUF_DepthMismatch 0 bitsRemaining\<rparr>)
        else Some (EXCEPTION_NONE, slot, s) })"

definition lookupSourceSlot :: "cap \<Rightarrow> u64 \<Rightarrow> u64 \<Rightarrow> kstate \<Rightarrow> (exception \<times> ptr \<times> kstate) option" where
  "lookupSourceSlot root capptr depth = lookupSlotForCNodeOp True root capptr depth"

definition lookupTargetSlot :: "cap \<Rightarrow> u64 \<Rightarrow> u64 \<Rightarrow> kstate \<Rightarrow> (exception \<times> ptr \<times> kstate) option" where
  "lookupTargetSlot root capptr depth = lookupSlotForCNodeOp False root capptr depth"

definition lookupPivotSlot :: "cap \<Rightarrow> u64 \<Rightarrow> u64 \<Rightarrow> kstate \<Rightarrow> (exception \<times> ptr \<times> kstate) option" where
  "lookupPivotSlot root capptr depth = lookupSlotForCNodeOp True root capptr depth"

section \<open>Resolution on bit strings\<close>

text \<open>The \<open>n\<close> low bits of an address, the most significant first, and the number a bit string
  denotes.\<close>

definition bits_of :: "nat \<Rightarrow> u64 \<Rightarrow> bool list" where
  "bits_of n w = rev (map (bit w) [0..<n])"

definition num_of :: "bool list \<Rightarrow> u64" where
  "num_of bs = horner_sum of_bool 2 (rev bs)"

text \<open>The reference: match the guard, take the index, follow the slot with the rest.\<close>

function resolve_spec :: "(ptr \<rightharpoonup> cte) \<Rightarrow> cap \<Rightarrow> bool list \<Rightarrow> resolved option" where
  "resolve_spec h node bs =
     (let g = unat (capCNodeGuardSize node); r = unat (capCNodeRadix node) in
      if g + r = 0 then None
      else if length bs < g \<or> num_of (take g bs) \<noteq> capCNodeGuard node
      then Some (Inl (LUF_GuardMismatch (capCNodeGuard node) (of_nat (length bs)) (of_nat g)))
      else if length bs < g + r then Some (Inl (LUF_DepthMismatch (of_nat (g + r)) (of_nat (length bs))))
      else let slot = cte_index (capCNodePtr node) (num_of (take r (drop g bs)));
               rest = drop (g + r) bs in
        if rest = [] then Some (Inr (slot, 0))
        else case h slot of
          None \<Rightarrow> None
        | Some c \<Rightarrow> if is_CNodeCap (cteCap c) then resolve_spec h (cteCap c) rest
                    else Some (Inr (slot, of_nat (length rest))))"
  by pat_completeness auto
termination
  by (relation "measure (\<lambda>(h, node, bs). length bs)") auto

declare resolve_spec.simps [simp del]

lemma length_bits_of [simp]: "length (bits_of n w) = n"
  by (simp add: bits_of_def)

lemma drop_bits_of: "i \<le> n \<Longrightarrow> drop i (bits_of n w) = bits_of (n - i) w"
  by (simp add: bits_of_def drop_rev take_map)

lemma num_of_bits: "num_of (bits_of n w) = take_bit n w"
  by (simp add: num_of_def bits_of_def horner_sum_bit_eq_take_bit)

lemma take_bits_of:
  assumes "k \<le> n"
  shows "take k (bits_of n w) = bits_of k (drop_bit (n - k) w)"
proof -
  have "take k (bits_of n w) = rev (map (bit w) [n - k..<n])"
    using assms by (simp add: bits_of_def take_rev drop_map)
  also have "[n - k..<n] = map (\<lambda>i. i + (n - k)) [0..<k]" using assms map_add_upt [of "n - k" k] by simp
  finally show ?thesis by (simp add: bits_of_def bit_drop_bit_eq comp_def add.commute)
qed

lemma MASK_and: "unat k < 64 \<Longrightarrow> x AND MASK k = take_bit (unat k) x"
  by (simp add: MASK_def BIT_def take_bit_eq_mask mask_eq_exp_minus_1)

text \<open>The two slices the loop takes.\<close>

lemma guard_slice:
  assumes "g \<le> n" "unat g < 64" "n \<le> 64"
  shows "\<exists>x. c_shr w ((n - g) AND MASK (of_nat wordRadix)) = Some x
    \<and> x AND MASK g = num_of (take (unat g) (bits_of (unat n) w))"
proof -
  have le: "unat g \<le> unat n" "unat n \<le> 64" using assms by (simp_all add: word_le_nat_alt)
  have sh: "(n - g) AND MASK (of_nat wordRadix) = take_bit 6 (n - g)"
    by (simp add: MASK_and wordRadix_def)
  have tb: "unat (take_bit 6 (n - g)) = take_bit 6 (unat (n - g))" by (simp add: unsigned_take_bit_eq)
  then have lt: "unat (take_bit 6 (n - g)) < 64" using take_bit_nat_less_exp [of 6 "unat (n - g)"] by simp
  have "take_bit (unat g) (drop_bit (unat (take_bit 6 (n - g))) w) = take_bit (unat g) (drop_bit (unat n - unat g) w)"
  proof (cases "unat g = 0")
    case False
    then have "unat (n - g) < 64" using le assms(1) by (simp add: unat_sub)
    then have "unat (take_bit 6 (n - g)) = unat n - unat g"
      using assms(1) tb by (simp add: take_bit_eq_mod unat_sub)
    then show ?thesis by simp
  qed simp
  then show ?thesis
    using le(1) lt assms(2) by (simp add: sh c_shr_def word_less_nat_alt MASK_and take_bits_of num_of_bits)
qed

lemma index_slice:
  assumes "r + g \<le> n" "unat (r + g) = unat r + unat g" "unat r < 64" "r + g \<noteq> 0" "n \<le> 64"
  shows "c_shr w (n - (r + g)) = Some (drop_bit (unat n - (unat r + unat g)) w)
    \<and> drop_bit (unat n - (unat r + unat g)) w AND MASK r = num_of (take (unat r) (drop (unat g) (bits_of (unat n) w)))"
proof -
  have le: "unat r + unat g \<le> unat n" "unat n \<le> 64" using assms by (simp_all add: word_le_nat_alt)
  have "0 < unat (r + g)" using assms(4) by (simp add: unat_gt_0)
  then have "unat n - (unat r + unat g) < 64" using assms(2) le by linarith
  moreover have "unat (n - (r + g)) = unat n - (unat r + unat g)" using assms(1,2) by (simp add: unat_sub)
  moreover have "take (unat r) (drop (unat g) (bits_of (unat n) w)) = bits_of (unat r) (drop_bit (unat n - (unat r + unat g)) w)"
    using le by (simp add: drop_bits_of take_bits_of diff_diff_left add.commute)
  ultimately show ?thesis
    using assms(3) by (simp add: c_shr_def word_less_nat_alt MASK_and num_of_bits)
qed

text \<open>The fields capCNodeRadix and capCNodeGuardSize are six bits wide.\<close>

definition cnode_fields :: "cap \<Rightarrow> bool" where
  "cnode_fields c \<longleftrightarrow> (is_CNodeCap c \<longrightarrow> unat (capCNodeRadix c) < 64 \<and> unat (capCNodeGuardSize c) < 64)"

lemma c_shr_masked: "\<exists>x. c_shr w (y AND MASK (of_nat wordRadix)) = Some x"
proof -
  have "unat (take_bit 6 y) < 64"
    using take_bit_nat_less_exp [of 6 "unat y"] by (simp add: unsigned_take_bit_eq)
  then show ?thesis by (simp add: MASK_and wordRadix_def c_shr_def word_less_nat_alt)
qed

lemma resolve_loop_spec:
  assumes fields: "\<And>p c. h p = Some c \<Longrightarrow> cnode_fields (cteCap c)" and "is_CNodeCap node" "cnode_fields node" "n \<le> 64"
  shows "resolve_loop h node w n = resolve_spec h node (bits_of (unat n) w)"
  using assms
proof (induction h node w n rule: resolve_loop.induct)
  case (1 h node w n)
  let ?r = "capCNodeRadix node" and ?g = "capCNodeGuardSize node"
  have lt: "unat ?r < 64" "unat ?g < 64" using 1 by (simp_all add: cnode_fields_def)
  then have sum: "unat (?r + ?g) = unat ?r + unat ?g" by (subst unat_add_lem [THEN iffD1]) simp_all
  have zero: "?r + ?g = 0 \<longleftrightarrow> unat ?g + unat ?r = 0" using sum by (metis add.commute unat_eq_zero)
  have gn: "n < ?g \<longleftrightarrow> unat n < unat ?g" "n < ?r + ?g \<longleftrightarrow> unat n < unat ?g + unat ?r"
    using sum by (simp_all add: word_less_nat_alt add.commute)
  obtain x where x: "c_shr w ((n - ?g) AND MASK (of_nat wordRadix)) = Some x" using c_shr_masked by blast
  consider "?r + ?g = 0" | "?r + ?g \<noteq> 0" "n < ?g" | "?r + ?g \<noteq> 0" "\<not> n < ?g" by blast
  then show ?case
  proof cases
    case 3
    then have guard: "x AND MASK ?g = num_of (take (unat ?g) (bits_of (unat n) w))"
      using guard_slice [of ?g n w] lt(2) 1(5) x by (auto simp: not_less)
    show ?thesis
    proof (cases "x AND MASK ?g \<noteq> capCNodeGuard node \<or> n < ?r + ?g")
      case True
      then show ?thesis
        using 3 x zero gn guard sum unfolding resolve_loop.simps [of h node] resolve_spec.simps [of h node]
        by (auto simp: Let_def add.commute)
    next
      case False
      then have le: "?r + ?g \<le> n" by (simp add: not_less)
      note ix = index_slice [OF le sum lt(1) 3(1) 1(5), of w]
      let ?slot = "cte_index (capCNodePtr node) (num_of (take (unat ?r) (drop (unat ?g) (bits_of (unat n) w))))"
      have sub: "unat (n - (?r + ?g)) = unat n - (unat ?g + unat ?r)" using le sum by (simp add: unat_sub add.commute)
      have rest: "drop (unat ?g + unat ?r) (bits_of (unat n) w) = bits_of (unat (n - (?r + ?g))) w"
        using gn(2) False sub by (simp add: drop_bits_of)
      have nil: "bits_of (unat (n - (?r + ?g))) w = [] \<longleftrightarrow> n = ?r + ?g"
        by (metis length_0_conv length_bits_of unat_eq_zero right_minus_eq)
      have le64: "n - (?r + ?g) \<le> 64" using 1(5) sub by (simp add: word_le_nat_alt)
      have IH: "resolve_loop h (cteCap c) w (n - (?r + ?g)) = resolve_spec h (cteCap c) (bits_of (unat (n - (?r + ?g))) w)"
        if "n \<noteq> ?r + ?g" "h ?slot = Some c" "is_CNodeCap (cteCap c)" for c
        by (rule 1(1) [OF refl refl refl 3(1) refl x refl]) (use False 3 ix that 1(2) le64 in auto)
      have g: "\<not> n < ?g" "\<not> unat n < unat ?g" "\<not> unat n < unat ?g + unat ?r" "\<not> n < ?r + ?g" "unat ?g + unat ?r \<noteq> 0"
        "num_of (take (unat ?g) (bits_of (unat n) w)) = capCNodeGuard node"
        using 3 False gn zero guard by auto
      have lhs: "resolve_loop h node w n = (if n = ?r + ?g then Some (Inr (?slot, 0)) else case h ?slot of None \<Rightarrow> None
          | Some c \<Rightarrow> if is_CNodeCap (cteCap c) then resolve_loop h (cteCap c) w (n - (?r + ?g))
                      else Some (Inr (?slot, n - (?r + ?g))))"
        unfolding resolve_loop.simps [of h node] using 3(1) x g ix guard by (simp add: Let_def)
      have rhs: "resolve_spec h node (bits_of (unat n) w) = (if n = ?r + ?g then Some (Inr (?slot, 0)) else case h ?slot of None \<Rightarrow> None
          | Some c \<Rightarrow> if is_CNodeCap (cteCap c) then resolve_spec h (cteCap c) (bits_of (unat (n - (?r + ?g))) w)
                      else Some (Inr (?slot, n - (?r + ?g))))"
        by (simp only: resolve_spec.simps [of h node] Let_def length_bits_of g rest nil if_False simp_thms of_nat_unat ucast_id)
      show ?thesis
        unfolding lhs rhs using IH by (simp split: option.split)
    qed
  qed (use x zero gn in \<open>auto simp: resolve_loop.simps [of h node] resolve_spec.simps [of h node] Let_def\<close>)
qed

text \<open>C33. Capability lookup is resolution on bit strings: for every address, every depth up to
  64 and every graph of CNodes whose fields have their width, resolveAddressBits gives exactly
  the slot, the remaining depth or the lookup fault that matching guards and taking indices on
  the bit string of the address gives. In particular no shift it performs is undefined.\<close>

theorem resolveAddressBits_on_bit_strings:
  assumes "\<forall>p c. ctes s p = Some c \<longrightarrow> cnode_fields (cteCap c)" "is_CNodeCap root" "cnode_fields root"
    "depth \<le> 64"
  shows "resolveAddressBits root capptr depth s =
    (case resolve_spec (ctes s) root (bits_of (unat depth) capptr) of
       None \<Rightarrow> None
     | Some (Inl f) \<Rightarrow> Some (EXCEPTION_LOOKUP_FAULT, 0, depth, s\<lparr>current_lookup_fault := f\<rparr>)
     | Some (Inr (slot, rest)) \<Rightarrow> Some (EXCEPTION_NONE, slot, rest, s))"
  using resolve_loop_spec [of "ctes s" root depth capptr] assms by (simp add: resolveAddressBits_def)

text \<open>A one-level CNode of four slots with the guard 01 below a guardless one of two slots.\<close>

definition cspace_example :: kstate where
  "cspace_example = ks0\<lparr>ctes := [0x1000 \<mapsto> \<lparr>cteCap = NullCap, cteMDBNode = nullMDBNode\<rparr>,
     0x1020 \<mapsto> \<lparr>cteCap = CNodeCap 2 2 1 0x2000, cteMDBNode = nullMDBNode\<rparr>]\<rparr>"

theorem resolveAddressBits_on_bit_strings_witness:
  "resolveAddressBits (CNodeCap 1 0 0 0x1000) 0x16 5 cspace_example = Some (EXCEPTION_NONE, 0x2040, 0, cspace_example)
   \<and> bits_of 5 0x16 = [True, False, True, True, False]
   \<and> resolve_spec (ctes cspace_example) (CNodeCap 1 0 0 0x1000) [True, False, True, True, False] = Some (Inr (0x2040, 0))"
proof -
  have bits: "bits_of 5 0x16 = [True, False, True, True, False]"
    by (simp add: bits_of_def upt_rec eval_nat_numeral bit_numeral_rec)
  have sp: "resolve_spec (ctes cspace_example) (CNodeCap 1 0 0 0x1000) [True, False, True, True, False] = Some (Inr (0x2040, 0))"
    by (simp add: resolve_spec.simps num_of_def cte_index_def seL4_SlotBits_def cspace_example_def)
  have "unat (5 :: u64) = 5" by simp
  then show ?thesis
    using resolveAddressBits_on_bit_strings [of cspace_example "CNodeCap 1 0 0 0x1000" 5 "0x16"] bits sp
    by (simp add: cnode_fields_def cspace_example_def split: if_splits)
qed

end
