(* ===== verification/K_Cap.thy ===== *)
theory K_Cap
  imports K_CSpace
begin

text \<open>
  Operations on capabilities (src/kernel/src/object/objecttype.c, include/object/structures.h and
  the x86 parts): size, address and comparison of the objects capabilities name, masking of
  rights, updating of badges and guards, zombies, and the test whether a derived capability is
  revocable. The accessors of the bitfield generator assert the type of their argument; where
  the source applies one to a capability of another type the result is \<open>None\<close>.
\<close>

section \<open>Zombies\<close>

definition TCB_CNODE_RADIX :: u64 where "TCB_CNODE_RADIX = 4"

definition ZombieType_ZombieTCB :: u64 where "ZombieType_ZombieTCB = BIT (of_nat wordRadix)"

definition ZombieType_ZombieCNode :: "u64 \<Rightarrow> u64" where
  "ZombieType_ZombieCNode n = n AND MASK (of_nat wordRadix)"

definition Zombie_new :: "u64 \<Rightarrow> u64 \<Rightarrow> u64 \<Rightarrow> cap" where
  "Zombie_new number type p =
     (let m = (if type = ZombieType_ZombieTCB then MASK (TCB_CNODE_RADIX + 1) else MASK (type + 1)) in
      ZombieCap ((p AND NOT m) OR (number AND m)) type)"

definition capZombieBits :: "cap \<Rightarrow> u64" where
  "capZombieBits c =
     (let type = capZombieType c in
      if type = ZombieType_ZombieTCB then TCB_CNODE_RADIX else ZombieType_ZombieCNode type)"

definition capZombieNumber :: "cap \<Rightarrow> u64" where
  "capZombieNumber c = (let radix = capZombieBits c in capZombieID c AND MASK (radix + 1))"

definition capZombiePtr :: "cap \<Rightarrow> u64" where
  "capZombiePtr c = (let radix = capZombieBits c in capZombieID c AND NOT (MASK (radix + 1)))"

definition set_capZombieNumber :: "cap \<Rightarrow> u64 \<Rightarrow> cap" where
  "set_capZombieNumber c n =
     (let radix = capZombieBits c; p = capZombieID c AND NOT (MASK (radix + 1)) in
      ZombieCap (p OR (n AND MASK (radix + 1))) (capZombieType c))"

section \<open>Size and address of objects\<close>

definition seL4_PageBits :: u64 where "seL4_PageBits = 12"
definition seL4_LargePageBits :: u64 where "seL4_LargePageBits = 21"
definition seL4_HugePageBits :: u64 where "seL4_HugePageBits = 30"
definition seL4_PageTableBits :: u64 where "seL4_PageTableBits = 12"
definition seL4_EndpointBits :: u64 where "seL4_EndpointBits = 4"
definition seL4_NotificationBits :: u64 where "seL4_NotificationBits = 5"

definition X86_SmallPage :: nat where "X86_SmallPage = 0"
definition X86_LargePage :: nat where "X86_LargePage = 1"
definition X64_HugePage :: nat where "X64_HugePage = 2"

definition pageBitsForSize :: "nat \<Rightarrow> u64 option" where
  "pageBitsForSize pagesize =
     (if pagesize = X86_SmallPage then Some seL4_PageBits
      else if pagesize = X86_LargePage then Some seL4_LargePageBits
      else if pagesize = X64_HugePage then Some seL4_HugePageBits
      else None)"

definition cap_get_archCapSizeBits :: "arch_cap \<Rightarrow> u64 option" where
  "cap_get_archCapSizeBits c = (case c of
       FrameCap _ _ sz _ _ _ _ \<Rightarrow> pageBitsForSize sz
     | PageTableCap _ _ _ _ \<Rightarrow> Some seL4_PageTableBits
     | PageDirectoryCap _ _ _ _ \<Rightarrow> Some seL4_PageTableBits
     | IOPortCap _ _ \<Rightarrow> Some 0
     | ASIDControlCap \<Rightarrow> Some 0
     | ASIDPoolCap _ _ \<Rightarrow> Some seL4_PageTableBits
     | PML4Cap _ _ _ \<Rightarrow> Some seL4_PageTableBits
     | PDPTCap _ _ _ _ \<Rightarrow> Some seL4_PageTableBits
     | IOPortControlCap \<Rightarrow> Some 0)"

definition cap_get_capSizeBits :: "cap \<Rightarrow> u64 option" where
  "cap_get_capSizeBits c = (case c of
       UntypedCap _ _ sz _ \<Rightarrow> Some sz
     | EndpointCap _ _ _ _ _ _ \<Rightarrow> Some seL4_EndpointBits
     | NotificationCap _ _ _ _ \<Rightarrow> Some seL4_NotificationBits
     | CNodeCap radix _ _ _ \<Rightarrow> Some (radix + of_nat seL4_SlotBits)
     | ThreadCap _ \<Rightarrow> Some seL4_TCBBits
     | ZombieCap _ type \<Rightarrow>
         if type = ZombieType_ZombieTCB then Some seL4_TCBBits
         else Some (ZombieType_ZombieCNode type + of_nat seL4_SlotBits)
     | NullCap \<Rightarrow> Some 0 | DomainCap \<Rightarrow> Some 0 | ReplyCap _ _ _ \<Rightarrow> Some 0
     | IRQControlCap \<Rightarrow> Some 0 | IRQHandlerCap _ \<Rightarrow> Some 0
     | ArchObjectCap a \<Rightarrow> cap_get_archCapSizeBits a)"

definition cap_get_archCapIsPhysical :: "arch_cap \<Rightarrow> bool" where
  "cap_get_archCapIsPhysical c = (case c of
       FrameCap _ _ _ _ _ _ _ \<Rightarrow> True
     | PageTableCap _ _ _ _ \<Rightarrow> True
     | PageDirectoryCap _ _ _ _ \<Rightarrow> True
     | IOPortCap _ _ \<Rightarrow> False
     | ASIDControlCap \<Rightarrow> False
     | ASIDPoolCap _ _ \<Rightarrow> True
     | PML4Cap _ _ _ \<Rightarrow> True
     | PDPTCap _ _ _ _ \<Rightarrow> True
     | IOPortControlCap \<Rightarrow> False)"

text \<open>The default of the switch covers the null capability, which is not physical.\<close>

definition cap_get_capIsPhysical :: "cap \<Rightarrow> bool" where
  "cap_get_capIsPhysical c = (case c of
       UntypedCap _ _ _ _ \<Rightarrow> True
     | EndpointCap _ _ _ _ _ _ \<Rightarrow> True
     | NotificationCap _ _ _ _ \<Rightarrow> True
     | CNodeCap _ _ _ _ \<Rightarrow> True
     | ThreadCap _ \<Rightarrow> True
     | ZombieCap _ _ \<Rightarrow> True
     | DomainCap \<Rightarrow> False | ReplyCap _ _ _ \<Rightarrow> False | IRQControlCap \<Rightarrow> False | IRQHandlerCap _ \<Rightarrow> False
     | NullCap \<Rightarrow> False
     | ArchObjectCap a \<Rightarrow> cap_get_archCapIsPhysical a)"

definition cap_get_archCapPtr :: "arch_cap \<Rightarrow> ptr" where
  "cap_get_archCapPtr c = (case c of
       FrameCap _ p _ _ _ _ _ \<Rightarrow> p
     | PageTableCap _ p _ _ \<Rightarrow> p
     | PageDirectoryCap _ p _ _ \<Rightarrow> p
     | IOPortCap _ _ \<Rightarrow> 0
     | ASIDControlCap \<Rightarrow> 0
     | ASIDPoolCap _ p \<Rightarrow> p
     | PML4Cap _ p _ \<Rightarrow> p
     | PDPTCap _ p _ _ \<Rightarrow> p
     | IOPortControlCap \<Rightarrow> 0)"

definition cap_get_capPtr :: "cap \<Rightarrow> ptr" where
  "cap_get_capPtr c = (case c of
       UntypedCap _ _ _ p \<Rightarrow> p
     | EndpointCap _ _ _ _ _ p \<Rightarrow> p
     | NotificationCap _ _ _ p \<Rightarrow> p
     | CNodeCap _ _ _ p \<Rightarrow> p
     | ThreadCap p \<Rightarrow> TCB_PTR_CTE_PTR p 0
     | ZombieCap _ _ \<Rightarrow> capZombiePtr c
     | DomainCap \<Rightarrow> 0 | ReplyCap _ _ _ \<Rightarrow> 0 | IRQControlCap \<Rightarrow> 0 | IRQHandlerCap _ \<Rightarrow> 0 | NullCap \<Rightarrow> 0
     | ArchObjectCap a \<Rightarrow> cap_get_archCapPtr a)"

section \<open>Comparing capabilities\<close>

definition Mode_sameRegionAs :: "arch_cap \<Rightarrow> arch_cap \<Rightarrow> bool" where
  "Mode_sameRegionAs a b = (case a of
       PDPTCap _ p _ _ \<Rightarrow> (case b of PDPTCap _ q _ _ \<Rightarrow> p = q | _ \<Rightarrow> False)
     | PML4Cap _ p _ \<Rightarrow> (case b of PML4Cap _ q _ \<Rightarrow> p = q | _ \<Rightarrow> False)
     | _ \<Rightarrow> False)"

text \<open>A frame capability with an invalid size makes the comparison fail.\<close>

definition Arch_sameRegionAs :: "arch_cap \<Rightarrow> arch_cap \<Rightarrow> bool option" where
  "Arch_sameRegionAs a b = (case (a, b) of
       (FrameCap _ botA sizeA _ _ _ _, FrameCap _ botB sizeB _ _ _ _) \<Rightarrow> do {
         bitsA \<leftarrow> pageBitsForSize sizeA;
         bitsB \<leftarrow> pageBitsForSize sizeB;
         let topA = botA + MASK bitsA;
         let topB = botB + MASK bitsB;
         Some (botA \<le> botB \<and> topA \<ge> topB \<and> botB \<le> topB) }
     | (PageTableCap _ p _ _, PageTableCap _ q _ _) \<Rightarrow> Some (p = q)
     | (PageDirectoryCap _ p _ _, PageDirectoryCap _ q _ _) \<Rightarrow> Some (p = q)
     | (ASIDControlCap, ASIDControlCap) \<Rightarrow> Some True
     | (ASIDPoolCap _ p, ASIDPoolCap _ q) \<Rightarrow> Some (p = q)
     | (IOPortControlCap, IOPortControlCap) \<Rightarrow> Some True
     | (IOPortControlCap, IOPortCap _ _) \<Rightarrow> Some True
     | (IOPortCap f l, IOPortCap f' l') \<Rightarrow> Some (f = f' \<and> l = l')
     | _ \<Rightarrow> Some (Mode_sameRegionAs a b))"

definition Arch_sameObjectAs :: "arch_cap \<Rightarrow> arch_cap \<Rightarrow> bool option" where
  "Arch_sameObjectAs a b =
     (case (a, b) of
        (IOPortControlCap, IOPortCap _ _) \<Rightarrow> Some False
      | (FrameCap _ p sz _ _ _ dev, FrameCap _ p' sz' _ _ _ dev') \<Rightarrow> Some (p = p' \<and> sz = sz' \<and> dev = dev')
      | _ \<Rightarrow> Arch_sameRegionAs a b)"

definition sameRegionAs :: "cap \<Rightarrow> cap \<Rightarrow> bool option" where
  "sameRegionAs a b = (case a of
       UntypedCap _ _ sz aBase \<Rightarrow>
         if cap_get_capIsPhysical b then do {
           let bBase = cap_get_capPtr b;
           let aTop = aBase + MASK sz;
           bits \<leftarrow> cap_get_capSizeBits b;
           let bTop = bBase + MASK bits;
           Some (aBase \<le> bBase \<and> bTop \<le> aTop \<and> bBase \<le> bTop) }
         else Some False
     | EndpointCap _ _ _ _ _ p \<Rightarrow> Some (case b of EndpointCap _ _ _ _ _ q \<Rightarrow> p = q | _ \<Rightarrow> False)
     | NotificationCap _ _ _ p \<Rightarrow> Some (case b of NotificationCap _ _ _ q \<Rightarrow> p = q | _ \<Rightarrow> False)
     | CNodeCap r _ _ p \<Rightarrow> Some (case b of CNodeCap r' _ _ q \<Rightarrow> p = q \<and> r = r' | _ \<Rightarrow> False)
     | ThreadCap p \<Rightarrow> Some (case b of ThreadCap q \<Rightarrow> p = q | _ \<Rightarrow> False)
     | ReplyCap _ _ p \<Rightarrow> Some (case b of ReplyCap _ _ q \<Rightarrow> p = q | _ \<Rightarrow> False)
     | DomainCap \<Rightarrow> Some (case b of DomainCap \<Rightarrow> True | _ \<Rightarrow> False)
     | IRQControlCap \<Rightarrow> Some (case b of IRQControlCap \<Rightarrow> True | IRQHandlerCap _ \<Rightarrow> True | _ \<Rightarrow> False)
     | IRQHandlerCap i \<Rightarrow> Some (case b of IRQHandlerCap j \<Rightarrow> i = j | _ \<Rightarrow> False)
     | ArchObjectCap x \<Rightarrow> (case b of ArchObjectCap y \<Rightarrow> Arch_sameRegionAs x y | _ \<Rightarrow> Some False)
     | _ \<Rightarrow> Some False)"

definition sameObjectAs :: "cap \<Rightarrow> cap \<Rightarrow> bool option" where
  "sameObjectAs a b =
     (if is_UntypedCap a then Some False
      else if a = IRQControlCap then Some False
      else case (a, b) of
        (ArchObjectCap x, ArchObjectCap y) \<Rightarrow> Arch_sameObjectAs x y
      | _ \<Rightarrow> sameRegionAs a b)"

definition Arch_isCapRevocable :: "arch_cap \<Rightarrow> cap \<Rightarrow> bool" where
  "Arch_isCapRevocable derivedCap srcCap =
     (case derivedCap of IOPortCap _ _ \<Rightarrow> srcCap = ArchObjectCap IOPortControlCap | _ \<Rightarrow> False)"

definition isCapRevocable :: "cap \<Rightarrow> cap \<Rightarrow> bool option" where
  "isCapRevocable derivedCap srcCap = (case derivedCap of
       ArchObjectCap a \<Rightarrow> Some (Arch_isCapRevocable a srcCap)
     | EndpointCap b _ _ _ _ _ \<Rightarrow> do { k_assert (is_EndpointCap srcCap); Some (b \<noteq> capEPBadge srcCap) }
     | NotificationCap b _ _ _ \<Rightarrow> do { k_assert (is_NotificationCap srcCap); Some (b \<noteq> capNtfnBadge srcCap) }
     | IRQHandlerCap _ \<Rightarrow> Some (srcCap = IRQControlCap)
     | UntypedCap _ _ _ _ \<Rightarrow> Some True
     | _ \<Rightarrow> Some False)"

definition hasCancelSendRights :: "cap \<Rightarrow> bool" where
  "hasCancelSendRights c = (case c of
       EndpointCap _ grantReply grant send receive _ \<Rightarrow> send \<and> receive \<and> grantReply \<and> grant
     | _ \<Rightarrow> False)"

section \<open>Rights and data\<close>

record cap_rights =
  capAllowGrantReply :: bool
  capAllowGrant :: bool
  capAllowRead :: bool
  capAllowWrite :: bool

definition rightsFromWord :: "u64 \<Rightarrow> cap_rights" where
  "rightsFromWord w = \<lparr>capAllowGrantReply = bit w 3, capAllowGrant = bit w 2, capAllowRead = bit w 1, capAllowWrite = bit w 0\<rparr>"

definition VMKernelOnly :: nat where "VMKernelOnly = 1"
definition VMReadOnly :: nat where "VMReadOnly = 2"
definition VMReadWrite :: nat where "VMReadWrite = 3"

definition maskVMRights :: "nat \<Rightarrow> cap_rights \<Rightarrow> nat" where
  "maskVMRights vm_rights r =
     (if vm_rights = VMReadOnly \<and> capAllowRead r then VMReadOnly
      else if vm_rights = VMReadWrite \<and> capAllowRead r
      then (if \<not> capAllowWrite r then VMReadOnly else VMReadWrite)
      else VMKernelOnly)"

definition Arch_maskCapRights :: "cap_rights \<Rightarrow> arch_cap \<Rightarrow> arch_cap" where
  "Arch_maskCapRights r c = (case c of
       FrameCap asid p sz mt addr vmr dev \<Rightarrow> FrameCap asid p sz mt addr (maskVMRights vmr r) dev
     | _ \<Rightarrow> c)"

definition maskCapRights :: "cap_rights \<Rightarrow> cap \<Rightarrow> cap" where
  "maskCapRights r c = (case c of
       ArchObjectCap a \<Rightarrow> ArchObjectCap (Arch_maskCapRights r a)
     | EndpointCap badge grantReply grant send receive p \<Rightarrow>
         EndpointCap badge (grantReply \<and> capAllowGrantReply r) (grant \<and> capAllowGrant r)
           (send \<and> capAllowWrite r) (receive \<and> capAllowRead r) p
     | NotificationCap badge receive send p \<Rightarrow>
         NotificationCap badge (receive \<and> capAllowRead r) (send \<and> capAllowWrite r) p
     | ReplyCap grant m p \<Rightarrow> ReplyCap (grant \<and> capAllowGrant r) m p
     | _ \<Rightarrow> c)"

definition CapData_guardSize :: "u64 \<Rightarrow> u64" where "CapData_guardSize w = w AND MASK 6"
definition CapData_guard :: "u64 \<Rightarrow> u64" where "CapData_guard w = drop_bit 6 w"

definition updateCapData :: "bool \<Rightarrow> u64 \<Rightarrow> cap \<Rightarrow> cap" where
  "updateCapData preserve newData c = (case c of
       ArchObjectCap _ \<Rightarrow> c
     | EndpointCap badge grantReply grant send receive p \<Rightarrow>
         if \<not> preserve \<and> badge = 0 then EndpointCap newData grantReply grant send receive p else NullCap
     | NotificationCap badge receive send p \<Rightarrow>
         if \<not> preserve \<and> badge = 0 then NotificationCap newData receive send p else NullCap
     | CNodeCap radix _ _ p \<Rightarrow>
         let guardSize = CapData_guardSize newData in
         if guardSize + radix > wordBits then NullCap
         else let guard = CapData_guard newData AND MASK guardSize in CNodeCap radix guardSize guard p
     | _ \<Rightarrow> c)"

section \<open>Laws\<close>

definition rights_meet :: "cap_rights \<Rightarrow> cap_rights \<Rightarrow> cap_rights" where
  "rights_meet r q = \<lparr>capAllowGrantReply = capAllowGrantReply r \<and> capAllowGrantReply q,
     capAllowGrant = capAllowGrant r \<and> capAllowGrant q, capAllowRead = capAllowRead r \<and> capAllowRead q,
     capAllowWrite = capAllowWrite r \<and> capAllowWrite q\<rparr>"

text \<open>The rights a capability conveys: send, receive, grant and grant-reply; for frames read and
  write.\<close>

definition conveyed :: "cap \<Rightarrow> cap_rights" where
  "conveyed c = (case c of
       EndpointCap _ gr g s r _ \<Rightarrow> \<lparr>capAllowGrantReply = gr, capAllowGrant = g, capAllowRead = r, capAllowWrite = s\<rparr>
     | NotificationCap _ r s _ \<Rightarrow> \<lparr>capAllowGrantReply = False, capAllowGrant = False, capAllowRead = r, capAllowWrite = s\<rparr>
     | ReplyCap g _ _ \<Rightarrow> \<lparr>capAllowGrantReply = False, capAllowGrant = g, capAllowRead = False, capAllowWrite = False\<rparr>
     | ArchObjectCap (FrameCap _ _ _ _ _ v _) \<Rightarrow>
         \<lparr>capAllowGrantReply = False, capAllowGrant = False, capAllowRead = v = VMReadOnly \<or> v = VMReadWrite,
           capAllowWrite = v = VMReadWrite\<rparr>
     | _ \<Rightarrow> \<lparr>capAllowGrantReply = False, capAllowGrant = False, capAllowRead = False, capAllowWrite = False\<rparr>)"

lemma maskVMRights_compose: "maskVMRights (maskVMRights v r) q = maskVMRights v (rights_meet r q)"
  by (simp add: maskVMRights_def rights_meet_def VMKernelOnly_def VMReadOnly_def VMReadWrite_def)

definition no_rights :: cap_rights where
  "no_rights = \<lparr>capAllowGrantReply = False, capAllowGrant = False, capAllowRead = False, capAllowWrite = False\<rparr>"

definition is_frame :: "cap \<Rightarrow> bool" where
  "is_frame c = (case c of ArchObjectCap (FrameCap _ _ _ _ _ _ _) \<Rightarrow> True | _ \<Rightarrow> False)"

lemma maskCapRights_rights:
  "conveyed (maskCapRights r c) = (if is_frame c \<and> \<not> capAllowRead r then no_rights else rights_meet (conveyed c) r)"
  by (auto simp: is_frame_def no_rights_def rights_meet_def conveyed_def maskCapRights_def Arch_maskCapRights_def
      maskVMRights_def VMKernelOnly_def VMReadOnly_def VMReadWrite_def split: cap.split arch_cap.split)

lemma maskCapRights_conveyed:
  "rights_meet (conveyed (maskCapRights r c)) (rights_meet (conveyed c) r) = conveyed (maskCapRights r c)"
  by (simp add: maskCapRights_rights rights_meet_def no_rights_def)

text \<open>C34. Masking intersects rights: what a capability conveys after masking are exactly the rights
  it conveyed before that the mask allows, except that a mask that does not allow reading takes
  every right to a frame away, also the right to write, since there are no write-only mappings.
  Masking twice is masking with the intersection, so no order or repetition of masks regains a
  right; and masking keeps the pointer and the size of the object.\<close>

theorem maskCapRights_shrinks:
  "conveyed (maskCapRights r c) = (if is_frame c \<and> \<not> capAllowRead r then no_rights else rights_meet (conveyed c) r)
   \<and> maskCapRights q (maskCapRights r c) = maskCapRights (rights_meet r q) c
   \<and> cap_get_capPtr (maskCapRights r c) = cap_get_capPtr c
   \<and> cap_get_capSizeBits (maskCapRights r c) = cap_get_capSizeBits c"
proof (intro conjI)
  show "conveyed (maskCapRights r c) = (if is_frame c \<and> \<not> capAllowRead r then no_rights else rights_meet (conveyed c) r)"
    by (rule maskCapRights_rights)
  show "maskCapRights q (maskCapRights r c) = maskCapRights (rights_meet r q) c"
    by (auto simp: maskCapRights_def Arch_maskCapRights_def maskVMRights_compose rights_meet_def [of r]
        split: cap.split arch_cap.split)
qed (auto simp: maskCapRights_def Arch_maskCapRights_def cap_get_capPtr_def cap_get_archCapPtr_def
      cap_get_capSizeBits_def cap_get_archCapSizeBits_def split: cap.split arch_cap.split)

text \<open>The object a capability names, as far as sharing of it is concerned: untyped memory, zombies,
  the interrupt control and null capabilities name none.\<close>

datatype arch_key =
    Obj_Frame ptr nat bool | Obj_PageTable ptr | Obj_PageDirectory ptr | Obj_PDPT ptr | Obj_PML4 ptr
  | Obj_ASIDControl | Obj_ASIDPool ptr | Obj_IOPortControl | Obj_IOPort u16 u16

datatype obj_key =
    Obj_Endpoint ptr | Obj_Notification ptr | Obj_CNode ptr u64 | Obj_Thread ptr | Obj_Reply ptr | Obj_Domain
  | Obj_IRQ u64 | Obj_Arch arch_key

definition arch_object_of :: "arch_cap \<Rightarrow> arch_key" where
  "arch_object_of c = (case c of
       FrameCap _ p sz _ _ _ dev \<Rightarrow> Obj_Frame p sz dev
     | PageTableCap _ p _ _ \<Rightarrow> Obj_PageTable p
     | PageDirectoryCap _ p _ _ \<Rightarrow> Obj_PageDirectory p
     | PDPTCap _ p _ _ \<Rightarrow> Obj_PDPT p
     | PML4Cap _ p _ \<Rightarrow> Obj_PML4 p
     | ASIDControlCap \<Rightarrow> Obj_ASIDControl
     | ASIDPoolCap _ p \<Rightarrow> Obj_ASIDPool p
     | IOPortControlCap \<Rightarrow> Obj_IOPortControl
     | IOPortCap f l \<Rightarrow> Obj_IOPort f l)"

definition object_of :: "cap \<Rightarrow> obj_key option" where
  "object_of c = (case c of
       EndpointCap _ _ _ _ _ p \<Rightarrow> Some (Obj_Endpoint p)
     | NotificationCap _ _ _ p \<Rightarrow> Some (Obj_Notification p)
     | CNodeCap r _ _ p \<Rightarrow> Some (Obj_CNode p r)
     | ThreadCap p \<Rightarrow> Some (Obj_Thread p)
     | ReplyCap _ _ p \<Rightarrow> Some (Obj_Reply p)
     | DomainCap \<Rightarrow> Some Obj_Domain
     | IRQHandlerCap i \<Rightarrow> Some (Obj_IRQ i)
     | ArchObjectCap a \<Rightarrow> Some (Obj_Arch (arch_object_of a))
     | _ \<Rightarrow> None)"

lemma Arch_sameObjectAs_key: "Arch_sameObjectAs x y = Some (arch_object_of x = arch_object_of y)"
  by (cases x; cases y; simp add: Arch_sameObjectAs_def Arch_sameRegionAs_def Mode_sameRegionAs_def arch_object_of_def)

text \<open>C35. sameObjectAs compares objects: it answers for every two capabilities, and the answer is
  yes exactly if both name an object and it is the same one. So it is symmetric and transitive,
  which is what lets isFinalCapability look only at the two neighbours in the derivation list.\<close>

theorem sameObjectAs_compares_objects:
  "sameObjectAs a b = Some (object_of a \<noteq> None \<and> object_of a = object_of b)"
  by (cases a; cases b; simp add: sameObjectAs_def sameRegionAs_def Arch_sameObjectAs_key object_of_def)

lemma split_word:
  assumes "p AND k = 0" "n AND k = (n :: u64)"
  shows "(p AND NOT k OR n AND k) AND k = n" "(p AND NOT k OR n AND k) AND NOT k = p" "p AND NOT k = p"
  using assms by (auto simp: bit_eq_iff bit_and_iff bit_or_iff bit_not_iff possible_bit_def)

definition zombie_radix :: "u64 \<Rightarrow> u64" where
  "zombie_radix type = (if type = ZombieType_ZombieTCB then TCB_CNODE_RADIX else type)"

lemma capZombieBits_eq:
  assumes "type = ZombieType_ZombieTCB \<or> unat type < 63"
  shows "capZombieBits (ZombieCap i type) = zombie_radix type" "unat (zombie_radix type + 1) < 64"
proof -
  have "type AND MASK 6 = type" if "unat type < 63"
    using that by (simp add: MASK_and take_bit_word_eq_self word_less_nat_alt word_unat_eq_iff unsigned_take_bit_eq take_bit_nat_eq_self)
  then show "capZombieBits (ZombieCap i type) = zombie_radix type"
    using assms by (auto simp: capZombieBits_def zombie_radix_def ZombieType_ZombieCNode_def wordRadix_def)
  have "unat (type + 1) < 64" if "unat type < 63"
    using that by (simp add: unat_word_ariths)
  then show "unat (zombie_radix type + 1) < 64"
    using assms by (auto simp: zombie_radix_def TCB_CNODE_RADIX_def)
qed

text \<open>The word of a zombie: its address above, its count below.\<close>

lemma Zombie_new_fields:
  assumes type: "type = ZombieType_ZombieTCB \<or> unat type < 63" and "k = unat (zombie_radix type) + 1"
    and al: "unat p mod 2 ^ k = 0" and n: "unat n < 2 ^ k"
  shows "capZombieNumber (Zombie_new n type p) = n" "capZombiePtr (Zombie_new n type p) = p"
    "capZombieType (Zombie_new n type p) = type" "unat m < 2 ^ k \<Longrightarrow> set_capZombieNumber (Zombie_new n type p) m = Zombie_new m type p"
proof -
  let ?k = "MASK (zombie_radix type + 1)"
  note zb = capZombieBits_eq [OF type]
  have k: "unat (zombie_radix type + 1) = k"
    using type assms(2) by (auto simp: zombie_radix_def TCB_CNODE_RADIX_def unat_word_ariths)
  have "take_bit k (unat p) = 0" using al by (simp add: take_bit_eq_mod)
  then have pk: "p AND ?k = 0"
    using k zb(2) by (simp add: MASK_and word_unat_eq_iff unsigned_take_bit_eq)
  have fits: "m AND ?k = m" if "unat m < 2 ^ k" for m
    using that k zb(2) by (simp add: MASK_and word_unat_eq_iff unsigned_take_bit_eq take_bit_nat_eq_self)
  have new: "Zombie_new m type p = ZombieCap (p AND NOT ?k OR m AND ?k) type" for m
    by (simp add: Zombie_new_def zombie_radix_def Let_def)
  note split_n = split_word [OF pk fits [OF n]]
  show "capZombieNumber (Zombie_new n type p) = n" "capZombiePtr (Zombie_new n type p) = p"
    "capZombieType (Zombie_new n type p) = type"
    using split_n by (simp_all add: new capZombieNumber_def capZombiePtr_def zb(1) Let_def)
  show "set_capZombieNumber (Zombie_new n type p) m = Zombie_new m type p" if "unat m < 2 ^ k"
    using split_n fits [OF that] by (simp add: new set_capZombieNumber_def capZombiePtr_def zb(1) Let_def)
qed

text \<open>C36. A zombie holds its address and its count: for the type of a thread or of a CNode with up to
  2^62 slots, an address aligned to twice the number of slots and a count of at most that many
  slots, Zombie_new packs both into one word, and the accessors read them back; setting the
  count keeps the address and the type.\<close>

theorem zombie_roundtrip:
  assumes type: "type = ZombieType_ZombieTCB \<or> unat type < 63" and "k = unat (zombie_radix type) + 1"
    and al: "unat p mod 2 ^ k = 0" and n: "unat n < 2 ^ k" "unat m < 2 ^ k"
  shows "capZombieNumber (Zombie_new n type p) = n \<and> capZombiePtr (Zombie_new n type p) = p
    \<and> capZombieType (Zombie_new n type p) = type
    \<and> capZombieNumber (set_capZombieNumber (Zombie_new n type p) m) = m
    \<and> capZombiePtr (set_capZombieNumber (Zombie_new n type p) m) = p
    \<and> capZombieType (set_capZombieNumber (Zombie_new n type p) m) = type"
  using Zombie_new_fields [OF assms(1-4)] Zombie_new_fields(1-3) [OF assms(1-3,5)] n(2) by simp

theorem zombie_roundtrip_witness:
  "capZombieNumber (Zombie_new 4 2 0x1000) = 4 \<and> capZombiePtr (Zombie_new 4 2 0x1000) = 0x1000
   \<and> capZombieNumber (set_capZombieNumber (Zombie_new 4 2 0x1000) 3) = 3"
proof -
  have "zombie_radix 2 = 2" by (simp add: zombie_radix_def ZombieType_ZombieTCB_def BIT_def wordRadix_def)
  then show ?thesis using zombie_roundtrip [of 2 3 "0x1000" 4 3] by simp
qed

text \<open>New guards are well formed and badges are set once: updateCapData on a CNode capability
  gives either the null capability or a capability to the same CNode whose guard fits its size
  and whose guard and radix together resolve at most 64 bits; on an endpoint or notification
  capability that has a badge, or in a move, it gives the null capability, so a badge never
  changes.\<close>

lemma updateCapData_well_formed:
  "(is_CNodeCap c \<and> unat (capCNodeRadix c) < 64 \<longrightarrow> updateCapData pr w c = NullCap \<or>
      (let d = updateCapData pr w c in is_CNodeCap d \<and> cnode_fields d \<and> capCNodePtr d = capCNodePtr c
        \<and> capCNodeRadix d = capCNodeRadix c \<and> unat (capCNodeGuard d) < 2 ^ unat (capCNodeGuardSize d)
        \<and> unat (capCNodeRadix d) + unat (capCNodeGuardSize d) \<le> 64))
   \<and> (is_EndpointCap c \<and> (pr \<or> capEPBadge c \<noteq> 0) \<longrightarrow> updateCapData pr w c = NullCap)
   \<and> (is_NotificationCap c \<and> (pr \<or> capNtfnBadge c \<noteq> 0) \<longrightarrow> updateCapData pr w c = NullCap)"
proof (intro conjI impI)
  assume c: "is_CNodeCap c \<and> unat (capCNodeRadix c) < 64"
  then obtain r g gs p where eq: "c = CNodeCap r gs g p" "unat r < 64" by (cases c) auto
  let ?gs = "CapData_guardSize w"
  have gs: "unat ?gs < 64"
    using take_bit_nat_less_exp [of 6 "unat w"] by (simp add: CapData_guardSize_def MASK_and unsigned_take_bit_eq)
  then have sum: "unat (?gs + r) = unat ?gs + unat r" using eq(2) by (simp add: unat_word_ariths)
  have "unat (CapData_guard w AND MASK ?gs) < 2 ^ unat ?gs"
    using gs take_bit_nat_less_exp by (simp add: MASK_and unsigned_take_bit_eq)
  then show "updateCapData pr w c = NullCap \<or>
      (let d = updateCapData pr w c in is_CNodeCap d \<and> cnode_fields d \<and> capCNodePtr d = capCNodePtr c
        \<and> capCNodeRadix d = capCNodeRadix c \<and> unat (capCNodeGuard d) < 2 ^ unat (capCNodeGuardSize d)
        \<and> unat (capCNodeRadix d) + unat (capCNodeGuardSize d) \<le> 64)"
    using eq gs sum
    by (auto simp: updateCapData_def Let_def cnode_fields_def wordBits_def word_less_nat_alt not_less)
qed (auto simp: updateCapData_def split: cap.splits)

end
