(* ===== verification/K_Mdb.thy ===== *)
theory K_Mdb
  imports K_Cap K_Queue
begin

text \<open>
  The capability derivation database and the operations on slots that keep it
  (src/kernel/src/object/cnode.c). Every occupied slot is in a doubly linked list through
  mdbNext and mdbPrev; the list is the preorder of the derivation tree. The operations work on
  the heap of capability table entries and are lifted to the kernel state.
\<close>

type_synonym cte_heap = "ptr \<rightharpoonup> cte"

section \<open>Slots\<close>

abbreviation set_mdbNext :: "ptr \<Rightarrow> cte \<Rightarrow> cte" where
  "set_mdbNext v \<equiv> cteMDBNode_update (mdbNext_update (\<lambda>_. v))"

abbreviation set_mdbPrev :: "ptr \<Rightarrow> cte \<Rightarrow> cte" where
  "set_mdbPrev v \<equiv> cteMDBNode_update (mdbPrev_update (\<lambda>_. v))"

text \<open>Writing through a pointer that may be NULL: the source tests it first.\<close>

definition upd_nonnull :: "cte_heap \<Rightarrow> ptr \<Rightarrow> (cte \<Rightarrow> cte) \<Rightarrow> cte_heap option" where
  "upd_nonnull h p f = (if p \<noteq> 0 then heap_upd h p f else Some h)"

definition seL4_MinUntypedBits :: u64 where "seL4_MinUntypedBits = 4"

definition MAX_FREE_INDEX :: "u64 \<Rightarrow> u64" where
  "MAX_FREE_INDEX sizeBits = BIT (sizeBits - seL4_MinUntypedBits)"

definition setUntypedCapAsFull :: "cap \<Rightarrow> cap \<Rightarrow> ptr \<Rightarrow> cte_heap \<Rightarrow> cte_heap option" where
  "setUntypedCapAsFull srcCap newCap srcSlot h = (case (srcCap, newCap) of
       (UntypedCap _ d sz p, UntypedCap _ _ sz' p') \<Rightarrow>
         if p = p' \<and> sz' = sz
         then heap_upd h srcSlot (cteCap_update (\<lambda>c. case c of
                UntypedCap _ d sz p \<Rightarrow> UntypedCap (MAX_FREE_INDEX sz) d sz p | _ \<Rightarrow> c))
         else Some h
     | _ \<Rightarrow> Some h)"

definition cteInsert_heap :: "cap \<Rightarrow> ptr \<Rightarrow> ptr \<Rightarrow> cte_heap \<Rightarrow> cte_heap option" where
  "cteInsert_heap newCap srcSlot destSlot h =
     do { src \<leftarrow> h srcSlot;
          newCapIsRevocable \<leftarrow> isCapRevocable newCap (cteCap src);
          let newMDB = (cteMDBNode src)\<lparr>mdbPrev := srcSlot, mdbRevocable := newCapIsRevocable,
                          mdbFirstBadged := newCapIsRevocable\<rparr>;
          dest \<leftarrow> h destSlot;
          k_assert (cteCap dest = NullCap);
          k_assert (mdbNext (cteMDBNode dest) = 0 \<and> mdbPrev (cteMDBNode dest) = 0);
          h \<leftarrow> setUntypedCapAsFull (cteCap src) newCap srcSlot h;
          h \<leftarrow> heap_upd h destSlot (cteCap_update (\<lambda>_. newCap));
          h \<leftarrow> heap_upd h destSlot (cteMDBNode_update (\<lambda>_. newMDB));
          h \<leftarrow> heap_upd h srcSlot (set_mdbNext destSlot);
          upd_nonnull h (mdbNext newMDB) (set_mdbPrev destSlot) }"

definition cteMove_heap :: "cap \<Rightarrow> ptr \<Rightarrow> ptr \<Rightarrow> cte_heap \<Rightarrow> cte_heap option" where
  "cteMove_heap newCap srcSlot destSlot h =
     do { dest \<leftarrow> h destSlot;
          k_assert (cteCap dest = NullCap);
          k_assert (mdbNext (cteMDBNode dest) = 0 \<and> mdbPrev (cteMDBNode dest) = 0);
          src \<leftarrow> h srcSlot;
          let mdb = cteMDBNode src;
          h \<leftarrow> heap_upd h destSlot (cteCap_update (\<lambda>_. newCap));
          h \<leftarrow> heap_upd h srcSlot (cteCap_update (\<lambda>_. NullCap));
          h \<leftarrow> heap_upd h destSlot (cteMDBNode_update (\<lambda>_. mdb));
          h \<leftarrow> heap_upd h srcSlot (cteMDBNode_update (\<lambda>_. nullMDBNode));
          h \<leftarrow> upd_nonnull h (mdbPrev mdb) (set_mdbNext destSlot);
          upd_nonnull h (mdbNext mdb) (set_mdbPrev destSlot) }"

definition cteSwap_heap :: "cap \<Rightarrow> ptr \<Rightarrow> cap \<Rightarrow> ptr \<Rightarrow> cte_heap \<Rightarrow> cte_heap option" where
  "cteSwap_heap cap1 slot1 cap2 slot2 h =
     do { h \<leftarrow> heap_upd h slot1 (cteCap_update (\<lambda>_. cap2));
          h \<leftarrow> heap_upd h slot2 (cteCap_update (\<lambda>_. cap1));
          mdb1 \<leftarrow> map_option cteMDBNode (h slot1);
          h \<leftarrow> upd_nonnull h (mdbPrev mdb1) (set_mdbNext slot2);
          h \<leftarrow> upd_nonnull h (mdbNext mdb1) (set_mdbPrev slot2);
          mdb2 \<leftarrow> map_option cteMDBNode (h slot2);
          h \<leftarrow> heap_upd h slot1 (cteMDBNode_update (\<lambda>_. mdb2));
          h \<leftarrow> heap_upd h slot2 (cteMDBNode_update (\<lambda>_. mdb1));
          h \<leftarrow> upd_nonnull h (mdbPrev mdb2) (set_mdbNext slot1);
          upd_nonnull h (mdbNext mdb2) (set_mdbPrev slot1) }"

text \<open>The part of emptySlot that changes slots; the flag tells that the slot was occupied.\<close>

definition emptySlot_heap :: "ptr \<Rightarrow> cte_heap \<Rightarrow> (bool \<times> cte_heap) option" where
  "emptySlot_heap slot h =
     do { c \<leftarrow> h slot;
          if cteCap c \<noteq> NullCap then do {
            let mdbNode = cteMDBNode c;
            let prev = mdbPrev mdbNode;
            let next = mdbNext mdbNode;
            h \<leftarrow> upd_nonnull h prev (set_mdbNext next);
            h \<leftarrow> upd_nonnull h next (set_mdbPrev prev);
            h \<leftarrow> upd_nonnull h next (cteMDBNode_update (mdbFirstBadged_update (\<lambda>b. b \<or> mdbFirstBadged mdbNode)));
            h \<leftarrow> heap_upd h slot (cteCap_update (\<lambda>_. NullCap));
            h \<leftarrow> heap_upd h slot (cteMDBNode_update (\<lambda>_. nullMDBNode));
            Some (True, h) }
          else Some (False, h) }"

definition insertNewCap_heap :: "ptr \<Rightarrow> ptr \<Rightarrow> cap \<Rightarrow> cte_heap \<Rightarrow> cte_heap option" where
  "insertNewCap_heap parent slot c h =
     do { p \<leftarrow> h parent;
          let next = mdbNext (cteMDBNode p);
          h \<leftarrow> heap_upd h slot (cteCap_update (\<lambda>_. c));
          h \<leftarrow> heap_upd h slot (cteMDBNode_update (\<lambda>_.
                 \<lparr>mdbNext = next, mdbRevocable = True, mdbFirstBadged = True, mdbPrev = parent\<rparr>));
          h \<leftarrow> upd_nonnull h next (set_mdbPrev slot);
          heap_upd h parent (set_mdbNext slot) }"

definition setupReplyMaster_heap :: "ptr \<Rightarrow> cte_heap \<Rightarrow> cte_heap option" where
  "setupReplyMaster_heap thread h =
     (let slot = TCB_PTR_CTE_PTR thread tcbReply in
      do { c \<leftarrow> h slot;
           if cteCap c = NullCap then do {
             h \<leftarrow> heap_upd h slot (cteCap_update (\<lambda>_. ReplyCap True True thread));
             h \<leftarrow> heap_upd h slot (cteMDBNode_update (\<lambda>_. nullMDBNode));
             h \<leftarrow> heap_upd h slot (cteMDBNode_update (mdbRevocable_update (\<lambda>_. True)));
             heap_upd h slot (cteMDBNode_update (mdbFirstBadged_update (\<lambda>_. True))) }
           else Some h })"

section \<open>Questions about the derivation tree\<close>

definition isMDBParentOf :: "cte \<Rightarrow> cte \<Rightarrow> bool option" where
  "isMDBParentOf a b =
     (if \<not> mdbRevocable (cteMDBNode a) then Some False
      else do {
        same \<leftarrow> sameRegionAs (cteCap a) (cteCap b);
        if \<not> same then Some False
        else case cteCap a of
          EndpointCap badge _ _ _ _ _ \<Rightarrow>
            Some (if badge = 0 then True
                  else badge = capEPBadge (cteCap b) \<and> \<not> mdbFirstBadged (cteMDBNode b))
        | NotificationCap badge _ _ _ \<Rightarrow>
            Some (if badge = 0 then True
                  else badge = capNtfnBadge (cteCap b) \<and> \<not> mdbFirstBadged (cteMDBNode b))
        | _ \<Rightarrow> Some True })"

definition ensureNoChildren :: "ptr \<Rightarrow> kstate \<Rightarrow> (exception \<times> kstate) option" where
  "ensureNoChildren slot s =
     do { c \<leftarrow> ctes s slot;
          if mdbNext (cteMDBNode c) \<noteq> 0 then do {
            n \<leftarrow> ctes s (mdbNext (cteMDBNode c));
            parent \<leftarrow> isMDBParentOf c n;
            if parent then Some (EXCEPTION_SYSCALL_ERROR, s\<lparr>current_syscall_error := RevokeFirst\<rparr>)
            else Some (EXCEPTION_NONE, s) }
          else Some (EXCEPTION_NONE, s) }"

definition ensureEmptySlot :: "ptr \<Rightarrow> kstate \<Rightarrow> (exception \<times> kstate) option" where
  "ensureEmptySlot slot s =
     do { c \<leftarrow> ctes s slot;
          if cteCap c \<noteq> NullCap then Some (EXCEPTION_SYSCALL_ERROR, s\<lparr>current_syscall_error := DeleteFirst\<rparr>)
          else Some (EXCEPTION_NONE, s) }"

definition isFinalCapability :: "ptr \<Rightarrow> cte_heap \<Rightarrow> bool option" where
  "isFinalCapability slot h =
     do { c \<leftarrow> h slot;
          let mdb = cteMDBNode c;
          prevIsSameObject \<leftarrow>
            (if mdbPrev mdb = 0 then Some False
             else do { prev \<leftarrow> h (mdbPrev mdb); sameObjectAs (cteCap prev) (cteCap c) });
          if prevIsSameObject then Some False
          else if mdbNext mdb = 0 then Some True
          else do { next \<leftarrow> h (mdbNext mdb);
                    same \<leftarrow> sameObjectAs (cteCap c) (cteCap next);
                    Some (\<not> same) } }"

definition slotCapLongRunningDelete :: "ptr \<Rightarrow> cte_heap \<Rightarrow> bool option" where
  "slotCapLongRunningDelete slot h =
     do { c \<leftarrow> h slot;
          if cteCap c = NullCap then Some False
          else do {
            final \<leftarrow> isFinalCapability slot h;
            if \<not> final then Some False
            else Some (case cteCap c of ThreadCap _ \<Rightarrow> True | ZombieCap _ _ \<Rightarrow> True | CNodeCap _ _ _ _ \<Rightarrow> True
                       | _ \<Rightarrow> False) } }"

definition capRemovable :: "cap \<Rightarrow> ptr \<Rightarrow> bool option" where
  "capRemovable c slot = (case c of
       NullCap \<Rightarrow> Some True
     | ZombieCap _ _ \<Rightarrow> (let n = capZombieNumber c; z_slot = capZombiePtr c in Some (n = 0 \<or> n = 1 \<and> slot = z_slot))
     | _ \<Rightarrow> None)"

definition capCyclicZombie :: "cap \<Rightarrow> ptr \<Rightarrow> bool" where
  "capCyclicZombie c slot \<longleftrightarrow> is_ZombieCap c \<and> capZombiePtr c = slot"

section \<open>Deriving capabilities\<close>

definition asidInvalid :: u64 where "asidInvalid = 0"
definition X86_MappingNone :: nat where "X86_MappingNone = 0"

definition derive_mapped :: "bool \<Rightarrow> arch_cap \<Rightarrow> kstate \<Rightarrow> exception \<times> cap \<times> kstate" where
  "derive_mapped isMapped c s =
     (if isMapped then (EXCEPTION_NONE, ArchObjectCap c, s)
      else (EXCEPTION_SYSCALL_ERROR, NullCap, s\<lparr>current_syscall_error := IllegalOperation\<rparr>))"

definition Mode_deriveCap :: "arch_cap \<Rightarrow> kstate \<Rightarrow> (exception \<times> cap \<times> kstate) option" where
  "Mode_deriveCap c s = (case c of
       PML4Cap _ _ m \<Rightarrow> Some (derive_mapped m c s)
     | PDPTCap _ _ m _ \<Rightarrow> Some (derive_mapped m c s)
     | FrameCap _ p sz _ addr vmr dev \<Rightarrow>
         Some (EXCEPTION_NONE, ArchObjectCap (FrameCap asidInvalid p sz X86_MappingNone addr vmr dev), s)
     | _ \<Rightarrow> None)"

definition Arch_deriveCap :: "arch_cap \<Rightarrow> kstate \<Rightarrow> (exception \<times> cap \<times> kstate) option" where
  "Arch_deriveCap c s = (case c of
       PageTableCap _ _ m _ \<Rightarrow> Some (derive_mapped m c s)
     | PageDirectoryCap _ _ m _ \<Rightarrow> Some (derive_mapped m c s)
     | ASIDControlCap \<Rightarrow> Some (EXCEPTION_NONE, ArchObjectCap c, s)
     | ASIDPoolCap _ _ \<Rightarrow> Some (EXCEPTION_NONE, ArchObjectCap c, s)
     | IOPortControlCap \<Rightarrow> Some (EXCEPTION_NONE, NullCap, s)
     | IOPortCap _ _ \<Rightarrow> Some (EXCEPTION_NONE, ArchObjectCap c, s)
     | _ \<Rightarrow> Mode_deriveCap c s)"

definition deriveCap :: "ptr \<Rightarrow> cap \<Rightarrow> kstate \<Rightarrow> (exception \<times> cap \<times> kstate) option" where
  "deriveCap slot c s = (case c of
       ArchObjectCap a \<Rightarrow> Arch_deriveCap a s
     | ZombieCap _ _ \<Rightarrow> Some (EXCEPTION_NONE, NullCap, s)
     | IRQControlCap \<Rightarrow> Some (EXCEPTION_NONE, NullCap, s)
     | UntypedCap _ _ _ _ \<Rightarrow> do {
         (status, s) \<leftarrow> ensureNoChildren slot s;
         Some (status, if status \<noteq> EXCEPTION_NONE then NullCap else c, s) }
     | ReplyCap _ _ _ \<Rightarrow> Some (EXCEPTION_NONE, NullCap, s)
     | _ \<Rightarrow> Some (EXCEPTION_NONE, c, s))"

section \<open>On the kernel state\<close>

definition on_ctes :: "(cte_heap \<Rightarrow> cte_heap option) \<Rightarrow> kstate \<Rightarrow> kstate option" where
  "on_ctes f s = do { h \<leftarrow> f (ctes s); Some (s\<lparr>ctes := h\<rparr>) }"

definition cteInsert :: "cap \<Rightarrow> ptr \<Rightarrow> ptr \<Rightarrow> kstate \<Rightarrow> kstate option" where
  "cteInsert newCap srcSlot destSlot = on_ctes (cteInsert_heap newCap srcSlot destSlot)"

definition cteMove :: "cap \<Rightarrow> ptr \<Rightarrow> ptr \<Rightarrow> kstate \<Rightarrow> kstate option" where
  "cteMove newCap srcSlot destSlot = on_ctes (cteMove_heap newCap srcSlot destSlot)"

definition cteSwap :: "cap \<Rightarrow> ptr \<Rightarrow> cap \<Rightarrow> ptr \<Rightarrow> kstate \<Rightarrow> kstate option" where
  "cteSwap cap1 slot1 cap2 slot2 = on_ctes (cteSwap_heap cap1 slot1 cap2 slot2)"

definition capSwapForDelete :: "ptr \<Rightarrow> ptr \<Rightarrow> kstate \<Rightarrow> kstate option" where
  "capSwapForDelete slot1 slot2 s =
     (if slot1 = slot2 then Some s
      else do { c1 \<leftarrow> ctes s slot1; c2 \<leftarrow> ctes s slot2; cteSwap (cteCap c1) slot1 (cteCap c2) slot2 s })"

definition setIRQState :: "irq_state \<Rightarrow> u64 \<Rightarrow> kstate \<Rightarrow> kstate" where
  "setIRQState irqState irq s =
     (let s = s\<lparr>intStateIRQTable := (intStateIRQTable s)(unat irq := irqState)\<rparr> in
      mach (Op_maskInterrupt (irqState = IRQInactive) irq) s)"

definition deletedIRQHandler :: "u64 \<Rightarrow> kstate \<Rightarrow> kstate" where
  "deletedIRQHandler irq s = setIRQState IRQInactive irq s"

definition Arch_postCapDeletion :: "arch_cap \<Rightarrow> kstate \<Rightarrow> kstate" where
  "Arch_postCapDeletion c s = (case c of IOPortCap f l \<Rightarrow> mach (Op_freeIOPortRange f l) s | _ \<Rightarrow> s)"

definition postCapDeletion :: "cap \<Rightarrow> kstate \<Rightarrow> kstate" where
  "postCapDeletion c s = (case c of
       IRQHandlerCap irq \<Rightarrow> deletedIRQHandler irq s
     | ArchObjectCap a \<Rightarrow> Arch_postCapDeletion a s
     | _ \<Rightarrow> s)"

definition emptySlot :: "ptr \<Rightarrow> cap \<Rightarrow> kstate \<Rightarrow> kstate option" where
  "emptySlot slot cleanupInfo s =
     do { (occupied, h) \<leftarrow> emptySlot_heap slot (ctes s);
          let s = s\<lparr>ctes := h\<rparr>;
          Some (if occupied then postCapDeletion cleanupInfo s else s) }"

definition insertNewCap :: "ptr \<Rightarrow> ptr \<Rightarrow> cap \<Rightarrow> kstate \<Rightarrow> kstate option" where
  "insertNewCap parent slot c = on_ctes (insertNewCap_heap parent slot c)"

definition setupReplyMaster :: "ptr \<Rightarrow> kstate \<Rightarrow> kstate option" where
  "setupReplyMaster thread = on_ctes (setupReplyMaster_heap thread)"

end
