(* ===== verification/K_Mdb_Lists.thy ===== *)
theory K_Mdb_Lists
  imports K_Mdb
begin

text \<open>
  The capability derivation database as a set of lists of slots. The relation \<open>mdb_rel\<close> states that
  the occupied slots are exactly the members of disjoint doubly linked lists; inserting, moving,
  swapping and emptying slots are list insertion, renaming and removal.
\<close>

section \<open>The database as lists of slots\<close>

abbreviation mdb_dll :: "cte_heap \<Rightarrow> ptr list \<Rightarrow> bool" where
  "mdb_dll \<equiv> dll (\<lambda>c. mdbNext (cteMDBNode c)) (\<lambda>c. mdbPrev (cteMDBNode c))"

interpretation mdb: links "\<lambda>c. mdbNext (cteMDBNode c)" "\<lambda>c. mdbPrev (cteMDBNode c)" set_mdbNext set_mdbPrev
  by unfold_locales simp_all

definition unlinked :: "cte \<Rightarrow> bool" where
  "unlinked c \<longleftrightarrow> mdbNext (cteMDBNode c) = 0 \<and> mdbPrev (cteMDBNode c) = 0"

definition slot_ok :: "bool \<Rightarrow> cte \<Rightarrow> bool" where
  "slot_ok listed c \<longleftrightarrow> (if listed then cteCap c \<noteq> NullCap else cteCap c = NullCap \<and> unlinked c)"

lemma slot_ok_mono:
  "slot_ok P c \<Longrightarrow> (cteCap c' = NullCap \<longleftrightarrow> cteCap c = NullCap) \<Longrightarrow> (unlinked c \<Longrightarrow> unlinked c') \<Longrightarrow> slot_ok P c'"
  by (simp add: slot_ok_def split: if_splits)

text \<open>The occupied slots are exactly the members of disjoint doubly linked lists; empty slots have
  no links.\<close>

definition mdb_rel :: "cte_heap \<Rightarrow> ptr list list \<Rightarrow> bool" where
  "mdb_rel h xss \<longleftrightarrow> distinct (concat xss) \<and> (\<forall>xs \<in> set xss. mdb_dll h xs) \<and> h 0 = None
     \<and> (\<forall>p c. h p = Some c \<longrightarrow> slot_ok (p \<in> set (concat xss)) c)"

definition caps_of :: "cte_heap \<Rightarrow> ptr \<rightharpoonup> cap" where
  "caps_of h p = map_option cteCap (h p)"

lemma upd_nonnull_link: "p = 0 \<or> h p \<noteq> None \<Longrightarrow> upd_nonnull h p f = Some (link_upd f h p)"
  by (auto simp: upd_nonnull_def link_upd_def heap_upd_def)

lemma link_upd_at: "link_upd f h p x = (if p = x \<and> x \<noteq> 0 then map_option f (h x) else h x)"
  by (auto simp: link_upd_def split: option.splits)

lemma heap_upd_Some: "h p = Some c \<Longrightarrow> heap_upd h p f = Some (h(p \<mapsto> f c))"
  by (simp add: heap_upd_def)

lemma caps_of_link [simp]:
  "caps_of (link_upd (cteMDBNode_update f) h p) = caps_of h"
  by (auto simp: caps_of_def link_upd_def fun_eq_iff split: option.splits)

lemma caps_of_upd [simp]: "caps_of (h(p \<mapsto> c)) = (caps_of h)(p \<mapsto> cteCap c)"
  by (auto simp: caps_of_def)

lemma mdb_relD:
  assumes "mdb_rel h xss"
  shows "distinct (concat xss)" "xs \<in> set xss \<Longrightarrow> mdb_dll h xs" "h 0 = None"
    "h p = Some c \<Longrightarrow> slot_ok (p \<in> set (concat xss)) c"
  using assms unfolding mdb_rel_def by blast+

lemma mdb_rel_split:
  assumes "mdb_rel h xss" "x \<in> set (concat xss)"
  obtains A us vs B c where "xss = A @ (us @ x # vs) # B" "mdb_dll h (us @ x # vs)" "h x = Some c"
    "mdbNext (cteMDBNode c) = hd0 vs" "mdbPrev (cteMDBNode c) = last0 us" "cteCap c \<noteq> NullCap"
    "x \<notin> set (concat A)" "x \<notin> set (concat B)" "x \<noteq> 0"
proof -
  obtain xs where xs: "xs \<in> set xss" "x \<in> set xs" using assms(2) by auto
  then obtain A B where AB: "xss = A @ xs # B" by (meson split_list)
  have d: "mdb_dll h xs" using assms(1) xs(1) by (simp add: mdb_rel_def)
  then obtain us vs c where c: "xs = us @ x # vs" "h x = Some c" "mdbPrev (cteMDBNode c) = last0 us"
    "mdbNext (cteMDBNode c) = hd0 vs" using xs(2) by (rule dll_elem)
  have "cteCap c \<noteq> NullCap" using assms c(2) by (auto simp: mdb_rel_def slot_ok_def)
  moreover have "x \<notin> set (concat A)" "x \<notin> set (concat B)"
    using assms(1) AB xs(2) by (auto simp: mdb_rel_def)
  moreover have "x \<noteq> 0" using d xs(2) by (auto simp: dll_def)
  ultimately show ?thesis using that AB c d by blast
qed

text \<open>An operation that changes one list and the slots it adds or removes.\<close>

lemma mdb_frame:
  assumes "mdb_rel h (A @ xs # B)" and ys: "mdb_dll h' ys"
    and "set ys \<inter> set (concat (A @ B)) = {}"
    and same: "\<And>p. p \<notin> set xs \<Longrightarrow> p \<notin> set ys \<Longrightarrow> h' p = h p"
    and ok: "\<And>p c. h' p = Some c \<Longrightarrow> p \<in> set xs \<or> p \<in> set ys \<Longrightarrow> slot_ok (p \<in> set ys) c"
  shows "mdb_rel h' (A @ ys # B)"
proof -
  have d: "distinct (concat (A @ xs # B))" and l: "\<And>zs. zs \<in> set A \<union> set B \<union> {xs} \<Longrightarrow> mdb_dll h zs" and z: "h 0 = None"
    and s: "\<And>p c. h p = Some c \<Longrightarrow> slot_ok (p \<in> set (concat (A @ xs # B))) c"
    using assms(1) by (auto simp: mdb_rel_def)
  have "mdb_dll h' zs" if "zs \<in> set A \<union> set B" for zs
  proof -
    have "set zs \<inter> set xs = {}" "set zs \<inter> set ys = {}" using that d assms(3) by auto
    then have "\<And>p. p \<in> set zs \<Longrightarrow> h' p = h p" using same by blast
    then have "mdb_dll h' zs \<longleftrightarrow> mdb_dll h zs" by (intro dll_cong) simp
    then show ?thesis using l that by blast
  qed
  moreover have "0 \<notin> set xs" "0 \<notin> set ys" using l [of xs] ys by (auto simp: dll_def)
  then have "h' 0 = None" using same z by simp
  moreover have "slot_ok (p \<in> set (concat (A @ ys # B))) c" if "h' p = Some c" for p c
  proof (cases "p \<in> set xs \<or> p \<in> set ys")
    case True
    then have "p \<in> set ys \<longleftrightarrow> p \<in> set (concat (A @ ys # B))" using d by auto
    then show ?thesis using ok [OF that True] by simp
  next
    case False
    then show ?thesis using s [of p c] same [of p] that by simp
  qed
  moreover have "distinct (concat (A @ ys # B))" using d assms(3) ys by (auto simp: dll_def)
  ultimately show ?thesis using ys by (auto simp: mdb_rel_def)
qed


text \<open>What the neighbours of a slot say about it.\<close>

lemma mdb_slot:
  assumes rel: "mdb_rel h xss" and "h x = Some c"
  obtains "x \<noteq> 0" "mdbNext (cteMDBNode c) = 0" "mdbPrev (cteMDBNode c) = 0"
    | us vs where "mdb_dll h (us @ x # vs)" "mdbNext (cteMDBNode c) = hd0 vs" "mdbPrev (cteMDBNode c) = last0 us"
proof (cases "x \<in> set (concat xss)")
  case True
  from rel True obtain us vs c' where "mdb_dll h (us @ x # vs)" "h x = Some c'"
    "mdbNext (cteMDBNode c') = hd0 vs" "mdbPrev (cteMDBNode c') = last0 us" by (rule mdb_rel_split)
  then show ?thesis using assms(2) that(2) by simp
next
  case False
  then have "slot_ok False c" using mdb_relD(4) [OF rel assms(2)] by simp
  moreover have "x \<noteq> 0" using mdb_relD(3) [OF rel] assms(2) by auto
  ultimately show ?thesis using that(1) by (simp add: slot_ok_def unlinked_def)
qed

lemma mdb_next_prev:
  assumes "mdb_rel h xss" and x: "h x = Some c" and y: "h (mdbNext (cteMDBNode c)) = Some d"
  shows "mdbPrev (cteMDBNode d) = x"
  using assms(1) x
proof (cases rule: mdb_slot)
  case 1
  then show ?thesis using assms(1) y by (simp add: mdb_rel_def)
next
  case (2 us vs)
  then obtain vs' where "vs = mdbNext (cteMDBNode c) # vs'"
    using assms(1) y by (cases vs) (auto simp: mdb_rel_def)
  with 2(1) have "mdb_dll h ((us @ [x]) @ mdbNext (cteMDBNode c) # vs')" by simp
  then show ?thesis using y by (auto simp only: dll_split last0_simps)
qed

lemma mdb_prev_next:
  assumes "mdb_rel h xss" and y: "h y = Some d" and x: "h (mdbPrev (cteMDBNode d)) = Some c"
  shows "mdbNext (cteMDBNode c) = y"
  using assms(1) y
proof (cases rule: mdb_slot)
  case 1
  then show ?thesis using assms(1) x by (simp add: mdb_rel_def)
next
  case (2 us vs)
  then obtain us' where "us = us' @ [mdbPrev (cteMDBNode d)]"
    using assms(1) x by (cases us rule: rev_cases) (auto simp: mdb_rel_def)
  with 2(1) have "mdb_dll h (us' @ mdbPrev (cteMDBNode d) # y # vs)" by simp
  then show ?thesis using x by (auto simp only: dll_split hd0_simps)
qed

lemma mdb_sym:
  assumes "mdb_rel h xss" and "h x = Some c" and "h y = Some d"
  shows "mdbNext (cteMDBNode c) = y \<longleftrightarrow> mdbPrev (cteMDBNode d) = x"
proof
  show "mdbPrev (cteMDBNode d) = x" if "mdbNext (cteMDBNode c) = y"
    by (rule mdb_next_prev [OF assms(1,2)]) (simp add: that assms(3))
  show "mdbNext (cteMDBNode c) = y" if "mdbPrev (cteMDBNode d) = x"
    by (rule mdb_prev_next [OF assms(1,3)]) (simp add: that assms(2))
qed

lemma mdb_no_cycle:
  assumes "mdb_rel h xss" and "h x = Some c"
  shows "x \<noteq> 0 \<and> mdbNext (cteMDBNode c) \<noteq> x \<and> mdbPrev (cteMDBNode c) \<noteq> x
    \<and> (mdbNext (cteMDBNode c) \<noteq> 0 \<longrightarrow> mdbNext (cteMDBNode c) \<noteq> mdbPrev (cteMDBNode c))
    \<and> (mdbNext (cteMDBNode c) = 0 \<or> h (mdbNext (cteMDBNode c)) \<noteq> None)
    \<and> (mdbPrev (cteMDBNode c) = 0 \<or> h (mdbPrev (cteMDBNode c)) \<noteq> None)"
  using assms
proof (cases rule: mdb_slot)
  case (2 us vs)
  have d: "distinct (us @ x # vs)" "0 \<notin> set (us @ x # vs)" using 2(1) by (simp_all add: dll_def)
  have v: "hd0 vs = 0 \<or> hd0 vs \<in> set vs" by (cases vs) auto
  have u: "last0 us = 0 \<or> last0 us \<in> set us" using last0_in [of us] by (cases "us = []") auto
  have "hd0 vs = 0 \<or> h (hd0 vs) \<noteq> None" using v dll_dom [OF 2(1), of "hd0 vs"] by fastforce
  moreover have "last0 us = 0 \<or> h (last0 us) \<noteq> None" using u dll_dom [OF 2(1), of "last0 us"] by fastforce
  moreover have "x \<noteq> 0" "hd0 vs \<noteq> x" "last0 us \<noteq> x" using d u v by fastforce+
  moreover have "hd0 vs \<noteq> 0 \<longrightarrow> hd0 vs \<noteq> last0 us" using d u v by fastforce
  ultimately show ?thesis unfolding 2(2,3) by blast
next
  case 1
  show ?thesis unfolding 1(2,3) using 1(1) by simp
qed

section \<open>Insertion\<close>

definition insert_after :: "ptr \<Rightarrow> ptr \<Rightarrow> ptr list \<Rightarrow> ptr list" where
  "insert_after a b xs = concat (map (\<lambda>x. if x = a then [a, b] else [x]) xs)"

lemma insert_after_other: "a \<notin> set xs \<Longrightarrow> insert_after a b xs = xs"
  by (induction xs) (auto simp: insert_after_def)

lemma insert_after_at:
  "a \<notin> set us \<Longrightarrow> a \<notin> set vs \<Longrightarrow> insert_after a b (us @ a # vs) = us @ a # b # vs"
  using insert_after_other [of a us b] insert_after_other [of a vs b] by (simp add: insert_after_def)

lemma map_other: "(\<And>xs. a \<notin> set xs \<Longrightarrow> f xs = xs) \<Longrightarrow> a \<notin> set (concat A) \<Longrightarrow> map f A = A"
  by (induction A) auto

lemma insert_after_lists:
  assumes "distinct (concat (A @ (us @ a # vs) # B))"
  shows "map (insert_after a b) (A @ (us @ a # vs) # B) = A @ (us @ a # b # vs) # B"
  using assms map_other [of a "insert_after a b"] insert_after_other
  by (auto simp: insert_after_at)

definition as_full :: "cap \<Rightarrow> cap \<Rightarrow> cap" where
  "as_full src new = (case (src, new) of
       (UntypedCap f d sz p, UntypedCap _ _ sz' p') \<Rightarrow>
         if p = p' \<and> sz' = sz then UntypedCap (MAX_FREE_INDEX sz) d sz p else src
     | _ \<Rightarrow> src)"

lemma as_full_Null [simp]: "as_full src new = NullCap \<longleftrightarrow> src = NullCap"
  by (auto simp: as_full_def split: cap.splits)

lemma setUntypedCapAsFull_eq:
  "h srcSlot = Some c \<Longrightarrow>
   setUntypedCapAsFull (cteCap c) new srcSlot h = Some (h(srcSlot \<mapsto> c\<lparr>cteCap := as_full (cteCap c) new\<rparr>))"
  by (auto simp: setUntypedCapAsFull_def as_full_def heap_upd_def map_upd_triv split: cap.splits)

text \<open>Linking the prepared slot \<open>b\<close> behind \<open>a\<close>.\<close>

lemma mdb_link_behind:
  assumes rel: "mdb_rel h (A @ (us @ a # vs) # B)"
    and b: "b \<notin> set (concat (A @ (us @ a # vs) # B))" "b \<noteq> 0"
    and hb: "g b = Some nb" "mdbNext (cteMDBNode nb) = hd0 vs" "mdbPrev (cteMDBNode nb) = a" "cteCap nb \<noteq> NullCap"
    and ga: "h a = Some ca" "g a = Some ca'" "cteMDBNode ca' = cteMDBNode ca" "cteCap ca' \<noteq> NullCap"
    and go: "\<And>p. p \<noteq> a \<Longrightarrow> p \<noteq> b \<Longrightarrow> g p = h p"
  shows "mdb_rel (link_upd (set_mdbPrev b) (link_upd (set_mdbNext b) g a) (hd0 vs)) (A @ (us @ a # b # vs) # B)"
proof (rule mdb_frame [OF rel])
  let ?g = "link_upd (set_mdbPrev b) (link_upd (set_mdbNext b) g a) (hd0 vs)"
  have d: "mdb_dll h (us @ a # vs)" using rel by (simp add: mdb_rel_def)
  have links: "map_option (\<lambda>c. (mdbNext (cteMDBNode c), mdbPrev (cteMDBNode c))) (h p)
      = map_option (\<lambda>c. (mdbNext (cteMDBNode c), mdbPrev (cteMDBNode c))) (g p)" if "p \<in> set (us @ a # vs)" for p
    using that b(1) ga go [of p] by (cases "p = a"; cases "p = b") auto
  have "mdb_dll h (us @ a # vs) = mdb_dll g (us @ a # vs)" by (rule dll_cong) (rule links)
  then have "mdb_dll g (us @ a # vs)" using d by blast
  then show dg: "mdb_dll ?g (us @ a # b # vs)"
    using mdb.dll_insert [of g "us @ [a]" vs b nb] b hb by simp
  show "set (us @ a # b # vs) \<inter> set (concat (A @ B)) = {}"
    using rel b(1) by (auto simp: mdb_rel_def)
  have hv: "hd0 vs = 0 \<or> hd0 vs \<in> set vs" by (cases vs) auto
  fix p
  have capg: "caps_of g p = (if p = a then Some (cteCap ca') else if p = b then Some (cteCap nb) else caps_of h p)"
    using go ga(2) hb(1) by (simp add: caps_of_def)
  { assume "p \<notin> set (us @ a # vs)" "p \<notin> set (us @ a # b # vs)"
    then show "?g p = h p" using hv go by (cases "hd0 vs = 0"; cases "hd0 vs = p") auto }
  { fix c assume c: "?g p = Some c" "p \<in> set (us @ a # vs) \<or> p \<in> set (us @ a # b # vs)"
    then have p: "p \<in> set (us @ a # b # vs)" by auto
    have "caps_of g p = caps_of ?g p" by simp
    then have "caps_of g p = Some (cteCap c)" using c(1) by (simp only: caps_of_def option.map)
    moreover have "caps_of h p \<noteq> Some NullCap" if "p \<noteq> b"
      using rel p that by (auto simp: mdb_rel_def caps_of_def slot_ok_def)
    ultimately have "cteCap c \<noteq> NullCap" using capg ga(4) hb(4) by (auto split: if_splits)
    then show "slot_ok (p \<in> set (us @ a # b # vs)) c" using p by (simp add: slot_ok_def) }
qed

lemma cteInsert_heap_refines:
  assumes rel: "mdb_rel h xss" and src: "src \<in> set (concat xss)" "h src = Some cs"
    and dest: "dest \<notin> set (concat xss)" "h dest = Some cd"
    and new: "newCap \<noteq> NullCap" "isCapRevocable newCap (cteCap cs) = Some r"
  shows "\<exists>h'. cteInsert_heap newCap src dest h = Some h' \<and> mdb_rel h' (map (insert_after src dest) xss)
           \<and> caps_of h' = (caps_of h)(src \<mapsto> as_full (cteCap cs) newCap, dest \<mapsto> newCap)"
proof -
  from rel src(1) obtain A us vs B c' where xss: "xss = A @ (us @ src # vs) # B" and c': "mdb_dll h (us @ src # vs)"
    "h src = Some c'" "mdbNext (cteMDBNode c') = hd0 vs" "cteCap c' \<noteq> NullCap" "src \<noteq> 0"
    by (rule mdb_rel_split)
  then have c: "mdb_dll h (us @ src # vs)" "mdbNext (cteMDBNode cs) = hd0 vs" "cteCap cs \<noteq> NullCap" "src \<noteq> 0"
    using src(2) by simp_all
  have d0: "dest \<noteq> 0" "src \<noteq> dest" using rel dest src(1) by (auto simp: mdb_rel_def)
  have cd: "cteCap cd = NullCap" "unlinked cd" using rel dest by (auto simp: mdb_rel_def slot_ok_def)
  define nb where "nb = cd\<lparr>cteCap := newCap, cteMDBNode := (cteMDBNode cs)\<lparr>mdbPrev := src, mdbRevocable := r, mdbFirstBadged := r\<rparr>\<rparr>"
  define ca where "ca = cs\<lparr>cteCap := as_full (cteCap cs) newCap\<rparr>"
  define g where "g = h(src \<mapsto> ca, dest \<mapsto> nb)"
  have g: "g src = Some ca" "g dest = Some nb" "\<And>p. p \<noteq> src \<Longrightarrow> p \<noteq> dest \<Longrightarrow> g p = h p"
    using d0 by (auto simp: g_def)
  have hv: "hd0 vs = 0 \<or> link_upd (set_mdbNext dest) g src (hd0 vs) \<noteq> None"
    using mdb_no_cycle [OF rel src(2)] c(2) g(2,3) by (cases "hd0 vs = dest") auto
  let ?h = "link_upd (set_mdbPrev dest) (link_upd (set_mdbNext dest) g src) (hd0 vs)"
  have "setUntypedCapAsFull (cteCap cs) newCap src h = Some (h(src \<mapsto> ca))"
    using src(2) by (simp add: setUntypedCapAsFull_eq ca_def)
  moreover have "heap_upd (h(src \<mapsto> ca)) dest (cteCap_update (\<lambda>_. newCap)) = Some (h(src \<mapsto> ca, dest \<mapsto> cd\<lparr>cteCap := newCap\<rparr>))"
    using dest(2) d0(2) by (simp add: heap_upd_def)
  moreover have "heap_upd (h(src \<mapsto> ca, dest \<mapsto> cd\<lparr>cteCap := newCap\<rparr>)) dest (cteMDBNode_update (\<lambda>_. cteMDBNode nb)) = Some g"
    using dest(2) d0(2) by (simp add: heap_upd_def nb_def g_def)
  moreover have "heap_upd g src (set_mdbNext dest) = Some (link_upd (set_mdbNext dest) g src)"
    using g(1) c(4) by (rule heap_upd_link)
  moreover have "upd_nonnull (link_upd (set_mdbNext dest) g src) (hd0 vs) (set_mdbPrev dest) = Some ?h"
    using hv by (rule upd_nonnull_link)
  ultimately have "cteInsert_heap newCap src dest h = Some ?h"
    using src(2) dest(2) new(2) cd c(2) by (simp add: cteInsert_heap_def Let_def unlinked_def nb_def)
  moreover have "mdb_rel ?h (A @ (us @ src # dest # vs) # B)"
    using rel xss dest(1) d0 c g src(2) new(1)
    by (intro mdb_link_behind [where h = h and ca = cs and ca' = ca and nb = nb]) (auto simp: nb_def ca_def)
  moreover have "map (insert_after src dest) xss = A @ (us @ src # dest # vs) # B"
    unfolding xss by (rule insert_after_lists) (use rel xss in \<open>simp only: mdb_rel_def\<close>)
  ultimately show ?thesis by (simp add: g_def ca_def nb_def)
qed


lemma insertNewCap_heap_refines:
  assumes rel: "mdb_rel h xss" and parent: "parent \<in> set (concat xss)"
    and slot: "slot \<notin> set (concat xss)" "h slot = Some cd" and new: "c \<noteq> NullCap"
  shows "\<exists>h'. insertNewCap_heap parent slot c h = Some h' \<and> mdb_rel h' (map (insert_after parent slot) xss)
           \<and> caps_of h' = (caps_of h)(slot \<mapsto> c)"
proof -
  from rel parent obtain A us vs B cp where xss: "xss = A @ (us @ parent # vs) # B" and p: "mdb_dll h (us @ parent # vs)"
    "h parent = Some cp" "mdbNext (cteMDBNode cp) = hd0 vs" "cteCap cp \<noteq> NullCap" "parent \<noteq> 0"
    by (rule mdb_rel_split)
  have d0: "slot \<noteq> 0" "parent \<noteq> slot" using rel slot parent by (auto simp: mdb_rel_def)
  define nb where "nb = cd\<lparr>cteCap := c,
    cteMDBNode := \<lparr>mdbNext = hd0 vs, mdbRevocable = True, mdbFirstBadged = True, mdbPrev = parent\<rparr>\<rparr>"
  define g where "g = h(slot \<mapsto> nb)"
  have g: "g parent = Some cp" "g slot = Some nb" "\<And>p. p \<noteq> slot \<Longrightarrow> g p = h p"
    using d0 p(2) by (auto simp: g_def)
  have hv: "hd0 vs \<noteq> parent" "hd0 vs = 0 \<or> g (hd0 vs) \<noteq> None"
    using mdb_no_cycle [OF rel p(2)] p(3) g(2,3) by (cases "hd0 vs = slot"; simp)+
  have comm: "link_upd (set_mdbNext slot) (link_upd (set_mdbPrev slot) g (hd0 vs)) parent
      = link_upd (set_mdbPrev slot) (link_upd (set_mdbNext slot) g parent) (hd0 vs)"
    using hv by (auto simp: link_upd_def fun_eq_iff split: option.splits)
  let ?h = "link_upd (set_mdbPrev slot) (link_upd (set_mdbNext slot) g parent) (hd0 vs)"
  have "heap_upd h slot (cteCap_update (\<lambda>_. c)) = Some (h(slot \<mapsto> cd\<lparr>cteCap := c\<rparr>))"
    using slot(2) by (simp add: heap_upd_def)
  moreover have "heap_upd (h(slot \<mapsto> cd\<lparr>cteCap := c\<rparr>)) slot (cteMDBNode_update (\<lambda>_. cteMDBNode nb)) = Some g"
    by (simp add: heap_upd_def nb_def g_def)
  moreover have "upd_nonnull g (hd0 vs) (set_mdbPrev slot) = Some (link_upd (set_mdbPrev slot) g (hd0 vs))"
    using hv(2) by (rule upd_nonnull_link)
  moreover have "heap_upd (link_upd (set_mdbPrev slot) g (hd0 vs)) parent (set_mdbNext slot) = Some ?h"
    using heap_upd_link [of "link_upd (set_mdbPrev slot) g (hd0 vs)" parent cp] g(1) hv(1) p(5) comm by simp
  ultimately have "insertNewCap_heap parent slot c h = Some ?h"
    using p(2,3) by (simp add: insertNewCap_heap_def Let_def nb_def)
  moreover have "mdb_rel ?h (A @ (us @ parent # slot # vs) # B)"
    using rel xss slot(1) d0 p g new
    by (intro mdb_link_behind [where h = h and ca = cp and ca' = cp and nb = nb]) (auto simp: nb_def)
  moreover have "map (insert_after parent slot) xss = A @ (us @ parent # slot # vs) # B"
    unfolding xss by (rule insert_after_lists) (use rel xss in \<open>simp only: mdb_rel_def\<close>)
  ultimately show ?thesis by (simp add: g_def nb_def)
qed

section \<open>Removal\<close>

lemma remove_lists:
  assumes "distinct (concat (A @ (us @ a # vs) # B))"
  shows "map (removeAll a) (A @ (us @ a # vs) # B) = A @ (us @ vs) # B"
proof -
  have "map (removeAll a) A = A" "map (removeAll a) B = B"
    using assms by (auto intro: map_other [of a])
  then show ?thesis using assms by (auto simp: removeAll_id)
qed

lemma emptySlot_heap_refines:
  assumes rel: "mdb_rel h xss" and slot: "slot \<in> set (concat xss)"
  shows "\<exists>h'. emptySlot_heap slot h = Some (True, h') \<and> mdb_rel h' (map (removeAll slot) xss)
           \<and> caps_of h' = (caps_of h)(slot \<mapsto> NullCap)"
proof -
  from rel slot obtain A us vs B c where xss: "xss = A @ (us @ slot # vs) # B" and p: "mdb_dll h (us @ slot # vs)"
    "h slot = Some c" "mdbNext (cteMDBNode c) = hd0 vs" "mdbPrev (cteMDBNode c) = last0 us" "cteCap c \<noteq> NullCap"
    by (rule mdb_rel_split)
  define g where "g = link_upd (set_mdbPrev (last0 us)) (link_upd (set_mdbNext (hd0 vs)) h (last0 us)) (hd0 vs)"
  define g' where "g' = link_upd (cteMDBNode_update (mdbFirstBadged_update (\<lambda>b. b \<or> mdbFirstBadged (cteMDBNode c)))) g (hd0 vs)"
  let ?h = "g'(slot \<mapsto> c\<lparr>cteCap := NullCap, cteMDBNode := nullMDBNode\<rparr>)"
  have nb: "last0 us \<noteq> slot" "hd0 vs \<noteq> slot" "last0 us = 0 \<or> h (last0 us) \<noteq> None"
    "hd0 vs = 0 \<or> h (hd0 vs) \<noteq> None" "hd0 vs = 0 \<or> last0 us \<noteq> hd0 vs"
    using mdb_no_cycle [OF rel p(2)] p(3,4) by auto
  have nb': "last0 us = 0 \<or> last0 us \<in> set us" "hd0 vs = 0 \<or> hd0 vs \<in> set vs"
    using last0_in [of us] by (cases "us = []"; simp) (cases vs; simp)
  have gs: "g' slot = Some c" using nb p(2) by (simp add: g'_def g_def)
  have "upd_nonnull h (last0 us) (set_mdbNext (hd0 vs)) = Some (link_upd (set_mdbNext (hd0 vs)) h (last0 us))"
    using nb(3) by (rule upd_nonnull_link)
  moreover have "upd_nonnull (link_upd (set_mdbNext (hd0 vs)) h (last0 us)) (hd0 vs) (set_mdbPrev (last0 us)) = Some g"
    using nb unfolding g_def by (intro upd_nonnull_link) auto
  moreover have "hd0 vs = 0 \<or> g (hd0 vs) \<noteq> None"
    using nb by (auto simp: g_def link_upd_def split: option.splits)
  then have "upd_nonnull g (hd0 vs) (cteMDBNode_update (mdbFirstBadged_update (\<lambda>b. b \<or> mdbFirstBadged (cteMDBNode c)))) = Some g'"
    unfolding g'_def by (rule upd_nonnull_link)
  ultimately have "emptySlot_heap slot h = Some (True, ?h)"
    using p gs by (simp add: emptySlot_heap_def Let_def heap_upd_def)
  moreover have "mdb_dll ?h (us @ vs)"
  proof -
    have "mdb_dll g (us @ vs)" unfolding g_def using p(1) by (rule mdb.dll_unlink)
    then have "mdb_dll g' (us @ vs)" unfolding g'_def
      by (subst dll_cong [where h' = g]) (auto simp: link_upd_def split: option.splits)
    then show ?thesis using p(1) by (subst dll_other) (auto simp: dll_def)
  qed
  then have "mdb_rel ?h (A @ (us @ vs) # B)"
  proof (rule mdb_frame [OF rel [unfolded xss]])
    show "set (us @ vs) \<inter> set (concat (A @ B)) = {}" using rel xss by (auto simp: mdb_rel_def)
    fix q
    { assume "q \<notin> set (us @ slot # vs)"
      then have "q \<noteq> slot" "last0 us = 0 \<or> last0 us \<noteq> q" "hd0 vs = 0 \<or> hd0 vs \<noteq> q" using nb' by auto
      then show "?h q = h q" by (auto simp: g_def g'_def) }
    fix d assume d: "?h q = Some d" "q \<in> set (us @ slot # vs) \<or> q \<in> set (us @ vs)"
    then have "q \<noteq> slot \<Longrightarrow> caps_of g' q = Some (cteCap d)" by (simp add: caps_of_def)
    then have "q \<noteq> slot \<Longrightarrow> caps_of h q = Some (cteCap d)" by (simp add: g'_def g_def)
    then have "q \<noteq> slot \<Longrightarrow> cteCap d \<noteq> NullCap"
      using rel xss d(2) by (auto simp: mdb_rel_def caps_of_def slot_ok_def)
    then show "slot_ok (q \<in> set (us @ vs)) d"
      using d p(1) by (auto simp: slot_ok_def unlinked_def nullMDBNode_def dll_def)
  qed
  moreover have "map (removeAll slot) xss = A @ (us @ vs) # B"
    unfolding xss by (rule remove_lists) (use rel xss in \<open>simp only: mdb_rel_def\<close>)
  ultimately show ?thesis by (simp add: g'_def g_def)
qed


section \<open>Moving and swapping\<close>

definition exchange :: "ptr \<Rightarrow> ptr \<Rightarrow> ptr \<Rightarrow> ptr" where
  "exchange a b x = (if x = a then b else if x = b then a else x)"

lemma exchange_inj: "inj (exchange a b)"
  by (auto simp: inj_def exchange_def split: if_splits)

lemma exchange_exchange [simp]: "exchange a b (exchange a b x) = x"
  by (auto simp: exchange_def)

lemma exchange_in: "exchange a b p \<in> set xs \<longleftrightarrow> p \<in> set (map (exchange a b) xs)"
proof
  assume "exchange a b p \<in> set xs"
  then have "exchange a b (exchange a b p) \<in> set (map (exchange a b) xs)" by (simp only: list.set_map imageI)
  then show "p \<in> set (map (exchange a b) xs)" by simp
qed auto

text \<open>A heap that is the old one with two slots exchanged, the links to them included.\<close>

lemma mdb_rename:
  assumes rel: "mdb_rel h xss" and ab: "a \<noteq> 0" "b \<noteq> 0"
    and links: "\<And>x c. h x = Some c \<Longrightarrow> \<exists>c'. h' (exchange a b x) = Some c'
        \<and> mdbNext (cteMDBNode c') = exchange a b (mdbNext (cteMDBNode c))
        \<and> mdbPrev (cteMDBNode c') = exchange a b (mdbPrev (cteMDBNode c))
        \<and> (cteCap c' = NullCap \<longleftrightarrow> cteCap c = NullCap)"
    and none: "\<And>x. h x = None \<Longrightarrow> h' (exchange a b x) = None"
  shows "mdb_rel h' (map (map (exchange a b)) xss)"
proof -
  have r0: "exchange a b 0 = 0" using ab by (simp add: exchange_def)
  have "mdb_dll h' (map (exchange a b) xs)" if "xs \<in> set xss" for xs
  proof (rule dll_rename [where h = h])
    show "mdb_dll h xs" using rel that by (simp add: mdb_rel_def)
    show "\<exists>t'. h' (exchange a b x) = Some t' \<and> mdbNext (cteMDBNode t') = exchange a b (mdbNext (cteMDBNode t))
        \<and> mdbPrev (cteMDBNode t') = exchange a b (mdbPrev (cteMDBNode t))" if "h x = Some t" for x t
      using links [OF that] by blast
  qed (simp_all add: exchange_inj r0)
  moreover have "distinct (concat (map (map (exchange a b)) xss))"
    using rel by (simp add: mdb_rel_def map_concat [symmetric] distinct_map inj_on_subset [OF exchange_inj])
  moreover have "h' 0 = None" using none [of 0] rel r0 by (simp add: mdb_rel_def)
  moreover have "slot_ok (p \<in> set (concat (map (map (exchange a b)) xss))) c'" if "h' p = Some c'" for p c'
  proof -
    have "h (exchange a b p) \<noteq> None" using none [of "exchange a b p"] that by auto
    then obtain c where c: "h (exchange a b p) = Some c" by blast
    have "exchange a b p \<in> set (concat xss) \<longleftrightarrow> p \<in> set (concat (map (map (exchange a b)) xss))"
      by (simp only: exchange_in map_concat)
    then have "slot_ok (p \<in> set (concat (map (map (exchange a b)) xss))) c" using mdb_relD(4) [OF rel c] by simp
    moreover obtain c'' where "h' (exchange a b (exchange a b p)) = Some c''"
      "mdbNext (cteMDBNode c'') = exchange a b (mdbNext (cteMDBNode c))"
      "mdbPrev (cteMDBNode c'') = exchange a b (mdbPrev (cteMDBNode c))" "cteCap c'' = NullCap \<longleftrightarrow> cteCap c = NullCap"
      using links [OF c] by blast
    ultimately show ?thesis using that r0 by (auto intro: slot_ok_mono simp: unlinked_def)
  qed
  ultimately show ?thesis unfolding mdb_rel_def by (simp only: ball_simps list.set_map image_iff) blast
qed


lemma cteMove_heap_refines:
  assumes rel: "mdb_rel h xss" and src: "src \<in> set (concat xss)"
    and dest: "dest \<notin> set (concat xss)" "h dest = Some cd" and new: "newCap \<noteq> NullCap"
  shows "\<exists>h'. cteMove_heap newCap src dest h = Some h' \<and> mdb_rel h' (map (map (exchange src dest)) xss)
           \<and> caps_of h' = (caps_of h)(src \<mapsto> NullCap, dest \<mapsto> newCap)"
proof -
  from rel src obtain cs where cs: "h src = Some cs" "src \<noteq> 0" by (rule mdb_rel_split)
  have cd: "cteCap cd = NullCap" "mdbNext (cteMDBNode cd) = 0" "mdbPrev (cteMDBNode cd) = 0"
    using mdb_relD(4) [OF rel dest(2)] dest(1) by (simp_all add: slot_ok_def unlinked_def)
  have capS: "cteCap cs \<noteq> NullCap" using mdb_relD(4) [OF rel cs(1)] src by (simp add: slot_ok_def)
  have d0: "dest \<noteq> 0" "src \<noteq> dest" using rel dest src by (auto simp: mdb_rel_def)
  let ?p = "mdbPrev (cteMDBNode cs)" and ?n = "mdbNext (cteMDBNode cs)"
  define cs' where "cs' = cs\<lparr>cteCap := NullCap, cteMDBNode := nullMDBNode\<rparr>"
  define cd' where "cd' = cd\<lparr>cteCap := newCap, cteMDBNode := cteMDBNode cs\<rparr>"
  define g where "g = h(dest \<mapsto> cd', src \<mapsto> cs')"
  define g' where "g' = link_upd (set_mdbPrev dest) (link_upd (set_mdbNext dest) g ?p) ?n"
  note cyc = mdb_no_cycle [OF rel cs(1)]
  have pn: "?p \<noteq> src" "?n \<noteq> src" "?p \<noteq> dest" "?n \<noteq> dest" "?n = 0 \<or> ?n \<noteq> ?p"
    using cyc mdb_sym [OF rel cs(1) dest(2)] mdb_sym [OF rel dest(2) cs(1)] cs(2) cd by auto
  have go: "\<And>x. x \<noteq> src \<Longrightarrow> x \<noteq> dest \<Longrightarrow> g x = h x" by (simp add: g_def)
  have gp: "?p = 0 \<or> g ?p \<noteq> None" using cyc pn go by auto
  have gn: "?n = 0 \<or> link_upd (set_mdbNext dest) g ?p ?n \<noteq> None" using cyc pn go by auto
  have "cteMove_heap newCap src dest h = Some g'"
    using cs(1) dest(2) cd d0 upd_nonnull_link [where f = "set_mdbNext dest" and h = g and p = ?p]
      upd_nonnull_link [where f = "set_mdbPrev dest" and h = "link_upd (set_mdbNext dest) g ?p" and p = ?n] gp gn
    by (simp add: cteMove_heap_def heap_upd_def Let_def g'_def g_def cs'_def cd'_def fun_upd_twist)
  moreover have "mdb_rel g' (map (map (exchange src dest)) xss)"
  proof (rule mdb_rename [OF rel cs(2) d0(1)])
    fix x
    show "g' (exchange src dest x) = None" if "h x = None"
      using that cs(1) dest(2) pn cyc by (auto simp: exchange_def g'_def g_def link_upd_at)
    fix c assume c: "h x = Some c"
    show "\<exists>c'. g' (exchange src dest x) = Some c'
        \<and> mdbNext (cteMDBNode c') = exchange src dest (mdbNext (cteMDBNode c))
        \<and> mdbPrev (cteMDBNode c') = exchange src dest (mdbPrev (cteMDBNode c))
        \<and> (cteCap c' = NullCap \<longleftrightarrow> cteCap c = NullCap)"
    proof (cases "x = src \<or> x = dest")
      case True
      then show ?thesis using c cs dest(2) d0 pn cd capS new
        by (auto simp: exchange_def g'_def g_def cs'_def cd'_def nullMDBNode_def)
    next
      case False
      have "mdbNext (cteMDBNode c) = src \<longleftrightarrow> ?p = x" "mdbPrev (cteMDBNode c) = src \<longleftrightarrow> ?n = x"
        "mdbNext (cteMDBNode c) \<noteq> dest" "mdbPrev (cteMDBNode c) \<noteq> dest" "x \<noteq> 0"
        using mdb_sym [OF rel c cs(1)] mdb_sym [OF rel cs(1) c] mdb_sym [OF rel c dest(2)] mdb_sym [OF rel dest(2) c]
          mdb_no_cycle [OF rel c] cd by auto
      then show ?thesis using c False pn by (auto simp: exchange_def g'_def go link_upd_at)
    qed
  qed
  moreover have "caps_of g' = (caps_of h)(src \<mapsto> NullCap, dest \<mapsto> newCap)"
    using d0(2) by (simp add: g'_def g_def cs'_def cd'_def fun_upd_twist [of src dest])
  ultimately show ?thesis by blast
qed

end
