(* ===== verification/K_Mdb_Ops.thy ===== *)
theory K_Mdb_Ops
  imports K_Mdb_Lists
begin

text \<open>
  Swapping two slots and setting up a reply master, and the refinement of sequences of slot
  operations: what the linked slots represent after any sequence is computed on lists.
\<close>

section \<open>Swapping\<close>

text \<open>Making the neighbours of a position refer to slot \<open>b\<close>.\<close>

definition relink :: "ptr \<Rightarrow> ptr \<Rightarrow> ptr \<Rightarrow> cte_heap \<Rightarrow> cte_heap" where
  "relink p n b h = link_upd (set_mdbPrev b) (link_upd (set_mdbNext b) h p) n"

lemma relink_at:
  "relink p n b h x = map_option (cteMDBNode_update (\<lambda>m. m\<lparr>mdbNext := if p = x \<and> x \<noteq> 0 then b else mdbNext m,
     mdbPrev := if n = x \<and> x \<noteq> 0 then b else mdbPrev m\<rparr>)) (h x)"
  by (cases "h x") (auto simp: relink_def link_upd_at)

lemma relink_run:
  assumes "p = 0 \<or> h p \<noteq> None" "n = 0 \<or> h n \<noteq> None"
  shows "Option.bind (upd_nonnull h p (set_mdbNext b)) (\<lambda>h. Option.bind (upd_nonnull h n (set_mdbPrev b)) k)
     = k (relink p n b h)"
    "Option.bind (upd_nonnull h p (set_mdbNext b)) (\<lambda>h. upd_nonnull h n (set_mdbPrev b)) = Some (relink p n b h)"
proof -
  have "upd_nonnull h p (set_mdbNext b) = Some (link_upd (set_mdbNext b) h p)"
    using assms(1) by (rule upd_nonnull_link)
  moreover have "upd_nonnull (link_upd (set_mdbNext b) h p) n (set_mdbPrev b) = Some (relink p n b h)"
    unfolding relink_def using assms(2) by (intro upd_nonnull_link) (auto simp: link_upd_at)
  ultimately show "Option.bind (upd_nonnull h p (set_mdbNext b)) (\<lambda>h. Option.bind (upd_nonnull h n (set_mdbPrev b)) k)
     = k (relink p n b h)"
    "Option.bind (upd_nonnull h p (set_mdbNext b)) (\<lambda>h. upd_nonnull h n (set_mdbPrev b)) = Some (relink p n b h)"
    by simp_all
qed

text \<open>The heap after a swap: the slots have exchanged their nodes and every link to one of them is a
  link to the other.\<close>

definition swapped_node :: "ptr \<Rightarrow> ptr \<Rightarrow> mdb_node \<Rightarrow> mdb_node" where
  "swapped_node a b m = m\<lparr>mdbNext := exchange a b (mdbNext m), mdbPrev := exchange a b (mdbPrev m)\<rparr>"

lemma swapped_node_sel [simp]:
  "mdbNext (swapped_node a b m) = exchange a b (mdbNext m)" "mdbPrev (swapped_node a b m) = exchange a b (mdbPrev m)"
  by (simp_all add: swapped_node_def)

lemma cte_both: "c\<lparr>cteCap := x, cteMDBNode := y\<rparr> = \<lparr>cteCap = x, cteMDBNode = y\<rparr>" for c :: cte
  by simp

lemma cteSwap_heap_eq:
  assumes rel: "mdb_rel h xss" and a: "h a = Some ca" and b: "h b = Some cb" and ab: "a \<noteq> b"
  shows "\<exists>h'. cteSwap_heap cap1 a cap2 b h = Some h'
     \<and> h' a = Some \<lparr>cteCap = cap2, cteMDBNode = swapped_node a b (cteMDBNode cb)\<rparr>
     \<and> h' b = Some \<lparr>cteCap = cap1, cteMDBNode = swapped_node a b (cteMDBNode ca)\<rparr>
     \<and> (\<forall>x. x \<noteq> a \<longrightarrow> x \<noteq> b \<longrightarrow> h' x = map_option (cteMDBNode_update (swapped_node a b)) (h x))"
proof -
  let ?p1 = "mdbPrev (cteMDBNode ca)" and ?n1 = "mdbNext (cteMDBNode ca)"
  let ?p2 = "mdbPrev (cteMDBNode cb)" and ?n2 = "mdbNext (cteMDBNode cb)"
  define mdb2 where "mdb2 = (cteMDBNode cb)\<lparr>mdbNext := if ?p1 = b then b else ?n2, mdbPrev := if ?n1 = b then b else ?p2\<rparr>"
  define g1 where "g1 = h(a \<mapsto> ca\<lparr>cteCap := cap2\<rparr>, b \<mapsto> cb\<lparr>cteCap := cap1\<rparr>)"
  define g2 where "g2 = relink ?p1 ?n1 b g1"
  define g3 where "g3 = g2(a \<mapsto> \<lparr>cteCap = cap2, cteMDBNode = mdb2\<rparr>, b \<mapsto> \<lparr>cteCap = cap1, cteMDBNode = cteMDBNode ca\<rparr>)"
  define g4 where "g4 = relink (mdbPrev mdb2) (mdbNext mdb2) a g3"
  note cyc = mdb_no_cycle [OF rel a] mdb_no_cycle [OF rel b]
  have sym: "?n1 = b \<longleftrightarrow> ?p2 = a" "?n2 = a \<longleftrightarrow> ?p1 = b" using mdb_sym [OF rel a b] mdb_sym [OF rel b a] by auto
  have a0: "a \<noteq> 0" "b \<noteq> 0" "?p1 \<noteq> a" "?n1 \<noteq> a" "?p2 \<noteq> b" "?n2 \<noteq> b" "\<not> (?p1 = b \<and> ?n1 = b)" using cyc by auto
  have dom1: "g1 x = None \<longleftrightarrow> h x = None" for x using a b by (simp add: g1_def)
  have dom3: "g3 x = None \<longleftrightarrow> h x = None" for x using a b by (simp add: g3_def g2_def relink_at dom1)
  have g12: "map_option cteMDBNode (g1 a) = Some (cteMDBNode ca)" "map_option cteMDBNode (g2 b) = Some mdb2"
    "heap_upd g2 a (cteMDBNode_update (\<lambda>_. mdb2)) = Some (g2(a \<mapsto> \<lparr>cteCap = cap2, cteMDBNode = mdb2\<rparr>))"
    "heap_upd (g2(a \<mapsto> \<lparr>cteCap = cap2, cteMDBNode = mdb2\<rparr>)) b (cteMDBNode_update (\<lambda>_. cteMDBNode ca)) = Some g3"
    using a0 ab by (simp_all add: g3_def g2_def g1_def mdb2_def relink_at heap_upd_def cte_both)
  have m2: "mdbPrev mdb2 = (if ?n1 = b then b else ?p2)" "mdbNext mdb2 = (if ?p1 = b then b else ?n2)"
    by (simp_all add: mdb2_def)
  have r1: "Option.bind (upd_nonnull g1 ?p1 (set_mdbNext b)) (\<lambda>h. Option.bind (upd_nonnull h ?n1 (set_mdbPrev b)) k) = k g2" for k
    unfolding g2_def by (rule relink_run(1)) (use cyc dom1 in auto)
  have r2: "Option.bind (upd_nonnull g3 (mdbPrev mdb2) (set_mdbNext a)) (\<lambda>h. upd_nonnull h (mdbNext mdb2) (set_mdbPrev a)) = Some g4"
    unfolding g4_def by (rule relink_run(2)) (use cyc dom3 b in \<open>auto simp: m2\<close>)
  have "heap_upd h a (cteCap_update (\<lambda>_. cap2)) = Some (h(a \<mapsto> ca\<lparr>cteCap := cap2\<rparr>))"
    "heap_upd (h(a \<mapsto> ca\<lparr>cteCap := cap2\<rparr>)) b (cteCap_update (\<lambda>_. cap1)) = Some g1"
    using a b ab by (simp_all add: heap_upd_def g1_def)
  then have "cteSwap_heap cap1 a cap2 b h = Some g4" by (simp add: cteSwap_heap_def g12 r1 r2)
  moreover have "g4 a = Some \<lparr>cteCap = cap2, cteMDBNode = swapped_node a b (cteMDBNode cb)\<rparr>"
    using ab a0 sym by (simp add: g4_def g3_def relink_at swapped_node_def exchange_def m2 mdb2_def)
  moreover have "g4 b = Some \<lparr>cteCap = cap1, cteMDBNode = swapped_node a b (cteMDBNode ca)\<rparr>"
    using ab a0 by (cases "?n1 = b"; cases "?p1 = b") (simp_all add: g4_def g3_def relink_at swapped_node_def exchange_def m2)
  moreover have "g4 x = map_option (cteMDBNode_update (swapped_node a b)) (h x)" if x: "x \<noteq> a" "x \<noteq> b" for x
  proof (cases "h x")
    case (Some c)
    have e: "mdbNext (cteMDBNode c) = a \<longleftrightarrow> ?p1 = x" "mdbPrev (cteMDBNode c) = a \<longleftrightarrow> ?n1 = x"
      "mdbNext (cteMDBNode c) = b \<longleftrightarrow> ?p2 = x" "mdbPrev (cteMDBNode c) = b \<longleftrightarrow> ?n2 = x"
      by (rule mdb_sym [OF rel Some a] mdb_sym [OF rel a Some, symmetric] mdb_sym [OF rel Some b] mdb_sym [OF rel b Some, symmetric])+
    then have "\<not> (?p1 = x \<and> ?p2 = x)" "\<not> (?n1 = x \<and> ?n2 = x)" using ab by metis+
    moreover have "x \<noteq> 0" using mdb_no_cycle [OF rel Some] by simp
    moreover have "mdbPrev mdb2 = x \<longleftrightarrow> ?p2 = x" "mdbNext mdb2 = x \<longleftrightarrow> ?n2 = x" using x sym by (auto simp: m2)
    ultimately show ?thesis using x Some e
      by (cases c) (simp add: g4_def g3_def g2_def g1_def relink_at swapped_node_def exchange_def)
  qed (use x in \<open>simp add: g4_def g3_def g2_def g1_def relink_at\<close>)
  ultimately show ?thesis by blast
qed

lemma cteSwap_heap_refines:
  assumes rel: "mdb_rel h xss" and a: "h a = Some ca" and b: "h b = Some cb" and ab: "a \<noteq> b"
    and caps: "cap1 = NullCap \<longleftrightarrow> cteCap ca = NullCap" "cap2 = NullCap \<longleftrightarrow> cteCap cb = NullCap"
  shows "\<exists>h'. cteSwap_heap cap1 a cap2 b h = Some h' \<and> mdb_rel h' (map (map (exchange a b)) xss)
           \<and> caps_of h' = (caps_of h)(a \<mapsto> cap2, b \<mapsto> cap1)"
proof -
  obtain h' where h': "cteSwap_heap cap1 a cap2 b h = Some h'"
    "h' a = Some \<lparr>cteCap = cap2, cteMDBNode = swapped_node a b (cteMDBNode cb)\<rparr>"
    "h' b = Some \<lparr>cteCap = cap1, cteMDBNode = swapped_node a b (cteMDBNode ca)\<rparr>"
    "\<And>x. x \<noteq> a \<Longrightarrow> x \<noteq> b \<Longrightarrow> h' x = map_option (cteMDBNode_update (swapped_node a b)) (h x)"
    using cteSwap_heap_eq [OF rel a b ab] by blast
  have "mdb_rel h' (map (map (exchange a b)) xss)"
  proof (rule mdb_rename [OF rel])
    show "a \<noteq> 0" "b \<noteq> 0" using mdb_no_cycle [OF rel a] mdb_no_cycle [OF rel b] by auto
    fix x
    show "h' (exchange a b x) = None" if "h x = None"
      using that a b h'(4) by (cases "x = a"; cases "x = b") (auto simp: exchange_def)
    show "\<exists>c'. h' (exchange a b x) = Some c' \<and> mdbNext (cteMDBNode c') = exchange a b (mdbNext (cteMDBNode c))
        \<and> mdbPrev (cteMDBNode c') = exchange a b (mdbPrev (cteMDBNode c)) \<and> (cteCap c' = NullCap \<longleftrightarrow> cteCap c = NullCap)"
      if "h x = Some c" for c
      using that a b ab h' caps by (cases "x = a"; cases "x = b") (auto simp: exchange_def)
  qed
  moreover have "caps_of h' = (caps_of h)(a \<mapsto> cap2, b \<mapsto> cap1)"
  proof
    show "caps_of h' x = ((caps_of h)(a \<mapsto> cap2, b \<mapsto> cap1)) x" for x
      using h' ab by (cases "x = a"; cases "x = b"; cases "h x") (auto simp: caps_of_def)
  qed
  ultimately show ?thesis using h'(1) by blast
qed


section \<open>Reply masters\<close>

lemma setupReplyMaster_heap_refines:
  assumes rel: "mdb_rel h xss" and slot: "slot = TCB_PTR_CTE_PTR thread tcbReply" "h slot = Some c"
  shows "\<exists>h'. setupReplyMaster_heap thread h = Some h'
     \<and> mdb_rel h' (if slot \<in> set (concat xss) then xss else xss @ [[slot]])
     \<and> caps_of h' = (if slot \<in> set (concat xss) then caps_of h else (caps_of h)(slot \<mapsto> ReplyCap True True thread))"
proof (cases "slot \<in> set (concat xss)")
  case True
  then have "cteCap c \<noteq> NullCap" using mdb_relD(4) [OF rel slot(2)] by (simp add: slot_ok_def)
  then show ?thesis using True rel slot by (simp add: setupReplyMaster_heap_def)
next
  case False
  then have c: "cteCap c = NullCap" using mdb_relD(4) [OF rel slot(2)] by (simp add: slot_ok_def)
  define g where "g = h(slot \<mapsto> c\<lparr>cteCap := ReplyCap True True thread,
    cteMDBNode := \<lparr>mdbNext = 0, mdbRevocable = True, mdbFirstBadged = True, mdbPrev = 0\<rparr>\<rparr>)"
  have "setupReplyMaster_heap thread h = Some g"
    using c slot by (cases c) (simp add: setupReplyMaster_heap_def heap_upd_def nullMDBNode_def g_def)
  moreover have "slot \<noteq> 0" using mdb_relD(3) [OF rel] slot(2) by auto
  then have "mdb_dll g [slot]" by (simp add: dll_def g_def)
  then have "mdb_rel g (xss @ [slot] # [])"
  proof (rule mdb_frame [where h = h and xs = "[]", rotated])
    show "mdb_rel h (xss @ [] # [])" using rel by (simp add: mdb_rel_def)
  qed (use False in \<open>auto simp: g_def slot_ok_def\<close>)
  ultimately show ?thesis using False by (simp add: g_def)
qed

section \<open>Sequences of operations\<close>

datatype mdb_op =
    Insert cap ptr ptr
  | Move cap ptr ptr
  | Swap cap ptr cap ptr
  | Empty ptr
  | New ptr ptr cap
  | ReplyMaster ptr

fun mdb_run :: "mdb_op \<Rightarrow> cte_heap \<Rightarrow> cte_heap option" where
  "mdb_run (Insert c src dest) h = cteInsert_heap c src dest h"
| "mdb_run (Move c src dest) h = cteMove_heap c src dest h"
| "mdb_run (Swap c1 a c2 b) h = cteSwap_heap c1 a c2 b h"
| "mdb_run (Empty slot) h = map_option snd (emptySlot_heap slot h)"
| "mdb_run (New parent slot c) h = insertNewCap_heap parent slot c h"
| "mdb_run (ReplyMaster thread) h = setupReplyMaster_heap thread h"

text \<open>The specification: the lists of slots in derivation order and the capability in each slot.\<close>

type_synonym mdb_spec = "ptr list list \<times> (ptr \<rightharpoonup> cap)"

fun mdb_step :: "mdb_op \<Rightarrow> mdb_spec \<Rightarrow> mdb_spec" where
  "mdb_step (Insert c src dest) (xss, cs) =
     (map (insert_after src dest) xss, cs(src \<mapsto> as_full (the (cs src)) c, dest \<mapsto> c))"
| "mdb_step (Move c src dest) (xss, cs) = (map (map (exchange src dest)) xss, cs(src \<mapsto> NullCap, dest \<mapsto> c))"
| "mdb_step (Swap c1 a c2 b) (xss, cs) = (map (map (exchange a b)) xss, cs(a \<mapsto> c2, b \<mapsto> c1))"
| "mdb_step (Empty slot) (xss, cs) = (map (removeAll slot) xss, cs(slot \<mapsto> NullCap))"
| "mdb_step (New parent slot c) (xss, cs) = (map (insert_after parent slot) xss, cs(slot \<mapsto> c))"
| "mdb_step (ReplyMaster thread) (xss, cs) =
     (let slot = TCB_PTR_CTE_PTR thread tcbReply in
      if slot \<in> set (concat xss) then (xss, cs) else (xss @ [[slot]], cs(slot \<mapsto> ReplyCap True True thread)))"

definition vacant :: "(ptr \<rightharpoonup> cap) \<Rightarrow> ptr \<Rightarrow> bool" where
  "vacant cs p \<longleftrightarrow> cs p = Some NullCap"

definition occupied :: "(ptr \<rightharpoonup> cap) \<Rightarrow> ptr \<Rightarrow> bool" where
  "occupied cs p \<longleftrightarrow> (case cs p of None \<Rightarrow> False | Some c \<Rightarrow> c \<noteq> NullCap)"

fun mdb_allowed :: "mdb_op \<Rightarrow> (ptr \<rightharpoonup> cap) \<Rightarrow> bool" where
  "mdb_allowed (Insert c src dest) cs \<longleftrightarrow>
     occupied cs src \<and> vacant cs dest \<and> c \<noteq> NullCap \<and> isCapRevocable c (the (cs src)) \<noteq> None"
| "mdb_allowed (Move c src dest) cs \<longleftrightarrow> occupied cs src \<and> vacant cs dest \<and> c \<noteq> NullCap"
| "mdb_allowed (Swap c1 a c2 b) cs \<longleftrightarrow> a \<noteq> b \<and> cs a \<noteq> None \<and> cs b \<noteq> None
     \<and> (c1 = NullCap \<longleftrightarrow> vacant cs a) \<and> (c2 = NullCap \<longleftrightarrow> vacant cs b)"
| "mdb_allowed (Empty slot) cs \<longleftrightarrow> occupied cs slot"
| "mdb_allowed (New parent slot c) cs \<longleftrightarrow> occupied cs parent \<and> vacant cs slot \<and> c \<noteq> NullCap"
| "mdb_allowed (ReplyMaster thread) cs \<longleftrightarrow> cs (TCB_PTR_CTE_PTR thread tcbReply) \<noteq> None"

fun mdb_runs :: "mdb_op list \<Rightarrow> cte_heap \<Rightarrow> cte_heap option" where
  "mdb_runs [] h = Some h"
| "mdb_runs (x # xs) h = do { h \<leftarrow> mdb_run x h; mdb_runs xs h }"

fun mdb_all_allowed :: "mdb_op list \<Rightarrow> mdb_spec \<Rightarrow> bool" where
  "mdb_all_allowed [] s \<longleftrightarrow> True"
| "mdb_all_allowed (x # xs) s \<longleftrightarrow> mdb_allowed x (snd s) \<and> mdb_all_allowed xs (mdb_step x s)"

lemma vacant_iff: "mdb_rel h xss \<Longrightarrow> vacant (caps_of h) p \<longleftrightarrow> (\<exists>c. h p = Some c) \<and> p \<notin> set (concat xss)"
  using mdb_relD(4) [of h xss p] by (cases "h p") (auto simp: vacant_def caps_of_def slot_ok_def split: if_splits)

lemma occupied_iff: "mdb_rel h xss \<Longrightarrow> occupied (caps_of h) p \<longleftrightarrow> p \<in> set (concat xss)"
proof
  assume rel: "mdb_rel h xss" and "p \<in> set (concat xss)"
  then obtain c where "h p = Some c" "cteCap c \<noteq> NullCap" by (rule mdb_rel_split)
  then show "occupied (caps_of h) p" by (simp add: occupied_def caps_of_def)
next
  assume rel: "mdb_rel h xss" and "occupied (caps_of h) p"
  then obtain c where c: "h p = Some c" "cteCap c \<noteq> NullCap"
    by (cases "h p") (auto simp: occupied_def caps_of_def)
  then show "p \<in> set (concat xss)" using mdb_relD(4) [OF rel c(1)] by (simp only: slot_ok_def split: if_splits) simp
qed

lemma mdb_run_refines:
  assumes "mdb_rel h xss" and "mdb_allowed x (caps_of h)"
  shows "\<exists>h'. mdb_run x h = Some h' \<and> mdb_rel h' (fst (mdb_step x (xss, caps_of h)))
     \<and> caps_of h' = snd (mdb_step x (xss, caps_of h))"
proof (cases x)
  case (Insert c src dest)
  with assms obtain cs cd r where "src \<in> set (concat xss)" "h src = Some cs" "dest \<notin> set (concat xss)" "h dest = Some cd"
    "c \<noteq> NullCap" "isCapRevocable c (cteCap cs) = Some r"
    by (auto simp: vacant_iff occupied_iff caps_of_def simp del: set_concat elim: mdb_rel_split)
  then show ?thesis using cteInsert_heap_refines [OF assms(1)] Insert by (simp add: caps_of_def [of h])
next
  case (Move c src dest)
  then show ?thesis using assms cteMove_heap_refines [OF assms(1), of src dest]
    by (auto simp: vacant_iff occupied_iff simp del: set_concat)
next
  case (Swap c1 a c2 b)
  with assms obtain ca cb where "h a = Some ca" "h b = Some cb" by (auto simp: caps_of_def)
  then show ?thesis using assms Swap cteSwap_heap_refines [OF assms(1), of a ca b cb c1 c2]
    by (simp add: vacant_def caps_of_def [of h])
next
  case (Empty slot)
  then show ?thesis using assms emptySlot_heap_refines [OF assms(1), of slot]
    by (auto simp: occupied_iff simp del: set_concat)
next
  case (New parent slot c)
  then show ?thesis using assms insertNewCap_heap_refines [OF assms(1), of parent slot]
    by (auto simp: vacant_iff occupied_iff simp del: set_concat)
next
  case (ReplyMaster thread)
  with assms obtain c where "h (TCB_PTR_CTE_PTR thread tcbReply) = Some c" by (auto simp: caps_of_def)
  from setupReplyMaster_heap_refines [OF assms(1) refl this] ReplyMaster show ?thesis
    by (simp add: Let_def split: if_splits del: set_concat)
qed

text \<open>C21. Sequences of slot operations (cteInsert, cteMove, cteSwap, emptySlot, insertNewCap and
  setupReplyMaster) act on the linked slots as insertion behind the source, renaming, exchange and
  removal act on lists, and store exactly the capabilities given: if the occupied slots form disjoint
  doubly linked lists and every operation of the sequence is called on slots that are occupied or
  empty as its callers check, the sequence runs without a failed assertion or a dangling access and
  the slots represent the lists and capabilities the specification computes.\<close>

theorem mdb_ops_refine_lists:
  assumes "mdb_rel h xss" and "mdb_all_allowed ops (xss, caps_of h)"
  shows "\<exists>h'. mdb_runs ops h = Some h' \<and> mdb_rel h' (fst (fold mdb_step ops (xss, caps_of h)))
     \<and> caps_of h' = snd (fold mdb_step ops (xss, caps_of h))"
  using assms
proof (induction ops arbitrary: h xss)
  case (Cons x ops)
  obtain h' where h': "mdb_run x h = Some h'" "mdb_rel h' (fst (mdb_step x (xss, caps_of h)))"
    "caps_of h' = snd (mdb_step x (xss, caps_of h))"
    using mdb_run_refines [OF Cons.prems(1), of x] Cons.prems(2) by auto
  then have "mdb_all_allowed ops (fst (mdb_step x (xss, caps_of h)), caps_of h')" using Cons.prems(2) by simp
  from Cons.IH [OF h'(2) this] show ?case using h' by simp
qed simp

text \<open>An unbadged endpoint capability and three empty slots.\<close>

definition mdb_example :: cte_heap where
  "mdb_example = [32 \<mapsto> \<lparr>cteCap = EndpointCap 0 True True True True 4096, cteMDBNode = nullMDBNode\<rparr>,
     64 \<mapsto> \<lparr>cteCap = NullCap, cteMDBNode = nullMDBNode\<rparr>, 96 \<mapsto> \<lparr>cteCap = NullCap, cteMDBNode = nullMDBNode\<rparr>,
     128 \<mapsto> \<lparr>cteCap = NullCap, cteMDBNode = nullMDBNode\<rparr>]"

lemma mdb_example_rel: "mdb_rel mdb_example [[32]]"
  by (auto simp: mdb_rel_def mdb_example_def dll_def slot_ok_def unlinked_def nullMDBNode_def split: if_splits)

theorem mdb_ops_refine_lists_witness:
  "mdb_rel mdb_example [[32]] \<and>
   (let e5 = EndpointCap 5 False True True True 4096; e7 = EndpointCap 7 False True True False 4096;
        ops = [Insert e5 32 64, Insert e7 32 96, Move e7 96 128, Swap e5 64 e7 128, Empty 64] in
    mdb_all_allowed ops ([[32]], caps_of mdb_example) \<and>
    (\<exists>h'. mdb_runs ops mdb_example = Some h' \<and> mdb_rel h' [[32, 128]] \<and> caps_of h' 128 = Some e5))"
proof -
  let ?e5 = "EndpointCap 5 False True True True 4096" and ?e7 = "EndpointCap 7 False True True False 4096"
  let ?ops = "[Insert ?e5 32 64, Insert ?e7 32 96, Move ?e7 96 128, Swap ?e5 64 ?e7 128, Empty 64]"
  have ok: "mdb_all_allowed ?ops ([[32]], caps_of mdb_example)"
    by (simp add: mdb_example_def occupied_def vacant_def caps_of_def insert_after_def exchange_def as_full_def isCapRevocable_def)
  have f: "fold mdb_step ?ops ([[32]], caps_of mdb_example) = ([[32, 128]],
      (caps_of mdb_example)(32 \<mapsto> EndpointCap 0 True True True True 4096, 64 \<mapsto> NullCap, 96 \<mapsto> NullCap, 128 \<mapsto> ?e5))"
    by (auto simp: insert_after_def exchange_def as_full_def mdb_example_def caps_of_def)
  obtain h' where h': "mdb_runs ?ops mdb_example = Some h'" "mdb_rel h' [[32, 128]]"
    "caps_of h' = (caps_of mdb_example)(32 \<mapsto> EndpointCap 0 True True True True 4096, 64 \<mapsto> NullCap, 96 \<mapsto> NullCap, 128 \<mapsto> ?e5)"
    using mdb_ops_refine_lists [OF mdb_example_rel ok] unfolding f fst_conv snd_conv by blast
  have "caps_of h' 128 = Some ?e5" by (simp add: h'(3))
  then show ?thesis unfolding Let_def using mdb_example_rel ok h'(1,2) by blast
qed

end
