(* ===== verification/K_Notification.thy ===== *)
theory K_Notification
  imports K_Sched K_Mdb
begin

text \<open>
  Notifications (src/kernel/src/object/notification.c), the operations of endpoints that take
  threads out of their queues (cancelIPC, cancelAllIPC and cancelBadgedSends of endpoint.c) and what
  they call: the immediate finalisation of a capability and cteDeleteOne. The loops over a queue
  follow the links of the threads; they are partial functions, \<open>None\<close> also being the result of a
  loop that does not end.
\<close>

section \<open>Queues of endpoints and notifications\<close>

definition ntfn_ptr_get_queue :: "notification \<Rightarrow> tcb_queue" where
  "ntfn_ptr_get_queue n = \<lparr>q_head = ntfnQueue_head n, q_end = ntfnQueue_tail n\<rparr>"

definition ntfn_ptr_set_queue :: "ptr \<Rightarrow> tcb_queue \<Rightarrow> kstate \<Rightarrow> kstate option" where
  "ntfn_ptr_set_queue ntfnPtr q = ntfn_upd ntfnPtr (\<lambda>n. n\<lparr>ntfnQueue_head := q_head q, ntfnQueue_tail := q_end q\<rparr>)"

definition ep_ptr_get_queue :: "endpoint \<Rightarrow> tcb_queue" where
  "ep_ptr_get_queue e = \<lparr>q_head = epQueue_head e, q_end = epQueue_tail e\<rparr>"

definition ep_ptr_set_queue :: "ptr \<Rightarrow> tcb_queue \<Rightarrow> kstate \<Rightarrow> kstate option" where
  "ep_ptr_set_queue epptr q = ep_upd epptr (\<lambda>e. e\<lparr>epQueue_head := q_head q, epQueue_tail := q_end q\<rparr>)"

definition ntfn_set_active :: "ptr \<Rightarrow> u64 \<Rightarrow> kstate \<Rightarrow> kstate option" where
  "ntfn_set_active ntfnPtr badge =
     ntfn_upd ntfnPtr (\<lambda>n. n\<lparr>ntfn_state := NtfnState_Active, ntfnMsgIdentifier := badge\<rparr>)"

text \<open>The queue operations of tcb.c on the kernel state.\<close>

definition ep_append :: "ptr \<Rightarrow> tcb_queue \<Rightarrow> kstate \<Rightarrow> (tcb_queue \<times> kstate) option" where
  "ep_append tcb q s = do { (q, h) \<leftarrow> tcbEPAppend tcb q (tcbs s); Some (q, s\<lparr>tcbs := h\<rparr>) }"

definition ep_dequeue :: "ptr \<Rightarrow> tcb_queue \<Rightarrow> kstate \<Rightarrow> (tcb_queue \<times> kstate) option" where
  "ep_dequeue tcb q s = do { (q, h) \<leftarrow> tcbEPDequeue tcb q (tcbs s); Some (q, s\<lparr>tcbs := h\<rparr>) }"

section \<open>Notifications\<close>

definition doNBRecvFailedTransfer :: "ptr \<Rightarrow> kstate \<Rightarrow> kstate option" where
  "doNBRecvFailedTransfer thread = setRegister thread badgeRegister 0"

definition receiveSignal :: "ptr \<Rightarrow> cap \<Rightarrow> bool \<Rightarrow> kstate \<Rightarrow> kstate option" where
  "receiveSignal thread c isBlocking s =
     (let ntfnPtr = capNtfnPtr c in
      do { n \<leftarrow> ntfns s ntfnPtr;
           if ntfn_state n = NtfnState_Active then do {
             s \<leftarrow> setRegister thread badgeRegister (ntfnMsgIdentifier n) s;
             ntfn_upd ntfnPtr (ntfn_state_update (\<lambda>_. NtfnState_Idle)) s }
           else if isBlocking then do {
             s \<leftarrow> tcb_upd thread (tcbState_update (\<lambda>ts. ts\<lparr>tsType := ThreadState_BlockedOnNotification,
                    blockingObject := ntfnPtr\<rparr>)) s;
             s \<leftarrow> scheduleTCB thread s;
             n \<leftarrow> ntfns s ntfnPtr;
             (queue, s) \<leftarrow> ep_append thread (ntfn_ptr_get_queue n) s;
             s \<leftarrow> ntfn_upd ntfnPtr (ntfn_state_update (\<lambda>_. NtfnState_Waiting)) s;
             ntfn_ptr_set_queue ntfnPtr queue s }
           else doNBRecvFailedTransfer thread s })"

partial_function (option) restart_queue :: "ptr \<Rightarrow> kstate \<Rightarrow> kstate option" where
  "restart_queue thread s =
     (if thread = 0 then Some s
      else do {
        s \<leftarrow> setThreadState thread ThreadState_Restart s;
        s \<leftarrow> tcbSchedEnqueue thread s;
        t \<leftarrow> tcbs s thread;
        restart_queue (tcbEPNext t) s })"

definition cancelAllSignals :: "ptr \<Rightarrow> kstate \<Rightarrow> kstate option" where
  "cancelAllSignals ntfnPtr s =
     do { n \<leftarrow> ntfns s ntfnPtr;
          if ntfn_state n = NtfnState_Waiting then do {
            let thread = ntfnQueue_head n;
            s \<leftarrow> ntfn_upd ntfnPtr (\<lambda>n. n\<lparr>ntfn_state := NtfnState_Idle, ntfnQueue_head := 0, ntfnQueue_tail := 0\<rparr>) s;
            s \<leftarrow> restart_queue thread s;
            rescheduleRequired s }
          else Some s }"

definition cancelSignal :: "ptr \<Rightarrow> ptr \<Rightarrow> kstate \<Rightarrow> kstate option" where
  "cancelSignal threadPtr ntfnPtr s =
     do { n \<leftarrow> ntfns s ntfnPtr;
          k_assert (ntfn_state n = NtfnState_Waiting);
          (queue, s) \<leftarrow> ep_dequeue threadPtr (ntfn_ptr_get_queue n) s;
          s \<leftarrow> ntfn_ptr_set_queue ntfnPtr queue s;
          s \<leftarrow> (if q_head queue = 0 then ntfn_upd ntfnPtr (ntfn_state_update (\<lambda>_. NtfnState_Idle)) s else Some s);
          setThreadState threadPtr ThreadState_Inactive s }"

definition completeSignal :: "ptr \<Rightarrow> ptr \<Rightarrow> kstate \<Rightarrow> kstate option" where
  "completeSignal ntfnPtr tcb s =
     do { k_assert (tcb \<noteq> 0);
          n \<leftarrow> ntfns s ntfnPtr;
          k_assert (ntfn_state n = NtfnState_Active);
          s \<leftarrow> setRegister tcb badgeRegister (ntfnMsgIdentifier n) s;
          ntfn_upd ntfnPtr (ntfn_state_update (\<lambda>_. NtfnState_Idle)) s }"

definition doUnbindNotification :: "ptr \<Rightarrow> ptr \<Rightarrow> kstate \<Rightarrow> kstate option" where
  "doUnbindNotification ntfnPtr tcbptr s =
     do { s \<leftarrow> ntfn_upd ntfnPtr (ntfnBoundTCB_update (\<lambda>_. 0)) s;
          tcb_upd tcbptr (tcbBoundNotification_update (\<lambda>_. 0)) s }"

definition unbindMaybeNotification :: "ptr \<Rightarrow> kstate \<Rightarrow> kstate option" where
  "unbindMaybeNotification ntfnPtr s =
     do { n \<leftarrow> ntfns s ntfnPtr;
          if ntfnBoundTCB n \<noteq> 0 then doUnbindNotification ntfnPtr (ntfnBoundTCB n) s else Some s }"

definition unbindNotification :: "ptr \<Rightarrow> kstate \<Rightarrow> kstate option" where
  "unbindNotification tcb s =
     do { t \<leftarrow> tcbs s tcb;
          if tcbBoundNotification t \<noteq> 0 then doUnbindNotification (tcbBoundNotification t) tcb s else Some s }"

definition bindNotification :: "ptr \<Rightarrow> ptr \<Rightarrow> kstate \<Rightarrow> kstate option" where
  "bindNotification tcb ntfnPtr s =
     do { s \<leftarrow> ntfn_upd ntfnPtr (ntfnBoundTCB_update (\<lambda>_. tcb)) s;
          tcb_upd tcb (tcbBoundNotification_update (\<lambda>_. ntfnPtr)) s }"

section \<open>Cancelling IPC\<close>

definition cancelAllIPC :: "ptr \<Rightarrow> kstate \<Rightarrow> kstate option" where
  "cancelAllIPC epptr s =
     do { e \<leftarrow> eps s epptr;
          if ep_state e = EPState_Idle then Some s
          else do {
            let thread = epQueue_head e;
            s \<leftarrow> ep_upd epptr (\<lambda>e. e\<lparr>ep_state := EPState_Idle, epQueue_head := 0, epQueue_tail := 0\<rparr>) s;
            s \<leftarrow> restart_queue thread s;
            rescheduleRequired s } }"

partial_function (option) cancel_badged_loop ::
    "u64 \<Rightarrow> ptr \<Rightarrow> tcb_queue \<Rightarrow> kstate \<Rightarrow> (tcb_queue \<times> kstate) option" where
  "cancel_badged_loop badge thread queue s =
     (if thread = 0 then Some (queue, s)
      else do {
        t \<leftarrow> tcbs s thread;
        let b = blockingIPCBadge (tcbState t);
        let next = tcbEPNext t;
        if b = badge then do {
          s \<leftarrow> setThreadState thread ThreadState_Restart s;
          s \<leftarrow> tcbSchedEnqueue thread s;
          (queue, s) \<leftarrow> ep_dequeue thread queue s;
          cancel_badged_loop badge next queue s }
        else cancel_badged_loop badge next queue s })"

definition cancelBadgedSends :: "ptr \<Rightarrow> u64 \<Rightarrow> kstate \<Rightarrow> kstate option" where
  "cancelBadgedSends epptr badge s =
     do { e \<leftarrow> eps s epptr;
          if ep_state e = EPState_Send then do {
            let queue = ep_ptr_get_queue e;
            s \<leftarrow> ep_upd epptr (\<lambda>e. e\<lparr>ep_state := EPState_Idle, epQueue_head := 0, epQueue_tail := 0\<rparr>) s;
            (queue, s) \<leftarrow> cancel_badged_loop badge (q_head queue) queue s;
            s \<leftarrow> ep_ptr_set_queue epptr queue s;
            s \<leftarrow> (if q_head queue \<noteq> 0 then ep_upd epptr (ep_state_update (\<lambda>_. EPState_Send)) s else Some s);
            rescheduleRequired s }
          else Some s }"

section \<open>Finalisation of a capability that needs no further deletion\<close>

definition X86_MappingVSpace :: nat where "X86_MappingVSpace = 1"

text \<open>Unmapping from page tables is recorded as one machine operation.\<close>

definition Mode_finaliseCap :: "arch_cap \<Rightarrow> bool \<Rightarrow> kstate \<Rightarrow> (cap \<times> cap \<times> kstate) option" where
  "Mode_finaliseCap c final s = (case c of
       PML4Cap _ _ m \<Rightarrow> Some (NullCap, NullCap, if final \<and> m then mach (Op_Arch_finaliseCap c final) s else s)
     | PDPTCap _ _ m _ \<Rightarrow> Some (NullCap, NullCap, if final \<and> m then mach (Op_Arch_finaliseCap c final) s else s)
     | FrameCap asid _ _ mapType _ _ _ \<Rightarrow>
         if asid \<noteq> 0 then do {
           k_assert (mapType = X86_MappingVSpace);
           Some (NullCap, NullCap, mach (Op_Arch_finaliseCap c final) s) }
         else Some (NullCap, NullCap, s)
     | _ \<Rightarrow> None)"

definition Arch_finaliseCap :: "arch_cap \<Rightarrow> bool \<Rightarrow> kstate \<Rightarrow> (cap \<times> cap \<times> kstate) option" where
  "Arch_finaliseCap c final s = (case c of
       PageDirectoryCap _ _ m _ \<Rightarrow>
         Some (NullCap, NullCap, if final \<and> m then mach (Op_Arch_finaliseCap c final) s else s)
     | PageTableCap _ _ m _ \<Rightarrow>
         Some (NullCap, NullCap, if final \<and> m then mach (Op_Arch_finaliseCap c final) s else s)
     | ASIDPoolCap _ _ \<Rightarrow> Some (NullCap, NullCap, if final then mach (Op_Arch_finaliseCap c final) s else s)
     | ASIDControlCap \<Rightarrow> Some (NullCap, NullCap, s)
     | IOPortControlCap \<Rightarrow> Some (NullCap, NullCap, s)
     | IOPortCap _ _ \<Rightarrow> Some (NullCap, if final then ArchObjectCap c else NullCap, s)
     | _ \<Rightarrow> Mode_finaliseCap c final s)"

text \<open>The branches of finaliseCap before the check of its argument exposed, which is a failure for
  all other capabilities when it is set.\<close>

definition finaliseCap_immediate :: "cap \<Rightarrow> bool \<Rightarrow> kstate \<Rightarrow> (cap \<times> cap \<times> kstate) option" where
  "finaliseCap_immediate c final s = (case c of
       ArchObjectCap a \<Rightarrow> Arch_finaliseCap a final s
     | EndpointCap _ _ _ _ _ p \<Rightarrow>
         do { s \<leftarrow> (if final then cancelAllIPC p s else Some s); Some (NullCap, NullCap, s) }
     | NotificationCap _ _ _ p \<Rightarrow>
         do { s \<leftarrow> (if final then do { s \<leftarrow> unbindMaybeNotification p s; cancelAllSignals p s } else Some s);
              Some (NullCap, NullCap, s) }
     | ReplyCap _ _ _ \<Rightarrow> Some (NullCap, NullCap, s)
     | NullCap \<Rightarrow> Some (NullCap, NullCap, s)
     | DomainCap \<Rightarrow> Some (NullCap, NullCap, s)
     | _ \<Rightarrow> None)"

definition cteDeleteOne :: "ptr \<Rightarrow> kstate \<Rightarrow> kstate option" where
  "cteDeleteOne slot s =
     do { c \<leftarrow> ctes s slot;
          if cteCap c \<noteq> NullCap then do {
            final \<leftarrow> isFinalCapability slot (ctes s);
            (remainder, cleanupInfo, s) \<leftarrow> finaliseCap_immediate (cteCap c) final s;
            removable \<leftarrow> capRemovable remainder slot;
            k_assert (removable \<and> cleanupInfo = NullCap);
            emptySlot slot NullCap s }
          else Some s }"

definition cancelIPC :: "ptr \<Rightarrow> kstate \<Rightarrow> kstate option" where
  "cancelIPC tptr s =
     do { t \<leftarrow> tcbs s tptr;
          let state = tcbState t;
          case tsType state of
            ThreadState_BlockedOnNotification \<Rightarrow> cancelSignal tptr (blockingObject state) s
          | ThreadState_BlockedOnReply \<Rightarrow> do {
              s \<leftarrow> tcb_upd tptr (tcbFault_update (\<lambda>_. Fault_NullFault)) s;
              slot \<leftarrow> ctes s (TCB_PTR_CTE_PTR tptr tcbReply);
              let callerCap = mdbNext (cteMDBNode slot);
              if callerCap \<noteq> 0 then cteDeleteOne callerCap s else Some s }
          | ts \<Rightarrow>
              if ts = ThreadState_BlockedOnSend \<or> ts = ThreadState_BlockedOnReceive then do {
                let epptr = blockingObject state;
                e \<leftarrow> eps s epptr;
                k_assert (ep_state e \<noteq> EPState_Idle);
                (queue, s) \<leftarrow> ep_dequeue tptr (ep_ptr_get_queue e) s;
                s \<leftarrow> ep_ptr_set_queue epptr queue s;
                s \<leftarrow> (if q_head queue = 0 then ep_upd epptr (ep_state_update (\<lambda>_. EPState_Idle)) s else Some s);
                setThreadState tptr ThreadState_Inactive s }
              else Some s }"

section \<open>Sending signals\<close>

definition sendSignal :: "ptr \<Rightarrow> u64 \<Rightarrow> kstate \<Rightarrow> kstate option" where
  "sendSignal ntfnPtr badge s =
     do { n \<leftarrow> ntfns s ntfnPtr;
          case ntfn_state n of
            NtfnState_Idle \<Rightarrow> do {
              let tcb = ntfnBoundTCB n;
              if tcb \<noteq> 0 then do {
                t \<leftarrow> tcbs s tcb;
                if tsType (tcbState t) = ThreadState_BlockedOnReceive then do {
                  s \<leftarrow> cancelIPC tcb s;
                  s \<leftarrow> setThreadState tcb ThreadState_Running s;
                  s \<leftarrow> setRegister tcb badgeRegister badge s;
                  possibleSwitchTo tcb s }
                else ntfn_set_active ntfnPtr badge s }
              else ntfn_set_active ntfnPtr badge s }
          | NtfnState_Waiting \<Rightarrow> do {
              let queue = ntfn_ptr_get_queue n;
              let dest = q_head queue;
              k_assert (dest \<noteq> 0);
              (queue, s) \<leftarrow> ep_dequeue dest queue s;
              s \<leftarrow> ntfn_ptr_set_queue ntfnPtr queue s;
              s \<leftarrow> (if q_head queue = 0 then ntfn_upd ntfnPtr (ntfn_state_update (\<lambda>_. NtfnState_Idle)) s else Some s);
              s \<leftarrow> setThreadState dest ThreadState_Running s;
              s \<leftarrow> setRegister dest badgeRegister badge s;
              possibleSwitchTo dest s }
          | NtfnState_Active \<Rightarrow>
              ntfn_upd ntfnPtr (ntfnMsgIdentifier_update (\<lambda>b. b OR badge)) s }"

section \<open>Suspending and restarting threads\<close>

definition suspend :: "ptr \<Rightarrow> kstate \<Rightarrow> kstate option" where
  "suspend target s =
     do { s \<leftarrow> cancelIPC target s;
          t \<leftarrow> tcbs s target;
          s \<leftarrow> (if tsType (tcbState t) = ThreadState_Running then updateRestartPC target s else Some s);
          s \<leftarrow> setThreadState target ThreadState_Inactive s;
          tcbSchedDequeue target s }"

definition restart :: "ptr \<Rightarrow> kstate \<Rightarrow> kstate option" where
  "restart target s =
     do { t \<leftarrow> tcbs s target;
          if isStopped t then do {
            s \<leftarrow> cancelIPC target s;
            s \<leftarrow> setupReplyMaster target s;
            s \<leftarrow> setThreadState target ThreadState_Restart s;
            s \<leftarrow> tcbSchedEnqueue target s;
            possibleSwitchTo target s }
          else Some s }"

end
