(* ===== verification/K_Message.thy ===== *)
theory K_Message
  imports K_Notification
begin

text \<open>
  Messages (src/kernel/include/api/types.h, the message part of src/kernel/src/object/tcb.c and
  cnode.c, src/kernel/src/api/faults.c and its x86 part): the message information word, the
  registers and the IPC buffer a message is in, the copy of a message, the messages of faults and
  errors, and what a reply to a fault writes back.

  User memory is a map from the addresses of aligned words in the kernel's window to words. An
  IPC buffer is the address of its first word, 0 being NULL; a misaligned word access is
  \<open>None\<close>. The setters of the bitfield generator assert that the value fits its field.
\<close>

section \<open>The message information word\<close>

definition seL4_MsgMaxLength :: nat where "seL4_MsgMaxLength = 120"
definition seL4_MsgMaxExtraCaps :: nat where "seL4_MsgMaxExtraCaps = 3"
definition n_msgRegisters :: nat where "n_msgRegisters = 4"

definition MI_get_length :: "u64 \<Rightarrow> u64" where "MI_get_length mi = mi AND 0x7F"
definition MI_get_extraCaps :: "u64 \<Rightarrow> u64" where "MI_get_extraCaps mi = drop_bit 7 mi AND 0x3"
definition MI_get_capsUnwrapped :: "u64 \<Rightarrow> u64" where "MI_get_capsUnwrapped mi = drop_bit 9 mi AND 0x7"
definition MI_get_label :: "u64 \<Rightarrow> u64" where "MI_get_label mi = drop_bit 12 mi"

text \<open>Writing \<open>v\<close> into the field of \<open>w\<close> bits at bit \<open>k\<close>.\<close>

definition set_field :: "nat \<Rightarrow> nat \<Rightarrow> u64 \<Rightarrow> u64 \<Rightarrow> u64 option" where
  "set_field k w mi v =
     do { k_assert (v AND NOT (mask w) = 0);
          Some ((mi AND NOT (push_bit k (mask w))) OR push_bit k v) }"

definition MI_set_length :: "u64 \<Rightarrow> u64 \<Rightarrow> u64 option" where "MI_set_length = set_field 0 7"
definition MI_set_extraCaps :: "u64 \<Rightarrow> u64 \<Rightarrow> u64 option" where "MI_set_extraCaps = set_field 7 2"
definition MI_set_capsUnwrapped :: "u64 \<Rightarrow> u64 \<Rightarrow> u64 option" where "MI_set_capsUnwrapped = set_field 9 3"

definition MI_new :: "u64 \<Rightarrow> u64 \<Rightarrow> u64 \<Rightarrow> u64 \<Rightarrow> u64 option" where
  "MI_new label capsUnwrapped extraCaps len =
     do { mi \<leftarrow> set_field 12 52 0 label;
          mi \<leftarrow> MI_set_capsUnwrapped mi capsUnwrapped;
          mi \<leftarrow> MI_set_extraCaps mi extraCaps;
          MI_set_length mi len }"

definition messageInfoFromWord :: "u64 \<Rightarrow> u64 option" where
  "messageInfoFromWord w =
     (let len = MI_get_length w in
      if len > of_nat seL4_MsgMaxLength then MI_set_length w (of_nat seL4_MsgMaxLength) else Some w)"

definition wordFromMessageInfo :: "u64 \<Rightarrow> u64" where
  "wordFromMessageInfo mi = mi"

section \<open>The IPC buffer\<close>

definition buf_addr :: "ptr \<Rightarrow> nat \<Rightarrow> u64" where
  "buf_addr buf i = buf + 8 * of_nat i"

definition buf_load :: "ptr \<Rightarrow> nat \<Rightarrow> kstate \<Rightarrow> u64 option" where
  "buf_load buf i s = (if buf AND 7 = 0 then user_mem s (buf_addr buf i) else None)"

definition buf_store :: "ptr \<Rightarrow> nat \<Rightarrow> u64 \<Rightarrow> kstate \<Rightarrow> kstate option" where
  "buf_store buf i v s =
     (if buf AND 7 = 0 \<and> user_mem s (buf_addr buf i) \<noteq> None
      then Some (s\<lparr>user_mem := (user_mem s)(buf_addr buf i \<mapsto> v)\<rparr>) else None)"

definition lookupIPCBuffer :: "bool \<Rightarrow> ptr \<Rightarrow> kstate \<Rightarrow> ptr option" where
  "lookupIPCBuffer isReceiver thread s =
     do { t \<leftarrow> tcbs s thread;
          let w_bufferPtr = tcbIPCBuffer t;
          bufferCap \<leftarrow> map_option cteCap (ctes s (TCB_PTR_CTE_PTR thread tcbBuffer));
          case bufferCap of
            ArchObjectCap (FrameCap _ basePtr sz _ _ vm_rights isDevice) \<Rightarrow>
              if isDevice then Some 0
              else if vm_rights = VMReadWrite \<or> \<not> isReceiver \<and> vm_rights = VMReadOnly then do {
                pageBits \<leftarrow> pageBitsForSize sz;
                Some (basePtr + (w_bufferPtr AND MASK pageBits)) }
              else Some 0
          | _ \<Rightarrow> Some 0 }"

definition getExtraCPtr :: "ptr \<Rightarrow> nat \<Rightarrow> kstate \<Rightarrow> u64 option" where
  "getExtraCPtr buf i = buf_load buf (seL4_MsgMaxLength + 2 + i)"

definition setExtraBadge :: "ptr \<Rightarrow> u64 \<Rightarrow> nat \<Rightarrow> kstate \<Rightarrow> kstate option" where
  "setExtraBadge buf badge i = buf_store buf (seL4_MsgMaxLength + 2 + i) badge"

record cap_transfer =
  ctReceiveRoot :: u64
  ctReceiveIndex :: u64
  ctReceiveDepth :: u64

definition loadCapTransfer :: "ptr \<Rightarrow> kstate \<Rightarrow> cap_transfer option" where
  "loadCapTransfer buf s =
     (let offset = seL4_MsgMaxLength + seL4_MsgMaxExtraCaps + 2 in
      do { root \<leftarrow> buf_load buf offset s;
           index \<leftarrow> buf_load buf (offset + 1) s;
           depth \<leftarrow> buf_load buf (offset + 2) s;
           Some \<lparr>ctReceiveRoot = root, ctReceiveIndex = index, ctReceiveDepth = depth\<rparr> })"

definition getReceiveSlots :: "ptr \<Rightarrow> ptr \<Rightarrow> kstate \<Rightarrow> (ptr \<times> kstate) option" where
  "getReceiveSlots thread buffer s =
     (if buffer = 0 then Some (0, s)
      else do {
        ct \<leftarrow> loadCapTransfer buffer s;
        (status, cnode, s) \<leftarrow> lookupCap thread (ctReceiveRoot ct) s;
        if status \<noteq> EXCEPTION_NONE then Some (0, s)
        else do {
          (status, slot, s) \<leftarrow> lookupTargetSlot cnode (ctReceiveIndex ct) (ctReceiveDepth ct) s;
          if status \<noteq> EXCEPTION_NONE then Some (0, s)
          else do {
            c \<leftarrow> ctes s slot;
            Some (if cteCap c \<noteq> NullCap then 0 else slot, s) } } })"

fun lookupExtraCaps_loop :: "ptr \<Rightarrow> ptr \<Rightarrow> nat \<Rightarrow> nat \<Rightarrow> kstate \<Rightarrow> (exception \<times> kstate) option" where
  "lookupExtraCaps_loop thread buf i 0 s =
     Some (EXCEPTION_NONE,
       if i < seL4_MsgMaxExtraCaps then s\<lparr>current_extra_caps := (current_extra_caps s)(i := 0)\<rparr> else s)"
| "lookupExtraCaps_loop thread buf i (Suc n) s =
     do { cptr \<leftarrow> getExtraCPtr buf i s;
          (status, slot, s) \<leftarrow> lookupSlot thread cptr s;
          if status \<noteq> EXCEPTION_NONE then Some (status, s\<lparr>current_fault := Fault_CapFault cptr False\<rparr>)
          else lookupExtraCaps_loop thread buf (Suc i) n
                 (s\<lparr>current_extra_caps := (current_extra_caps s)(i := slot)\<rparr>) }"

definition lookupExtraCaps :: "ptr \<Rightarrow> ptr \<Rightarrow> u64 \<Rightarrow> kstate \<Rightarrow> (exception \<times> kstate) option" where
  "lookupExtraCaps thread buf info s =
     (if buf = 0 then Some (EXCEPTION_NONE, s\<lparr>current_extra_caps := (current_extra_caps s)(0 := 0)\<rparr>)
      else lookupExtraCaps_loop thread buf 0 (unat (MI_get_extraCaps info)) s)"

section \<open>Message registers\<close>

definition setMR :: "ptr \<Rightarrow> ptr \<Rightarrow> nat \<Rightarrow> u64 \<Rightarrow> kstate \<Rightarrow> (u64 \<times> kstate) option" where
  "setMR receiver buf offset reg s =
     (if offset \<ge> n_msgRegisters then
        if buf \<noteq> 0 then do { s \<leftarrow> buf_store buf (offset + 1) reg s; Some (of_nat (offset + 1), s) }
        else Some (of_nat n_msgRegisters, s)
      else do { s \<leftarrow> setRegister receiver (msgRegisters ! offset) reg s; Some (of_nat (offset + 1), s) })"

fun copy_regs :: "ptr \<Rightarrow> ptr \<Rightarrow> register list \<Rightarrow> kstate \<Rightarrow> kstate option" where
  "copy_regs sender receiver [] s = Some s"
| "copy_regs sender receiver (r # rs) s =
     do { v \<leftarrow> getRegister sender r s; s \<leftarrow> setRegister receiver r v s; copy_regs sender receiver rs s }"

fun copy_words :: "ptr \<Rightarrow> ptr \<Rightarrow> nat \<Rightarrow> nat \<Rightarrow> kstate \<Rightarrow> kstate option" where
  "copy_words sendBuf recvBuf i 0 s = Some s"
| "copy_words sendBuf recvBuf i (Suc k) s =
     do { v \<leftarrow> buf_load sendBuf (i + 1) s; s \<leftarrow> buf_store recvBuf (i + 1) v s;
          copy_words sendBuf recvBuf (Suc i) k s }"

definition copyMRs :: "ptr \<Rightarrow> ptr \<Rightarrow> ptr \<Rightarrow> ptr \<Rightarrow> u64 \<Rightarrow> kstate \<Rightarrow> (u64 \<times> kstate) option" where
  "copyMRs sender sendBuf receiver recvBuf n s =
     (let i = min (unat n) n_msgRegisters in
      do { s \<leftarrow> copy_regs sender receiver (take i msgRegisters) s;
           if recvBuf = 0 \<or> sendBuf = 0 then Some (of_nat i, s)
           else do { s \<leftarrow> copy_words sendBuf recvBuf i (unat n - i) s; Some (n, s) } })"

section \<open>Messages about faults and errors\<close>

definition lufType :: "lookup_fault \<Rightarrow> u64" where
  "lufType luf = (case luf of LUF_InvalidRoot \<Rightarrow> 0 | LUF_MissingCapability _ \<Rightarrow> 1
     | LUF_DepthMismatch _ _ \<Rightarrow> 2 | LUF_GuardMismatch _ _ _ \<Rightarrow> 3)"

definition seL4_FaultType :: "fault \<Rightarrow> u64" where
  "seL4_FaultType f = (case f of Fault_NullFault \<Rightarrow> 0 | Fault_CapFault _ _ \<Rightarrow> 1 | Fault_UnknownSyscall _ \<Rightarrow> 2
     | Fault_UserException _ _ \<Rightarrow> 3 | Fault_VMFault _ _ _ \<Rightarrow> 5)"

definition seL4_Error :: "syscall_error \<Rightarrow> u64" where
  "seL4_Error e = (case e of NoError \<Rightarrow> 0 | InvalidArgument _ \<Rightarrow> 1 | InvalidCapability _ \<Rightarrow> 2 | IllegalOperation \<Rightarrow> 3
     | RangeError _ _ \<Rightarrow> 4 | AlignmentError \<Rightarrow> 5 | FailedLookup _ \<Rightarrow> 6 | TruncatedMessage \<Rightarrow> 7
     | DeleteFirst \<Rightarrow> 8 | RevokeFirst \<Rightarrow> 9 | NotEnoughMemory _ \<Rightarrow> 10)"

definition setMRs_lookup_failure :: "ptr \<Rightarrow> ptr \<Rightarrow> lookup_fault \<Rightarrow> nat \<Rightarrow> kstate \<Rightarrow> (u64 \<times> kstate) option" where
  "setMRs_lookup_failure receiver buf luf offset s =
     do { (i, s) \<leftarrow> setMR receiver buf offset (lufType luf + 1) s;
          k_assert (offset = 3 \<or> offset = 1);
          case luf of
            LUF_InvalidRoot \<Rightarrow> Some (i, s)
          | LUF_MissingCapability bitsLeft \<Rightarrow> setMR receiver buf (offset + 1) bitsLeft s
          | LUF_DepthMismatch bitsFound bitsLeft \<Rightarrow> do {
              (_, s) \<leftarrow> setMR receiver buf (offset + 1) bitsLeft s;
              setMR receiver buf (offset + 2) bitsFound s }
          | LUF_GuardMismatch guardFound bitsLeft bitsFound \<Rightarrow> do {
              (_, s) \<leftarrow> setMR receiver buf (offset + 1) bitsLeft s;
              (_, s) \<leftarrow> setMR receiver buf (offset + 2) guardFound s;
              setMR receiver buf (offset + 3) bitsFound s } }"

datatype message_id = MessageID_Syscall | MessageID_Exception

definition fault_messages :: "message_id \<Rightarrow> register list" where
  "fault_messages i = (case i of
       MessageID_Syscall \<Rightarrow> [RAX, RBX, RCX, RDX, RSI, RDI, RBP, R8, R9, R10, R11, R12, R13, R14, R15, FaultIP, RSP, FLAGS]
     | MessageID_Exception \<Rightarrow> [FaultIP, RSP, FLAGS])"

definition n_syscallMessage :: nat where "n_syscallMessage = 18"
definition n_exceptionMessage :: nat where "n_exceptionMessage = 3"

text \<open>The loops of copyMRsFault over the registers of the message that go to message registers and to
  the buffer; a pair is the index in the message and the register.\<close>

fun fault_regs_out :: "ptr \<Rightarrow> ptr \<Rightarrow> (nat \<times> register) list \<Rightarrow> kstate \<Rightarrow> kstate option" where
  "fault_regs_out sender receiver [] s = Some s"
| "fault_regs_out sender receiver ((i, r) # rs) s =
     do { v \<leftarrow> getRegister sender r s; s \<leftarrow> setRegister receiver (msgRegisters ! i) v s;
          fault_regs_out sender receiver rs s }"

fun fault_words_out :: "ptr \<Rightarrow> ptr \<Rightarrow> (nat \<times> register) list \<Rightarrow> kstate \<Rightarrow> kstate option" where
  "fault_words_out sender buf [] s = Some s"
| "fault_words_out sender buf ((i, r) # rs) s =
     do { v \<leftarrow> getRegister sender r s; s \<leftarrow> buf_store buf (i + 1) v s; fault_words_out sender buf rs s }"

definition message_regs :: "message_id \<Rightarrow> nat \<Rightarrow> (nat \<times> register) list" where
  "message_regs mid len = zip [0..<len] (fault_messages mid)"

definition copyMRsFault :: "ptr \<Rightarrow> ptr \<Rightarrow> message_id \<Rightarrow> nat \<Rightarrow> ptr \<Rightarrow> kstate \<Rightarrow> kstate option" where
  "copyMRsFault sender receiver mid len buf s =
     (let i = min len n_msgRegisters in
      do { s \<leftarrow> fault_regs_out sender receiver (take i (message_regs mid len)) s;
           if buf \<noteq> 0 then fault_words_out sender buf (drop i (message_regs mid len)) s else Some s })"

definition Arch_setMRs_fault :: "ptr \<Rightarrow> ptr \<Rightarrow> ptr \<Rightarrow> fault \<Rightarrow> kstate \<Rightarrow> (u64 \<times> kstate) option" where
  "Arch_setMRs_fault sender receiver buf f s = (case f of
       Fault_VMFault address fsr instructionFault \<Rightarrow> do {
         pc \<leftarrow> getRestartPC sender s;
         (_, s) \<leftarrow> setMR receiver buf 0 pc s;
         (_, s) \<leftarrow> setMR receiver buf 1 address s;
         (_, s) \<leftarrow> setMR receiver buf 2 (of_bool instructionFault) s;
         setMR receiver buf 3 fsr s }
     | _ \<Rightarrow> None)"

definition setMRs_fault :: "ptr \<Rightarrow> ptr \<Rightarrow> ptr \<Rightarrow> kstate \<Rightarrow> (u64 \<times> kstate) option" where
  "setMRs_fault sender receiver buf s =
     do { t \<leftarrow> tcbs s sender;
          case tcbFault t of
            Fault_CapFault address inReceivePhase \<Rightarrow> do {
              pc \<leftarrow> getRestartPC sender s;
              (_, s) \<leftarrow> setMR receiver buf 0 pc s;
              (_, s) \<leftarrow> setMR receiver buf 1 address s;
              (_, s) \<leftarrow> setMR receiver buf 2 (of_bool inReceivePhase) s;
              setMRs_lookup_failure receiver buf (tcbLookupFailure t) 3 s }
          | Fault_UnknownSyscall syscallNumber \<Rightarrow> do {
              s \<leftarrow> copyMRsFault sender receiver MessageID_Syscall n_syscallMessage buf s;
              setMR receiver buf n_syscallMessage syscallNumber s }
          | Fault_UserException number code \<Rightarrow> do {
              s \<leftarrow> copyMRsFault sender receiver MessageID_Exception n_exceptionMessage buf s;
              (_, s) \<leftarrow> setMR receiver buf n_exceptionMessage number s;
              setMR receiver buf (n_exceptionMessage + 1) code s }
          | f \<Rightarrow> Arch_setMRs_fault sender receiver buf f s }"

definition setMRs_syscall_error :: "ptr \<Rightarrow> ptr \<Rightarrow> kstate \<Rightarrow> (u64 \<times> kstate) option" where
  "setMRs_syscall_error thread buf s = (case current_syscall_error s of
       InvalidArgument n \<Rightarrow> setMR thread buf 0 n s
     | InvalidCapability n \<Rightarrow> setMR thread buf 0 n s
     | IllegalOperation \<Rightarrow> Some (0, s)
     | RangeError lo hi \<Rightarrow> do { (_, s) \<leftarrow> setMR thread buf 0 lo s; setMR thread buf 1 hi s }
     | AlignmentError \<Rightarrow> Some (0, s)
     | FailedLookup wasSource \<Rightarrow> do {
         (_, s) \<leftarrow> setMR thread buf 0 (if wasSource then 1 else 0) s;
         setMRs_lookup_failure thread buf (current_lookup_fault s) 1 s }
     | TruncatedMessage \<Rightarrow> Some (0, s)
     | DeleteFirst \<Rightarrow> Some (0, s)
     | RevokeFirst \<Rightarrow> Some (0, s)
     | NotEnoughMemory n \<Rightarrow> setMR thread buf 0 n s
     | NoError \<Rightarrow> None)"

section \<open>Replies to faults\<close>

definition FLAGS_TF :: u64 where "FLAGS_TF = 0x100"
definition FLAGS_IF :: u64 where "FLAGS_IF = 0x200"
definition FLAGS_HIGH :: u64 where "FLAGS_HIGH = 0x2"
definition FLAGS_LOW :: u64 where "FLAGS_LOW = 0x28"
definition FLAGS_MASK :: u64 where "FLAGS_MASK = 0xFFF"

definition Mode_sanitiseRegister :: "register \<Rightarrow> u64 \<Rightarrow> u64" where
  "Mode_sanitiseRegister reg v =
     (if reg = FaultIP \<or> reg = NextIP \<or> reg = FS_BASE \<or> reg = GS_BASE
      then if v > 0x00007fffffffffff \<and> v < 0xffff800000000000 then 0 else v
      else v)"

definition sanitiseRegister :: "register \<Rightarrow> u64 \<Rightarrow> bool \<Rightarrow> u64" where
  "sanitiseRegister reg v archInfo =
     (let v = Mode_sanitiseRegister reg v in
      if reg = FLAGS
      then (let v = v OR FLAGS_HIGH; v = v AND NOT FLAGS_LOW; v = v OR FLAGS_IF; v = v AND NOT FLAGS_TF
            in v AND FLAGS_MASK)
      else v)"

definition Arch_getSanitiseRegisterInfo :: "ptr \<Rightarrow> bool" where
  "Arch_getSanitiseRegisterInfo thread = False"

fun fault_regs_in :: "ptr \<Rightarrow> ptr \<Rightarrow> bool \<Rightarrow> (nat \<times> register) list \<Rightarrow> kstate \<Rightarrow> kstate option" where
  "fault_regs_in sender receiver archInfo [] s = Some s"
| "fault_regs_in sender receiver archInfo ((i, r) # rs) s =
     do { v \<leftarrow> getRegister sender (msgRegisters ! i) s;
          s \<leftarrow> setRegister receiver r (sanitiseRegister r v archInfo) s;
          fault_regs_in sender receiver archInfo rs s }"

fun fault_words_in :: "ptr \<Rightarrow> ptr \<Rightarrow> bool \<Rightarrow> (nat \<times> register) list \<Rightarrow> kstate \<Rightarrow> kstate option" where
  "fault_words_in buf receiver archInfo [] s = Some s"
| "fault_words_in buf receiver archInfo ((i, r) # rs) s =
     do { v \<leftarrow> buf_load buf (i + 1) s;
          s \<leftarrow> setRegister receiver r (sanitiseRegister r v archInfo) s;
          fault_words_in buf receiver archInfo rs s }"

definition copyMRsFaultReply :: "ptr \<Rightarrow> ptr \<Rightarrow> message_id \<Rightarrow> nat \<Rightarrow> kstate \<Rightarrow> kstate option" where
  "copyMRsFaultReply sender receiver mid len s =
     (let archInfo = Arch_getSanitiseRegisterInfo receiver; i = min len n_msgRegisters in
      do { s \<leftarrow> fault_regs_in sender receiver archInfo (take i (message_regs mid len)) s;
           if i < len then do {
             sendBuf \<leftarrow> lookupIPCBuffer False sender s;
             if sendBuf \<noteq> 0 then fault_words_in sendBuf receiver archInfo (drop i (message_regs mid len)) s else Some s }
           else Some s })"

definition Arch_handleFaultReply :: "fault \<Rightarrow> bool option" where
  "Arch_handleFaultReply f = (case f of Fault_VMFault _ _ _ \<Rightarrow> Some True | _ \<Rightarrow> None)"

definition handleFaultReply :: "ptr \<Rightarrow> ptr \<Rightarrow> kstate \<Rightarrow> (bool \<times> kstate) option" where
  "handleFaultReply receiver sender s =
     do { w \<leftarrow> getRegister sender msgInfoRegister s;
          tag \<leftarrow> messageInfoFromWord w;
          let label = MI_get_label tag;
          let len = unat (MI_get_length tag);
          t \<leftarrow> tcbs s receiver;
          case tcbFault t of
            Fault_CapFault _ _ \<Rightarrow> Some (True, s)
          | Fault_UnknownSyscall _ \<Rightarrow> do {
              s \<leftarrow> copyMRsFaultReply sender receiver MessageID_Syscall (min len n_syscallMessage) s;
              Some (label = 0, s) }
          | Fault_UserException _ _ \<Rightarrow> do {
              s \<leftarrow> copyMRsFaultReply sender receiver MessageID_Exception (min len n_exceptionMessage) s;
              Some (label = 0, s) }
          | f \<Rightarrow> do { r \<leftarrow> Arch_handleFaultReply f; Some (r, s) } }"

end
