(* ===== verification/K_Ipc.thy ===== *)
theory K_Ipc
  imports K_Message
begin

text \<open>
  Synchronous message passing: the transfer of a message with its capabilities
  (src/kernel/src/kernel/thread.c), sending and receiving over an endpoint
  (src/kernel/src/object/endpoint.c), calls and replies (tcb.c), and the delivery of faults to a
  fault handler (src/kernel/src/kernel/faulthandler.c).
\<close>

section \<open>Transfer of a message\<close>

text \<open>The loop of transferCaps from index \<open>i\<close>, with \<open>k\<close> iterations left.\<close>

fun transferCaps_loop :: "nat \<Rightarrow> nat \<Rightarrow> u64 \<Rightarrow> ptr \<Rightarrow> ptr \<Rightarrow> ptr \<Rightarrow> kstate \<Rightarrow> (nat \<times> u64 \<times> kstate) option" where
  "transferCaps_loop i 0 info endpoint receiveBuffer destSlot s = Some (i, info, s)"
| "transferCaps_loop i (Suc k) info endpoint receiveBuffer destSlot s =
     (let slot = current_extra_caps s i in
      if slot = 0 then Some (i, info, s)
      else do {
        c \<leftarrow> map_option cteCap (ctes s slot);
        if is_EndpointCap c \<and> capEPPtr c = endpoint then do {
          s \<leftarrow> setExtraBadge receiveBuffer (capEPBadge c) i s;
          info \<leftarrow> MI_set_capsUnwrapped info (MI_get_capsUnwrapped info OR push_bit i 1);
          transferCaps_loop (Suc i) k info endpoint receiveBuffer destSlot s }
        else if destSlot = 0 then Some (i, info, s)
        else do {
          (status, newCap, s) \<leftarrow> deriveCap slot c s;
          if status \<noteq> EXCEPTION_NONE then Some (i, info, s)
          else if newCap = NullCap then Some (i, info, s)
          else do {
            s \<leftarrow> cteInsert newCap slot destSlot s;
            transferCaps_loop (Suc i) k info endpoint receiveBuffer 0 s } } })"

definition transferCaps :: "u64 \<Rightarrow> ptr \<Rightarrow> ptr \<Rightarrow> ptr \<Rightarrow> kstate \<Rightarrow> (u64 \<times> kstate) option" where
  "transferCaps info endpoint receiver receiveBuffer s =
     do { info \<leftarrow> MI_set_extraCaps info 0;
          info \<leftarrow> MI_set_capsUnwrapped info 0;
          if current_extra_caps s 0 = 0 \<or> receiveBuffer = 0 then Some (info, s)
          else do {
            (destSlot, s) \<leftarrow> getReceiveSlots receiver receiveBuffer s;
            (i, info, s) \<leftarrow> transferCaps_loop 0 seL4_MsgMaxExtraCaps info endpoint receiveBuffer destSlot s;
            info \<leftarrow> MI_set_extraCaps info (of_nat i);
            Some (info, s) } }"

definition doNormalTransfer :: "ptr \<Rightarrow> ptr \<Rightarrow> ptr \<Rightarrow> u64 \<Rightarrow> bool \<Rightarrow> ptr \<Rightarrow> ptr \<Rightarrow> kstate \<Rightarrow> kstate option" where
  "doNormalTransfer sender sendBuffer endpoint badge canGrant receiver receiveBuffer s =
     do { w \<leftarrow> getRegister sender msgInfoRegister s;
          tag \<leftarrow> messageInfoFromWord w;
          s \<leftarrow> (if canGrant then do {
                  (status, s) \<leftarrow> lookupExtraCaps sender sendBuffer tag s;
                  Some (if status \<noteq> EXCEPTION_NONE then s\<lparr>current_extra_caps := (current_extra_caps s)(0 := 0)\<rparr> else s) }
                else Some (s\<lparr>current_extra_caps := (current_extra_caps s)(0 := 0)\<rparr>));
          (msgTransferred, s) \<leftarrow> copyMRs sender sendBuffer receiver receiveBuffer (MI_get_length tag) s;
          (tag, s) \<leftarrow> transferCaps tag endpoint receiver receiveBuffer s;
          tag \<leftarrow> MI_set_length tag msgTransferred;
          s \<leftarrow> setRegister receiver msgInfoRegister (wordFromMessageInfo tag) s;
          setRegister receiver badgeRegister badge s }"

definition doFaultTransfer :: "u64 \<Rightarrow> ptr \<Rightarrow> ptr \<Rightarrow> ptr \<Rightarrow> kstate \<Rightarrow> kstate option" where
  "doFaultTransfer badge sender receiver receiverIPCBuffer s =
     do { (sent, s) \<leftarrow> setMRs_fault sender receiver receiverIPCBuffer s;
          t \<leftarrow> tcbs s sender;
          msgInfo \<leftarrow> MI_new (seL4_FaultType (tcbFault t)) 0 0 sent;
          s \<leftarrow> setRegister receiver msgInfoRegister (wordFromMessageInfo msgInfo) s;
          setRegister receiver badgeRegister badge s }"

definition doIPCTransfer :: "ptr \<Rightarrow> ptr \<Rightarrow> u64 \<Rightarrow> bool \<Rightarrow> ptr \<Rightarrow> kstate \<Rightarrow> kstate option" where
  "doIPCTransfer sender endpoint badge grant receiver s =
     do { receiveBuffer \<leftarrow> lookupIPCBuffer True receiver s;
          t \<leftarrow> tcbs s sender;
          if tcbFault t = Fault_NullFault then do {
            sendBuffer \<leftarrow> lookupIPCBuffer False sender s;
            doNormalTransfer sender sendBuffer endpoint badge grant receiver receiveBuffer s }
          else doFaultTransfer badge sender receiver receiveBuffer s }"

section \<open>Calls and replies\<close>

definition setupCallerCap :: "ptr \<Rightarrow> ptr \<Rightarrow> bool \<Rightarrow> kstate \<Rightarrow> kstate option" where
  "setupCallerCap sender receiver canGrant s =
     do { s \<leftarrow> setThreadState sender ThreadState_BlockedOnReply s;
          let replySlot = TCB_PTR_CTE_PTR sender tcbReply;
          masterCap \<leftarrow> map_option cteCap (ctes s replySlot);
          k_assert (masterCap = ReplyCap True True sender);
          let callerSlot = TCB_PTR_CTE_PTR receiver tcbCaller;
          callerCap \<leftarrow> map_option cteCap (ctes s callerSlot);
          k_assert (callerCap = NullCap);
          cteInsert (ReplyCap canGrant False sender) replySlot callerSlot s }"

definition deleteCallerCap :: "ptr \<Rightarrow> kstate \<Rightarrow> kstate option" where
  "deleteCallerCap receiver s = cteDeleteOne (TCB_PTR_CTE_PTR receiver tcbCaller) s"

definition doReplyTransfer :: "ptr \<Rightarrow> ptr \<Rightarrow> ptr \<Rightarrow> bool \<Rightarrow> kstate \<Rightarrow> kstate option" where
  "doReplyTransfer sender receiver slot grant s =
     do { t \<leftarrow> tcbs s receiver;
          k_assert (tsType (tcbState t) = ThreadState_BlockedOnReply);
          if tcbFault t = Fault_NullFault then do {
            s \<leftarrow> doIPCTransfer sender 0 0 grant receiver s;
            s \<leftarrow> cteDeleteOne slot s;
            s \<leftarrow> setThreadState receiver ThreadState_Running s;
            possibleSwitchTo receiver s }
          else do {
            s \<leftarrow> cteDeleteOne slot s;
            (restart, s) \<leftarrow> handleFaultReply receiver sender s;
            s \<leftarrow> tcb_upd receiver (tcbFault_update (\<lambda>_. Fault_NullFault)) s;
            if restart then do {
              s \<leftarrow> setThreadState receiver ThreadState_Restart s;
              possibleSwitchTo receiver s }
            else setThreadState receiver ThreadState_Inactive s } }"

section \<open>Endpoints\<close>

definition sendIPC :: "bool \<Rightarrow> bool \<Rightarrow> u64 \<Rightarrow> bool \<Rightarrow> bool \<Rightarrow> ptr \<Rightarrow> ptr \<Rightarrow> kstate \<Rightarrow> kstate option" where
  "sendIPC blocking do_call badge canGrant canGrantReply thread epptr s =
     do { e \<leftarrow> eps s epptr;
          if ep_state e \<noteq> EPState_Recv then
            if blocking then do {
              s \<leftarrow> tcb_upd thread (tcbState_update (\<lambda>ts. ts\<lparr>tsType := ThreadState_BlockedOnSend, blockingObject := epptr,
                     blockingIPCBadge := badge, blockingIPCCanGrant := canGrant,
                     blockingIPCCanGrantReply := canGrantReply, blockingIPCIsCall := do_call\<rparr>)) s;
              s \<leftarrow> scheduleTCB thread s;
              e \<leftarrow> eps s epptr;
              (queue, s) \<leftarrow> ep_append thread (ep_ptr_get_queue e) s;
              s \<leftarrow> ep_upd epptr (ep_state_update (\<lambda>_. EPState_Send)) s;
              ep_ptr_set_queue epptr queue s }
            else Some s
          else do {
            let queue = ep_ptr_get_queue e;
            let dest = q_head queue;
            k_assert (dest \<noteq> 0);
            (queue, s) \<leftarrow> ep_dequeue dest queue s;
            s \<leftarrow> ep_ptr_set_queue epptr queue s;
            s \<leftarrow> (if q_head queue = 0 then ep_upd epptr (ep_state_update (\<lambda>_. EPState_Idle)) s else Some s);
            s \<leftarrow> doIPCTransfer thread epptr badge canGrant dest s;
            d \<leftarrow> tcbs s dest;
            let replyCanGrant = blockingIPCCanGrant (tcbState d);
            s \<leftarrow> setThreadState dest ThreadState_Running s;
            s \<leftarrow> possibleSwitchTo dest s;
            if do_call then
              if canGrant \<or> canGrantReply then setupCallerCap thread dest replyCanGrant s
              else setThreadState thread ThreadState_Inactive s
            else Some s } }"

definition receiveIPC :: "ptr \<Rightarrow> cap \<Rightarrow> bool \<Rightarrow> kstate \<Rightarrow> kstate option" where
  "receiveIPC thread c isBlocking s =
     do { k_assert (is_EndpointCap c);
          let epptr = capEPPtr c;
          t \<leftarrow> tcbs s thread;
          let ntfnPtr = tcbBoundNotification t;
          active \<leftarrow> (if ntfnPtr = 0 then Some False
                    else do { n \<leftarrow> ntfns s ntfnPtr; Some (ntfn_state n = NtfnState_Active) });
          if active then completeSignal ntfnPtr thread s
          else do {
            e \<leftarrow> eps s epptr;
            if ep_state e \<noteq> EPState_Send then
              if isBlocking then do {
                s \<leftarrow> tcb_upd thread (tcbState_update (\<lambda>ts. ts\<lparr>tsType := ThreadState_BlockedOnReceive,
                       blockingObject := epptr, blockingIPCCanGrant := capCanGrant c\<rparr>)) s;
                s \<leftarrow> scheduleTCB thread s;
                e \<leftarrow> eps s epptr;
                (queue, s) \<leftarrow> ep_append thread (ep_ptr_get_queue e) s;
                s \<leftarrow> ep_upd epptr (ep_state_update (\<lambda>_. EPState_Recv)) s;
                ep_ptr_set_queue epptr queue s }
              else doNBRecvFailedTransfer thread s
            else do {
              let queue = ep_ptr_get_queue e;
              let sender = q_head queue;
              k_assert (sender \<noteq> 0);
              (queue, s) \<leftarrow> ep_dequeue sender queue s;
              s \<leftarrow> ep_ptr_set_queue epptr queue s;
              s \<leftarrow> (if q_head queue = 0 then ep_upd epptr (ep_state_update (\<lambda>_. EPState_Idle)) s else Some s);
              sd \<leftarrow> tcbs s sender;
              let badge = blockingIPCBadge (tcbState sd);
              let canGrant = blockingIPCCanGrant (tcbState sd);
              let canGrantReply = blockingIPCCanGrantReply (tcbState sd);
              s \<leftarrow> doIPCTransfer sender epptr badge canGrant thread s;
              sd \<leftarrow> tcbs s sender;
              let do_call = blockingIPCIsCall (tcbState sd);
              if do_call then
                if canGrant \<or> canGrantReply then setupCallerCap sender thread (capCanGrant c) s
                else setThreadState sender ThreadState_Inactive s
              else do {
                s \<leftarrow> setThreadState sender ThreadState_Running s;
                possibleSwitchTo sender s } } } }"

definition replyFromKernel_error :: "ptr \<Rightarrow> kstate \<Rightarrow> kstate option" where
  "replyFromKernel_error thread s =
     do { ipcBuffer \<leftarrow> lookupIPCBuffer True thread s;
          s \<leftarrow> setRegister thread badgeRegister 0 s;
          (len, s) \<leftarrow> setMRs_syscall_error thread ipcBuffer s;
          mi \<leftarrow> MI_new (seL4_Error (current_syscall_error s)) 0 0 len;
          setRegister thread msgInfoRegister (wordFromMessageInfo mi) s }"

definition replyFromKernel_success_empty :: "ptr \<Rightarrow> kstate \<Rightarrow> kstate option" where
  "replyFromKernel_success_empty thread s =
     do { s \<leftarrow> setRegister thread badgeRegister 0 s;
          mi \<leftarrow> MI_new 0 0 0 0;
          setRegister thread msgInfoRegister (wordFromMessageInfo mi) s }"

section \<open>Faults\<close>

definition sendFaultIPC :: "ptr \<Rightarrow> kstate \<Rightarrow> (exception \<times> kstate) option" where
  "sendFaultIPC tptr s =
     do { let original_lookup_fault = current_lookup_fault s;
          t \<leftarrow> tcbs s tptr;
          let handlerCPtr = tcbFaultHandler t;
          (status, handlerCap, s) \<leftarrow> lookupCap tptr handlerCPtr s;
          if status \<noteq> EXCEPTION_NONE then
            Some (EXCEPTION_FAULT, s\<lparr>current_fault := Fault_CapFault handlerCPtr False\<rparr>)
          else case handlerCap of
            EndpointCap badge canGrantReply canGrant canSend _ epptr \<Rightarrow>
              if canSend \<and> (canGrant \<or> canGrantReply) then do {
                let f = current_fault s;
                s \<leftarrow> tcb_upd tptr (tcbFault_update (\<lambda>_. f)) s;
                s \<leftarrow> (case f of
                        Fault_CapFault _ _ \<Rightarrow> tcb_upd tptr (tcbLookupFailure_update (\<lambda>_. original_lookup_fault)) s
                      | _ \<Rightarrow> Some s);
                s \<leftarrow> sendIPC True True badge canGrant True tptr epptr s;
                Some (EXCEPTION_NONE, s) }
              else Some (EXCEPTION_FAULT, s\<lparr>current_fault := Fault_CapFault handlerCPtr False,
                           current_lookup_fault := LUF_MissingCapability 0\<rparr>)
          | _ \<Rightarrow> Some (EXCEPTION_FAULT, s\<lparr>current_fault := Fault_CapFault handlerCPtr False,
                         current_lookup_fault := LUF_MissingCapability 0\<rparr>) }"

definition handleDoubleFault :: "ptr \<Rightarrow> kstate \<Rightarrow> kstate option" where
  "handleDoubleFault tptr s = setThreadState tptr ThreadState_Inactive s"

definition handleFault :: "ptr \<Rightarrow> kstate \<Rightarrow> kstate option" where
  "handleFault tptr s =
     do { (status, s) \<leftarrow> sendFaultIPC tptr s;
          if status \<noteq> EXCEPTION_NONE then handleDoubleFault tptr s else Some s }"

end
