(* ===== verification/K_Transfer.thy ===== *)
theory K_Transfer
  imports K_Ipc
begin

text \<open>
  What the transfer of a message delivers: the registers and the words of the buffers, the length
  and the other fields of the message information word, and the bounds that keep every access
  inside the 128 words of an IPC buffer.
\<close>

section \<open>The message information word\<close>

definition get_field :: "nat \<Rightarrow> nat \<Rightarrow> u64 \<Rightarrow> u64" where
  "get_field k w mi = take_bit w (drop_bit k mi)"

lemma and_not_mask_0: "(v :: u64) AND NOT (mask w) = 0 \<longleftrightarrow> take_bit w v = v"
  by (auto simp: bit_eq_iff bit_simps)

lemma MI_fields:
  "MI_get_length = get_field 0 7" "MI_get_extraCaps = get_field 7 2" "MI_get_capsUnwrapped = get_field 9 3"
  "MI_get_label = get_field 12 52"
proof -
  have m: "(0x7F :: u64) = mask 7" "(0x3 :: u64) = mask 2" "(0x7 :: u64) = mask 3"
    by (simp_all add: mask_eq_exp_minus_1)
  show "MI_get_length = get_field 0 7" "MI_get_extraCaps = get_field 7 2" "MI_get_capsUnwrapped = get_field 9 3"
    by (auto simp: MI_get_length_def MI_get_extraCaps_def MI_get_capsUnwrapped_def get_field_def m take_bit_eq_mask)
  show "MI_get_label = get_field 12 52"
    by (rule ext, rule bit_eqI) (auto simp: MI_get_label_def get_field_def bit_simps dest: bit_imp_le_length)
qed

lemma set_field_Some: "take_bit w v = v \<Longrightarrow>
    set_field k w mi v = Some ((mi AND NOT (push_bit k (mask w))) OR push_bit k v)"
  by (simp add: set_field_def and_not_mask_0)

lemma get_set_field:
  assumes "set_field k w mi v = Some mi'" and "k + w \<le> 64"
  shows "get_field k w mi' = v"
proof -
  have v: "take_bit w v = v" and mi': "mi' = (mi AND NOT (push_bit k (mask w))) OR push_bit k v"
    using assms(1) by (auto simp: set_field_def and_not_mask_0 bind_eq_Some_conv)
  show ?thesis
  proof (rule bit_eqI)
    fix n
    have "bit v n \<Longrightarrow> n < w" using v by (metis bit_take_bit_iff)
    then show "bit (get_field k w mi') n \<longleftrightarrow> bit v n"
      using assms(2) by (auto simp: get_field_def mi' bit_simps)
  qed
qed

lemma get_set_other:
  assumes "set_field k w mi v = Some mi'" and "k' + w' \<le> k \<or> k + w \<le> k'"
  shows "get_field k' w' mi' = get_field k' w' mi"
proof -
  have v: "take_bit w v = v" and mi': "mi' = (mi AND NOT (push_bit k (mask w))) OR push_bit k v"
    using assms(1) by (auto simp: set_field_def and_not_mask_0 bind_eq_Some_conv)
  show ?thesis
  proof (rule bit_eqI)
    fix n
    have "bit v i \<Longrightarrow> i < w" for i using v by (metis bit_take_bit_iff)
    from this [of "k' + n - k"] show "bit (get_field k' w' mi') n \<longleftrightarrow> bit (get_field k' w' mi) n"
      using assms(2) bit_imp_le_length [of mi "k' + n"] by (auto simp: get_field_def mi' bit_simps)
  qed
qed

lemma take_bit_small: "unat v < 2 ^ w \<Longrightarrow> take_bit w (v :: u64) = v"
proof -
  assume "unat v < 2 ^ w"
  then have "unat (take_bit w v) = unat v" by (simp add: unsigned_take_bit_eq take_bit_nat_eq_self)
  then show ?thesis by (simp only: word_unat_eq_iff)
qed

lemma length_small: "unat (MI_get_length w) < 128"
proof -
  have "unat (take_bit 7 w) = take_bit 7 (unat w)" by (simp add: unsigned_take_bit_eq)
  then show ?thesis by (simp add: MI_fields get_field_def take_bit_eq_mod)
qed

text \<open>The length of a message is clamped to 120; the other fields are those of the word.\<close>

lemma messageInfoFromWord_result:
  obtains mi where "messageInfoFromWord w = Some mi"
    "unat (MI_get_length mi) = min (unat (MI_get_length w)) 120" "MI_get_label mi = MI_get_label w"
    "MI_get_extraCaps mi = MI_get_extraCaps w" "MI_get_capsUnwrapped mi = MI_get_capsUnwrapped w"
proof (cases "MI_get_length w > 120")
  case True
  have "take_bit 7 (120 :: u64) = 120" by (rule take_bit_small) simp
  then obtain mi where mi: "set_field 0 7 w 120 = Some mi" by (auto simp: set_field_Some)
  show ?thesis
  proof (rule that [of mi])
    show "messageInfoFromWord w = Some mi"
      using True mi by (simp add: messageInfoFromWord_def seL4_MsgMaxLength_def MI_set_length_def)
    show "unat (MI_get_length mi) = min (unat (MI_get_length w)) 120"
      using get_set_field [OF mi] True by (simp add: MI_fields word_less_nat_alt)
  qed (simp_all add: MI_fields get_set_other [OF mi])
next
  case False
  then show ?thesis
    by (intro that [of w]) (auto simp: messageInfoFromWord_def seL4_MsgMaxLength_def Let_def word_less_nat_alt)
qed

section \<open>Registers and buffers\<close>

definition message :: "ptr \<Rightarrow> ptr \<Rightarrow> nat \<Rightarrow> kstate \<Rightarrow> u64 option list" where
  "message thread buf m s =
     map (\<lambda>i. if i < n_msgRegisters then getRegister thread (msgRegisters ! i) s else buf_load buf (i + 1) s) [0..<m]"

text \<open>The 128 words of an IPC buffer.\<close>

definition buf_words :: "ptr \<Rightarrow> u64 set" where
  "buf_words buf = buf_addr buf ` {..<128}"

definition buf_ok :: "ptr \<Rightarrow> kstate \<Rightarrow> bool" where
  "buf_ok buf s \<longleftrightarrow> buf AND 7 = 0 \<and> (\<forall>a \<in> buf_words buf. user_mem s a \<noteq> None)"

lemma buf_addr_inj: "i < 128 \<Longrightarrow> j < 128 \<Longrightarrow> buf_addr b i = buf_addr b j \<Longrightarrow> i = j"
proof -
  assume ij: "i < 128" "j < 128" "buf_addr b i = buf_addr b j"
  then have "(8 * of_nat i :: u64) = 8 * of_nat j" by (simp add: buf_addr_def)
  then have "(of_nat (8 * i) :: u64) = of_nat (8 * j)" by simp
  then have "8 * i = 8 * j" by (subst (asm) word_of_nat_eq_iff) (use ij in \<open>simp add: take_bit_nat_eq_self\<close>)
  then show ?thesis by simp
qed

lemma copy_regs_result:
  assumes "sender \<noteq> receiver" "tcbs s sender = Some ts"
  shows "tcbs s receiver = Some tr \<Longrightarrow> distinct rs \<Longrightarrow> copy_regs sender receiver rs s =
    Some (s\<lparr>tcbs := (tcbs s)(receiver \<mapsto> tr\<lparr>tcbContext := (\<lambda>r. if r \<in> set rs then tcbContext ts r else tcbContext tr r)\<rparr>)\<rparr>)"
  using assms
proof (induction rs arbitrary: s tr)
  case Nil
  then show ?case by (simp add: map_upd_triv)
next
  case (Cons r rs)
  define tr1 where "tr1 = tr\<lparr>tcbContext := (tcbContext tr)(r := tcbContext ts r)\<rparr>"
  define s1 where "s1 = s\<lparr>tcbs := (tcbs s)(receiver \<mapsto> tr1)\<rparr>"
  have "copy_regs sender receiver (r # rs) s = copy_regs sender receiver rs s1"
    using Cons.prems by (cases tr) (simp add: getRegister_def setRegister_def tcb_upd_def s1_def tr1_def)
  also have "\<dots> = Some (s1\<lparr>tcbs := (tcbs s1)(receiver \<mapsto> tr1\<lparr>tcbContext := (\<lambda>r. if r \<in> set rs then tcbContext ts r else tcbContext tr1 r)\<rparr>)\<rparr>)"
    using Cons.prems by (intro Cons.IH) (simp_all add: s1_def)
  also have "(\<lambda>x. if x \<in> set rs then tcbContext ts x else tcbContext tr1 x)
      = (\<lambda>x. if x \<in> set (r # rs) then tcbContext ts x else tcbContext tr x)"
    using Cons.prems(2) by (auto simp: tr1_def)
  finally have "copy_regs sender receiver (r # rs) s =
      Some (s1\<lparr>tcbs := (tcbs s1)(receiver \<mapsto> tr1\<lparr>tcbContext := (\<lambda>x. if x \<in> set (r # rs) then tcbContext ts x else tcbContext tr x)\<rparr>)\<rparr>)" .
  moreover have "s1\<lparr>tcbs := (tcbs s1)(receiver \<mapsto> x)\<rparr> = s\<lparr>tcbs := (tcbs s)(receiver \<mapsto> x)\<rparr>" for x by (simp add: s1_def)
  moreover have "tr1\<lparr>tcbContext := c\<rparr> = tr\<lparr>tcbContext := c\<rparr>" for c by (simp add: tr1_def)
  ultimately show ?case by (simp only:)
qed

lemma copy_words_result:
  assumes "sb AND 7 = 0" "rb AND 7 = 0" "buf_words sb \<inter> buf_words rb = {}"
  shows "i + k < 128 \<Longrightarrow> (\<forall>a \<in> buf_words sb \<union> buf_words rb. user_mem s a \<noteq> None) \<Longrightarrow>
    \<exists>m'. copy_words sb rb i k s = Some (s\<lparr>user_mem := m'\<rparr>)
      \<and> (\<forall>j. i \<le> j \<and> j < i + k \<longrightarrow> m' (buf_addr rb (j + 1)) = user_mem s (buf_addr sb (j + 1)))
      \<and> (\<forall>a. a \<notin> (\<lambda>j. buf_addr rb (j + 1)) ` {i..<i + k} \<longrightarrow> m' a = user_mem s a)"
proof (induction k arbitrary: i s)
  case 0
  then show ?case by (intro exI [of _ "user_mem s"]) auto
next
  case (Suc k)
  have in_s: "buf_addr sb (j + 1) \<in> buf_words sb" and in_r: "buf_addr rb (j + 1) \<in> buf_words rb" if "j \<le> i + k" for j
    using that Suc.prems(1) by (auto simp: buf_words_def)
  obtain v where v: "user_mem s (buf_addr sb (i + 1)) = Some v" using Suc.prems(2) in_s [of i] by auto
  define s1 where "s1 = s\<lparr>user_mem := (user_mem s)(buf_addr rb (i + 1) \<mapsto> v)\<rparr>"
  have step: "copy_words sb rb i (Suc k) s = copy_words sb rb (Suc i) k s1"
    using assms(1,2) v Suc.prems(2) in_r [of i] by (auto simp: buf_load_def buf_store_def s1_def)
  have "Suc i + k < 128" "\<forall>a \<in> buf_words sb \<union> buf_words rb. user_mem s1 a \<noteq> None"
    using Suc.prems by (auto simp: s1_def)
  from Suc.IH [OF this] obtain m' where m': "copy_words sb rb (Suc i) k s1 = Some (s1\<lparr>user_mem := m'\<rparr>)"
    "\<forall>j. Suc i \<le> j \<and> j < Suc i + k \<longrightarrow> m' (buf_addr rb (j + 1)) = user_mem s1 (buf_addr sb (j + 1))"
    "\<forall>a. a \<notin> (\<lambda>j. buf_addr rb (j + 1)) ` {Suc i..<Suc i + k} \<longrightarrow> m' a = user_mem s1 a" by blast
  have "m' (buf_addr rb (j + 1)) = user_mem s (buf_addr sb (j + 1))" if j: "i \<le> j" "j < i + Suc k" for j
  proof (cases "j = i")
    case True
    have "buf_addr rb (i + 1) \<notin> (\<lambda>j. buf_addr rb (j + 1)) ` {Suc i..<Suc i + k}"
      using Suc.prems(1) by (auto dest!: buf_addr_inj [rotated 2])
    then show ?thesis using m'(3) v True by (simp add: s1_def)
  next
    case False
    then have "m' (buf_addr rb (j + 1)) = user_mem s1 (buf_addr sb (j + 1))" using m'(2) j by simp
    moreover have "buf_addr sb (j + 1) \<noteq> buf_addr rb (i + 1)"
      using in_s [of j] in_r [of i] assms(3) j by (metis disjoint_iff less_Suc_eq_le add_Suc_right le_add1)
    ultimately show ?thesis by (simp add: s1_def)
  qed
  moreover have "m' a = user_mem s a" if "a \<notin> (\<lambda>j. buf_addr rb (j + 1)) ` {i..<i + Suc k}" for a
  proof -
    have "a \<noteq> buf_addr rb (i + 1)" "a \<notin> (\<lambda>j. buf_addr rb (j + 1)) ` {Suc i..<Suc i + k}" using that by auto
    then show ?thesis using m'(3) by (simp add: s1_def)
  qed
  moreover have "copy_words sb rb i (Suc k) s = Some (s\<lparr>user_mem := m'\<rparr>)"
    unfolding step m'(1) by (simp add: s1_def)
  ultimately show ?case by blast
qed

section \<open>The transfer\<close>

definition transferred :: "ptr \<Rightarrow> ptr \<Rightarrow> nat \<Rightarrow> nat" where
  "transferred sb rb len = (if sb = 0 \<or> rb = 0 then min len n_msgRegisters else len)"

definition buffers_ok :: "ptr \<Rightarrow> ptr \<Rightarrow> kstate \<Rightarrow> bool" where
  "buffers_ok sb rb s \<longleftrightarrow> sb = 0 \<or> rb = 0 \<or> buf_ok sb s \<and> buf_ok rb s \<and> buf_words sb \<inter> buf_words rb = {}"

lemma msgRegisters_facts: "length msgRegisters = n_msgRegisters" "distinct msgRegisters"
  "badgeRegister \<notin> set msgRegisters" "msgInfoRegister \<notin> set msgRegisters"
  by (simp_all add: msgRegisters_def n_msgRegisters_def)

lemma copyMRs_result:
  assumes "sender \<noteq> receiver" "tcbs s sender = Some ts" "tcbs s receiver = Some tr" and len: "unat n \<le> 120"
    and ok: "buffers_ok sb rb s" and m: "m = transferred sb rb (unat n)"
  shows "\<exists>mem. copyMRs sender sb receiver rb n s = Some (of_nat m, s\<lparr>
      tcbs := (tcbs s)(receiver \<mapsto> tr\<lparr>tcbContext := (\<lambda>r. if r \<in> set (take m msgRegisters) then tcbContext ts r else tcbContext tr r)\<rparr>),
      user_mem := mem\<rparr>)
    \<and> (\<forall>j. n_msgRegisters \<le> j \<and> j < m \<longrightarrow> mem (buf_addr rb (j + 1)) = user_mem s (buf_addr sb (j + 1)))
    \<and> (\<forall>a. a \<notin> (\<lambda>j. buf_addr rb (j + 1)) ` {n_msgRegisters..<m} \<longrightarrow> mem a = user_mem s a)"
proof -
  let ?i = "min (unat n) n_msgRegisters"
  have tk: "take ?i msgRegisters = take m msgRegisters"
    using m msgRegisters_facts(1) by (auto simp: transferred_def min_def)
  define s1 where "s1 = s\<lparr>tcbs := (tcbs s)(receiver \<mapsto>
    tr\<lparr>tcbContext := (\<lambda>r. if r \<in> set (take m msgRegisters) then tcbContext ts r else tcbContext tr r)\<rparr>)\<rparr>"
  have regs: "copy_regs sender receiver (take ?i msgRegisters) s = Some s1"
    unfolding s1_def tk by (rule copy_regs_result) (use assms msgRegisters_facts(2) in \<open>simp_all add: distinct_take\<close>)
  show ?thesis
  proof (cases "sb = 0 \<or> rb = 0")
    case True
    then have "copyMRs sender sb receiver rb n s = Some (of_nat m, s1)" and "m \<le> n_msgRegisters"
      using regs m by (auto simp: copyMRs_def transferred_def Let_def)
    then show ?thesis by (intro exI [of _ "user_mem s"]) (auto simp: s1_def)
  next
    case False
    then have ok': "sb AND 7 = 0" "rb AND 7 = 0" "buf_words sb \<inter> buf_words rb = {}"
      "\<forall>a \<in> buf_words sb \<union> buf_words rb. user_mem s1 a \<noteq> None"
      using ok by (auto simp: buffers_ok_def buf_ok_def s1_def)
    have mn: "m = unat n" using False m by (simp add: transferred_def)
    have "?i + (unat n - ?i) < 128" using len by simp
    from copy_words_result [OF ok'(1-3) this ok'(4)] obtain mem where
      mem: "copy_words sb rb ?i (unat n - ?i) s1 = Some (s1\<lparr>user_mem := mem\<rparr>)"
      "\<forall>j. ?i \<le> j \<and> j < ?i + (unat n - ?i) \<longrightarrow> mem (buf_addr rb (j + 1)) = user_mem s1 (buf_addr sb (j + 1))"
      "\<forall>a. a \<notin> (\<lambda>j. buf_addr rb (j + 1)) ` {?i..<?i + (unat n - ?i)} \<longrightarrow> mem a = user_mem s1 a" by blast
    have rng: "{?i..<?i + (unat n - ?i)} = {n_msgRegisters..<m}" by (auto simp: mn min_def)
    have "copyMRs sender sb receiver rb n s = Some (of_nat m, s1\<lparr>user_mem := mem\<rparr>)"
      using False regs mem(1) by (simp add: copyMRs_def mn)
    moreover have "mem (buf_addr rb (j + 1)) = user_mem s (buf_addr sb (j + 1))" if "n_msgRegisters \<le> j \<and> j < m" for j
      using mem(2) that by (auto simp: mn s1_def)
    moreover have "mem a = user_mem s a" if "a \<notin> (\<lambda>j. buf_addr rb (j + 1)) ` {n_msgRegisters..<m}" for a
      using mem(3) [unfolded rng] that by (simp add: s1_def)
    ultimately show ?thesis by (intro exI [of _ mem]) (simp add: s1_def)
  qed
qed

lemma transferCaps_none:
  assumes "current_extra_caps s 0 = 0"
  obtains mi' where "transferCaps mi ep receiver rb s = Some (mi', s)" "MI_get_extraCaps mi' = 0"
    "MI_get_capsUnwrapped mi' = 0" "MI_get_label mi' = MI_get_label mi"
proof -
  obtain m1 where m1: "set_field 7 2 mi 0 = Some m1" by (auto simp: set_field_Some)
  obtain m2 where m2: "set_field 9 3 m1 0 = Some m2" by (auto simp: set_field_Some)
  show ?thesis
    by (rule that [of m2])
       (use assms m1 m2 get_set_field [OF m1] get_set_field [OF m2] in
         \<open>simp_all add: transferCaps_def MI_set_extraCaps_def MI_set_capsUnwrapped_def MI_fields
            get_set_other [OF m2] get_set_other [OF m1]\<close>)
qed

lemma message_cong:
  assumes "m \<le> n_msgRegisters \<or> sb AND 7 = 0 \<and> rb AND 7 = 0"
    and "\<And>i. i < n_msgRegisters \<Longrightarrow> i < m \<Longrightarrow> getRegister r (msgRegisters ! i) s' = getRegister t (msgRegisters ! i) s"
    and "\<And>j. n_msgRegisters \<le> j \<Longrightarrow> j < m \<Longrightarrow> user_mem s' (buf_addr rb (j + 1)) = user_mem s (buf_addr sb (j + 1))"
  shows "message r rb m s' = message t sb m s"
  using assms by (auto simp: message_def buf_load_def)

lemma fields_eqI:
  assumes "MI_get_length a = MI_get_length b" "MI_get_extraCaps a = MI_get_extraCaps b"
    "MI_get_capsUnwrapped a = MI_get_capsUnwrapped b" "MI_get_label a = MI_get_label b"
  shows "a = b"
proof (rule bit_eqI)
  fix n
  have f: "bit (get_field k w a) (n - k) \<longleftrightarrow> bit (get_field k w b) (n - k)" if "(k, w) \<in> {(0, 7), (7, 2), (9, 3), (12, 52)}" for k w
    using that assms by (auto simp: MI_fields)
  have at: "bit (get_field k w x) (n - k) \<longleftrightarrow> bit x n" if "k \<le> n" "n < k + w" for k w and x :: u64
    using that by (simp add: get_field_def bit_simps) linarith
  consider "n < 7" | "7 \<le> n" "n < 9" | "9 \<le> n" "n < 12" | "12 \<le> n" "n < 64" | "64 \<le> n" by linarith
  then show "bit a n \<longleftrightarrow> bit b n"
  proof cases
    case 1 then show ?thesis using f [of 0 7] at [of 0 7] by simp
  next
    case 2 then show ?thesis using f [of 7 2] at [of 7 2] by simp
  next
    case 3 then show ?thesis using f [of 9 3] at [of 9 3] by simp
  next
    case 4 then show ?thesis using f [of 12 52] at [of 12 52] by simp
  next
    case 5 then show ?thesis using bit_imp_le_length [of a n] bit_imp_le_length [of b n] by auto
  qed
qed

text \<open>The message information word the receiver gets.\<close>

definition info_word :: "u64 \<Rightarrow> nat \<Rightarrow> u64" where
  "info_word w m = (w AND NOT (mask 12)) OR of_nat m"

lemma info_word_fields:
  assumes "m \<le> 120"
  shows "MI_get_length (info_word w m) = of_nat m" "MI_get_extraCaps (info_word w m) = 0"
    "MI_get_capsUnwrapped (info_word w m) = 0" "MI_get_label (info_word w m) = MI_get_label w"
proof -
  have "take_bit 7 (of_nat m :: u64) = of_nat m" using assms by (intro take_bit_small) (simp add: unat_of_nat)
  then have b: "bit (of_nat m :: u64) i \<Longrightarrow> i < 7" for i by (metis bit_take_bit_iff)
  have bits: "bit (info_word w m) i \<longleftrightarrow> (if i < 7 then bit (of_nat m :: u64) i else 12 \<le> i \<and> bit w i)" for i
    using b [of i] bit_imp_le_length [of w i] by (auto simp: info_word_def bit_simps)
  show "MI_get_length (info_word w m) = of_nat m"
    using b by (auto simp: MI_fields get_field_def bit_eq_iff bit_simps bits)
  show "MI_get_extraCaps (info_word w m) = 0" "MI_get_capsUnwrapped (info_word w m) = 0"
    "MI_get_label (info_word w m) = MI_get_label w"
    by (simp_all add: MI_fields get_field_def bit_eq_iff bit_simps bits)
qed

text \<open>The register file of the receiver after a transfer of \<open>m\<close> words.\<close>

definition delivered :: "(register \<Rightarrow> u64) \<Rightarrow> (register \<Rightarrow> u64) \<Rightarrow> u64 \<Rightarrow> nat \<Rightarrow> register \<Rightarrow> u64" where
  "delivered ca cr badge m r =
     (if r = badgeRegister then badge
      else if r = msgInfoRegister then info_word (ca msgInfoRegister) m
      else if r \<in> set (take m msgRegisters) then ca r else cr r)"

definition message_length :: "ptr \<Rightarrow> ptr \<Rightarrow> (register \<Rightarrow> u64) \<Rightarrow> nat" where
  "message_length sb rb ca = transferred sb rb (min (unat (MI_get_length (ca msgInfoRegister))) 120)"

lemma message_length_bound: "message_length sb rb ca \<le> 120"
  by (auto simp: message_length_def transferred_def)

lemma transfer_result:
  assumes ne: "sender \<noteq> receiver" and ts: "tcbs s sender = Some ts" and tr: "tcbs s receiver = Some tr"
    and nofault: "tcbFault ts = Fault_NullFault"
    and nocaps: "grant \<and> sb \<noteq> 0 \<longrightarrow> MI_get_extraCaps (tcbContext ts msgInfoRegister) = 0"
    and sb: "lookupIPCBuffer False sender s = Some sb" and rb: "lookupIPCBuffer True receiver s = Some rb"
    and ok: "buffers_ok sb rb s" and m: "m = message_length sb rb (tcbContext ts)"
  obtains mem where "doIPCTransfer sender ep badge grant receiver s = Some (s\<lparr>
      tcbs := (tcbs s)(receiver \<mapsto> tr\<lparr>tcbContext := delivered (tcbContext ts) (tcbContext tr) badge m\<rparr>),
      user_mem := mem, current_extra_caps := (current_extra_caps s)(0 := 0)\<rparr>)"
    "\<And>j. n_msgRegisters \<le> j \<Longrightarrow> j < m \<Longrightarrow> mem (buf_addr rb (j + 1)) = user_mem s (buf_addr sb (j + 1))"
    "\<And>a. a \<notin> (\<lambda>j. buf_addr rb (j + 1)) ` {n_msgRegisters..<m} \<Longrightarrow> mem a = user_mem s a"
proof -
  define s0 where "s0 = s\<lparr>current_extra_caps := (current_extra_caps s)(0 := 0)\<rparr>"
  obtain tag where tag: "messageInfoFromWord (tcbContext ts msgInfoRegister) = Some tag"
    "unat (MI_get_length tag) = min (unat (MI_get_length (tcbContext ts msgInfoRegister))) 120"
    "MI_get_label tag = MI_get_label (tcbContext ts msgInfoRegister)"
    "MI_get_extraCaps tag = MI_get_extraCaps (tcbContext ts msgInfoRegister)"
    by (rule messageInfoFromWord_result)
  have look: "lookupExtraCaps sender sb tag s = Some (EXCEPTION_NONE, s0)" if grant
    using that nocaps tag(4) by (auto simp: lookupExtraCaps_def s0_def seL4_MsgMaxExtraCaps_def)
  have m': "m = transferred sb rb (unat (MI_get_length tag))" using m tag(2) by (simp add: message_length_def)
  have m120: "m \<le> 120" using m message_length_bound by simp
  let ?regs = "\<lambda>r. if r \<in> set (take m msgRegisters) then tcbContext ts r else tcbContext tr r"
  have ok0: "buffers_ok sb rb s0" using ok by (simp add: buffers_ok_def buf_ok_def s0_def)
  have len: "unat (MI_get_length tag) \<le> 120" by (simp add: tag(2))
  have th0: "tcbs s0 sender = Some ts" "tcbs s0 receiver = Some tr" using ts tr by (simp_all add: s0_def)
  obtain mem where cp: "copyMRs sender sb receiver rb (MI_get_length tag) s0 = Some (of_nat m, s0\<lparr>
      tcbs := (tcbs s0)(receiver \<mapsto> tr\<lparr>tcbContext := ?regs\<rparr>), user_mem := mem\<rparr>)"
    and mem: "\<And>j. n_msgRegisters \<le> j \<and> j < m \<Longrightarrow> mem (buf_addr rb (j + 1)) = user_mem s0 (buf_addr sb (j + 1))"
      "\<And>a. a \<notin> (\<lambda>j. buf_addr rb (j + 1)) ` {n_msgRegisters..<m} \<Longrightarrow> mem a = user_mem s0 a"
    using copyMRs_result [OF ne th0 len ok0 m'] by blast
  define s1 where "s1 = s0\<lparr>tcbs := (tcbs s0)(receiver \<mapsto> tr\<lparr>tcbContext := ?regs\<rparr>), user_mem := mem\<rparr>"
  have "current_extra_caps s1 0 = 0" by (simp add: s1_def s0_def)
  then obtain mi where mi: "transferCaps tag ep receiver rb s1 = Some (mi, s1)" "MI_get_extraCaps mi = 0"
    "MI_get_capsUnwrapped mi = 0" "MI_get_label mi = MI_get_label tag" by (rule transferCaps_none)
  have "take_bit 7 (of_nat m :: u64) = of_nat m" using m120 by (intro take_bit_small) (simp add: unat_of_nat)
  then obtain mi' where mi': "set_field 0 7 mi (of_nat m) = Some mi'" by (auto simp: set_field_Some)
  have keep: "MI_get_length mi' = of_nat m" "MI_get_extraCaps mi' = MI_get_extraCaps mi"
    "MI_get_capsUnwrapped mi' = MI_get_capsUnwrapped mi" "MI_get_label mi' = MI_get_label mi"
    unfolding MI_fields by (rule get_set_field [OF mi'] get_set_other [OF mi'], simp)+
  have mi'_eq: "mi' = info_word (tcbContext ts msgInfoRegister) m"
    by (rule fields_eqI) (simp_all only: keep mi(2-4) tag(3) info_word_fields [OF m120])
  have ctx: "?regs(msgInfoRegister := mi', badgeRegister := badge) = delivered (tcbContext ts) (tcbContext tr) badge m"
    by (rule ext) (simp add: delivered_def mi'_eq)
  have "doNormalTransfer sender sb ep badge grant receiver rb s = Some (s1\<lparr>tcbs := (tcbs s)(receiver \<mapsto>
      tr\<lparr>tcbContext := ?regs(msgInfoRegister := mi', badgeRegister := badge)\<rparr>)\<rparr>)"
    using cp mi(1) mi' tag(1) ts look
    by (cases grant; simp add: doNormalTransfer_def getRegister_def s0_def [symmetric] s1_def [symmetric] MI_set_length_def)
       (simp_all add: setRegister_def tcb_upd_def wordFromMessageInfo_def s1_def s0_def comp_def)
  then have "doIPCTransfer sender ep badge grant receiver s = Some (s\<lparr>
      tcbs := (tcbs s)(receiver \<mapsto> tr\<lparr>tcbContext := delivered (tcbContext ts) (tcbContext tr) badge m\<rparr>),
      user_mem := mem, current_extra_caps := (current_extra_caps s)(0 := 0)\<rparr>)"
    using rb sb ts nofault unfolding ctx by (simp add: doIPCTransfer_def s1_def s0_def)
  then show ?thesis by (rule that) (use mem in \<open>simp_all add: s0_def\<close>)
qed

text \<open>C27. A message without capabilities arrives complete and within bounds: a transfer between two
  different threads, of which the sender has no pending fault and sends no capabilities (it may
  not grant, has no buffer, or its message names none) returns; the receiver has, in its message
  registers and its buffer, the words of the sender up to the length transferred, which is the
  length of the message clamped to 120, or to the 4 registers when one of the threads has no
  usable buffer. The receiver's badge register holds the badge and its message information
  word the label and the transferred length with no capabilities. No other register, no other
  thread and no word outside the message part of the receiver's buffer changes.\<close>

theorem ipc_transfer_delivers:
  assumes ne: "sender \<noteq> receiver" and ts: "tcbs s sender = Some ts" and tr: "tcbs s receiver = Some tr"
    and nofault: "tcbFault ts = Fault_NullFault"
    and nocaps: "grant \<and> sb \<noteq> 0 \<longrightarrow> MI_get_extraCaps (tcbContext ts msgInfoRegister) = 0"
    and sb: "lookupIPCBuffer False sender s = Some sb" and rb: "lookupIPCBuffer True receiver s = Some rb"
    and ok: "buffers_ok sb rb s"
    and m: "m = message_length sb rb (tcbContext ts)"
  shows "\<exists>s' ctx. doIPCTransfer sender ep badge grant receiver s = Some s'
    \<and> tcbs s' = (tcbs s)(receiver \<mapsto> tr\<lparr>tcbContext := ctx\<rparr>)
    \<and> m \<le> 120 \<and> message receiver rb m s' = message sender sb m s
    \<and> ctx badgeRegister = badge \<and> unat (MI_get_length (ctx msgInfoRegister)) = m
    \<and> MI_get_label (ctx msgInfoRegister) = MI_get_label (tcbContext ts msgInfoRegister)
    \<and> MI_get_extraCaps (ctx msgInfoRegister) = 0 \<and> MI_get_capsUnwrapped (ctx msgInfoRegister) = 0
    \<and> (\<forall>r. r \<notin> {badgeRegister, msgInfoRegister} \<union> set msgRegisters \<longrightarrow> ctx r = tcbContext tr r)
    \<and> (\<forall>a. a \<notin> buf_addr rb ` {1..120} \<longrightarrow> user_mem s' a = user_mem s a)
    \<and> s' = s\<lparr>tcbs := tcbs s', user_mem := user_mem s', current_extra_caps := current_extra_caps s'\<rparr>"
proof -
  obtain mem where run: "doIPCTransfer sender ep badge grant receiver s = Some (s\<lparr>
      tcbs := (tcbs s)(receiver \<mapsto> tr\<lparr>tcbContext := delivered (tcbContext ts) (tcbContext tr) badge m\<rparr>),
      user_mem := mem, current_extra_caps := (current_extra_caps s)(0 := 0)\<rparr>)" (is "_ = Some ?s'")
    and mem: "\<And>j. n_msgRegisters \<le> j \<Longrightarrow> j < m \<Longrightarrow> mem (buf_addr rb (j + 1)) = user_mem s (buf_addr sb (j + 1))"
      "\<And>a. a \<notin> (\<lambda>j. buf_addr rb (j + 1)) ` {n_msgRegisters..<m} \<Longrightarrow> mem a = user_mem s a"
    using transfer_result [OF assms, of ep badge] by blast
  let ?ctx = "delivered (tcbContext ts) (tcbContext tr) badge m"
  have m120: "m \<le> 120" using m message_length_bound by simp
  have nth: "msgRegisters ! i \<in> set (take m msgRegisters)" if "i < n_msgRegisters" "i < m" for i
    using that msgRegisters_facts(1) by (metis in_set_conv_nth length_take min_less_iff_conj nth_take)
  have msg: "message receiver rb m ?s' = message sender sb m s"
  proof (rule message_cong)
    show "m \<le> n_msgRegisters \<or> sb AND 7 = 0 \<and> rb AND 7 = 0"
      using ok m by (auto simp: buffers_ok_def buf_ok_def transferred_def message_length_def)
    show "getRegister receiver (msgRegisters ! i) ?s' = getRegister sender (msgRegisters ! i) s"
      if "i < n_msgRegisters" "i < m" for i
      using nth [OF that] ts msgRegisters_facts(1,3,4) that(1)
      by (auto simp: getRegister_def delivered_def dest: in_set_takeD)
  qed (use mem(1) in simp)
  have fields: "MI_get_length (?ctx msgInfoRegister) = of_nat m" "MI_get_extraCaps (?ctx msgInfoRegister) = 0"
    "MI_get_capsUnwrapped (?ctx msgInfoRegister) = 0"
    "MI_get_label (?ctx msgInfoRegister) = MI_get_label (tcbContext ts msgInfoRegister)"
    using info_word_fields [OF m120] by (simp_all add: delivered_def)
  show ?thesis
  proof (intro exI [of _ ?s'] exI [of _ ?ctx] conjI run m120 msg)
    show "unat (MI_get_length (?ctx msgInfoRegister)) = m" using m120 by (simp add: fields(1) unat_of_nat)
    show "\<forall>a. a \<notin> buf_addr rb ` {1..120} \<longrightarrow> user_mem ?s' a = user_mem s a"
      using mem(2) m120 by fastforce
    show "\<forall>r. r \<notin> {badgeRegister, msgInfoRegister} \<union> set msgRegisters \<longrightarrow> ?ctx r = tcbContext tr r"
      by (auto simp: delivered_def dest: in_set_takeD)
  qed (use fields in \<open>simp_all add: delivered_def\<close>)
qed

text \<open>Two threads with the buffers of 4096 and 8192, and a message of six words.\<close>

definition ipc_frame :: "u64 \<Rightarrow> cap" where
  "ipc_frame base = ArchObjectCap (FrameCap 0 base X86_SmallPage 0 0 VMReadWrite False)"

definition ipc_example :: kstate where
  "ipc_example = ks0\<lparr>
     tcbs := [0x10400 \<mapsto> tcb0\<lparr>tcbContext := (\<lambda>r. if r = msgInfoRegister then 0x7006 else if r = R9 then 33 else 0)\<rparr>,
              0x20400 \<mapsto> tcb0],
     ctes := [0x10080 \<mapsto> \<lparr>cteCap = ipc_frame 4096, cteMDBNode = nullMDBNode\<rparr>,
              0x20080 \<mapsto> \<lparr>cteCap = ipc_frame 8192, cteMDBNode = nullMDBNode\<rparr>],
     user_mem := (\<lambda>a. Some (if a = 4096 + 8 * 6 then 99 else 0))\<rparr>"

theorem ipc_transfer_delivers_witness:
  "\<exists>s' ctx. doIPCTransfer 0x10400 0 5 True 0x20400 ipc_example = Some s'
    \<and> tcbs s' 0x20400 = Some (tcb0\<lparr>tcbContext := ctx\<rparr>) \<and> ctx badgeRegister = 5 \<and> ctx R9 = 33
    \<and> unat (MI_get_length (ctx msgInfoRegister)) = 6 \<and> user_mem s' (8192 + 8 * 6) = Some 99"
proof -
  let ?ts = "tcb0\<lparr>tcbContext := (\<lambda>r. if r = msgInfoRegister then 0x7006 else if r = R9 then 33 else 0)\<rparr>"
  have slots: "TCB_PTR_CTE_PTR 0x10400 tcbBuffer = 0x10080" "TCB_PTR_CTE_PTR 0x20400 tcbBuffer = 0x20080"
    by (simp_all add: TCB_PTR_CTE_PTR_def cte_index_def MASK_def BIT_def seL4_TCBBits_def seL4_SlotBits_def tcbBuffer_def)
  have bufs: "lookupIPCBuffer False 0x10400 ipc_example = Some 4096" "lookupIPCBuffer True 0x20400 ipc_example = Some 8192"
    by (simp_all add: lookupIPCBuffer_def slots ipc_example_def ipc_frame_def tcb0_def pageBitsForSize_def)
  have dis: "buf_words 4096 \<inter> buf_words 8192 = {}"
  proof -
    have "unat (buf_addr 4096 i) = 4096 + 8 * i" "unat (buf_addr 8192 i) = 8192 + 8 * i" if "i < 128" for i
      using that by (simp_all add: buf_addr_def unat_word_ariths unat_of_nat)
    then show ?thesis by (fastforce simp: buf_words_def)
  qed
  have ok: "buffers_ok 4096 8192 ipc_example"
    using dis by (simp add: buffers_ok_def buf_ok_def ipc_example_def)
  have th: "tcbs ipc_example 0x10400 = Some ?ts" "tcbs ipc_example 0x20400 = Some tcb0" "tcbFault ?ts = Fault_NullFault"
    by (simp_all add: ipc_example_def tcb0_def)
  have m: "6 = message_length 4096 8192 (tcbContext ?ts)"
    by (simp add: message_length_def transferred_def MI_get_length_def)
  obtain s' ctx where r: "doIPCTransfer 0x10400 0 5 True 0x20400 ipc_example = Some s'"
    "tcbs s' = (tcbs ipc_example)(0x20400 \<mapsto> tcb0\<lparr>tcbContext := ctx\<rparr>)"
    "message 0x20400 8192 6 s' = message 0x10400 4096 6 ipc_example" "ctx badgeRegister = 5"
    "unat (MI_get_length (ctx msgInfoRegister)) = 6"
    using ipc_transfer_delivers [OF _ th _ bufs ok m, of True 0 5] by (auto simp: MI_get_extraCaps_def)
  have "message 0x20400 8192 6 s' ! 2 = message 0x10400 4096 6 ipc_example ! 2"
    "message 0x20400 8192 6 s' ! 5 = message 0x10400 4096 6 ipc_example ! 5" using r(3) by simp_all
  then have "ctx R9 = 33" "user_mem s' (8192 + 8 * 6) = Some 99"
    using r(2) th(1) by (simp_all add: message_def n_msgRegisters_def msgRegisters_def getRegister_def buf_load_def buf_addr_def)
      (simp_all add: ipc_example_def)
  with r show ?thesis by auto
qed

end
