(* ===== verification/K_Cancel.thy ===== *)
theory K_Cancel
  imports K_Notification
begin

text \<open>
  What cancelling does to the threads waiting in a queue. Restarting a thread changes its state and
  puts it into the ready queue of its priority; the lemmas relate the loops over a queue's links to
  the list of threads the queue represents.
\<close>

section \<open>Frames\<close>

text \<open>The fields of a thread the scheduler's invariant reads, and those an endpoint queue reads.\<close>

definition sched_view :: "tcb \<Rightarrow> u64 \<times> u64 \<times> bool \<times> ptr \<times> ptr" where
  "sched_view t = (tcbDomain t, tcbPriority t, tcbQueued (tcbState t), tcbSchedNext t, tcbSchedPrev t)"

definition ep_view :: "tcb \<Rightarrow> ptr \<times> ptr" where
  "ep_view t = (tcbEPNext t, tcbEPPrev t)"

definition same_view :: "(tcb \<Rightarrow> 'v) \<Rightarrow> tcb_heap \<Rightarrow> tcb_heap \<Rightarrow> bool" where
  "same_view v h h' \<longleftrightarrow> (\<forall>x. map_option v (h x) = map_option v (h' x))"

lemma same_view_refl [simp]: "same_view v h h"
  by (simp add: same_view_def)

lemma same_view_upd: "h x = Some t \<Longrightarrow> v t = v t' \<Longrightarrow> same_view v h (h(x \<mapsto> t'))"
  by (simp add: same_view_def)

lemma same_view_trans: "same_view v h h' \<Longrightarrow> same_view v h' h'' \<Longrightarrow> same_view v h h''"
  by (simp add: same_view_def)

lemma same_view_sym: "same_view v h h' \<Longrightarrow> same_view v h' h"
  by (simp add: same_view_def)

lemma same_view_weaken:
  assumes "same_view v h h'" and "\<And>t t'. v t = v t' \<Longrightarrow> w t = w t'"
  shows "same_view w h h'"
  unfolding same_view_def
proof
  fix x
  have "map_option v (h x) = map_option v (h' x)" using assms(1) by (simp add: same_view_def)
  then show "map_option w (h x) = map_option w (h' x)" by (cases "h x"; cases "h' x") (auto intro: assms(2))
qed

lemma eq_but_same_view: "eq_but c h h' \<longleftrightarrow> same_view c h h'"
  by (simp add: eq_but_def same_view_def)

lemma same_viewD: "same_view v h h' \<Longrightarrow> h' x = Some t' \<Longrightarrow> \<exists>t. h x = Some t \<and> v t = v t'"
  unfolding same_view_def by (cases "h x") (auto dest: spec [of _ x])

lemma same_view_None: "same_view v h h' \<Longrightarrow> h x = None \<longleftrightarrow> h' x = None"
  unfolding same_view_def by (cases "h x"; cases "h' x") (auto dest: spec [of _ x])

lemma bitmap_ok_same:
  "ksReadyQueuesL1Bitmap s' = ksReadyQueuesL1Bitmap s \<Longrightarrow> ksReadyQueuesL2Bitmap s' = ksReadyQueuesL2Bitmap s \<Longrightarrow>
   bitmap_ok P s' \<longleftrightarrow> bitmap_ok P s"
  by (simp only: bitmap_ok_def)

lemma ready_inv_view:
  assumes inv: "ready_inv Q s" and v: "same_view sched_view (tcbs s) (tcbs s')"
    and q: "ksReadyQueues s' = ksReadyQueues s" "ksReadyQueuesL1Bitmap s' = ksReadyQueuesL1Bitmap s"
      "ksReadyQueuesL2Bitmap s' = ksReadyQueuesL2Bitmap s"
  shows "ready_inv Q s'"
proof -
  have ok: "tcbs s 0 = None" "\<And>p. p < 256 \<Longrightarrow> sched_queue (tcbs s) (ksReadyQueues s p) (Q p)"
    "\<And>x t. tcbs s x = Some t \<Longrightarrow> thread_ok Q x t" "bitmap_ok (\<lambda>p. Q p \<noteq> []) s"
    using inv by (simp_all add: ready_inv_def queues_ok_def)
  have links: "same_view (\<lambda>t. (tcbSchedNext t, tcbSchedPrev t)) (tcbs s) (tcbs s')"
    by (rule same_view_weaken [OF v]) (simp add: sched_view_def)
  have "sched_queue (tcbs s') (ksReadyQueues s p) (Q p)" if "p < 256" for p
    using ok(2) [OF that] sched_queue_cong [of "Q p" "tcbs s" "tcbs s'"] links by (simp add: same_view_def)
  moreover have "thread_ok Q y t" if y: "tcbs s' y = Some t" for y t
  proof -
    obtain t0 where "tcbs s y = Some t0" "sched_view t0 = sched_view t" using same_viewD [OF v y] by blast
    then show ?thesis using ok(3) [of y t0] by (simp add: thread_ok_def sched_view_def)
  qed
  moreover have "tcbs s' 0 = None" using same_view_None [OF v] ok(1) by blast
  moreover have "bitmap_ok (\<lambda>p. Q p \<noteq> []) s'" using ok(4) bitmap_ok_same [OF q(2,3)] by blast
  ultimately show ?thesis using q(1) by (simp add: ready_inv_def queues_ok_def)
qed

lemma ep_queue_view: "same_view ep_view h h' \<Longrightarrow> ep_queue h q ts \<longleftrightarrow> ep_queue h' q ts"
  using dll_cong [of ts tcbEPNext tcbEPPrev h h'] by (simp add: ep_queue_def same_view_def ep_view_def [abs_def])

section \<open>Restarting threads\<close>

definition restarted_tcb :: "bool \<Rightarrow> tcb \<Rightarrow> tcb" where
  "restarted_tcb r t = (if r then tcbState_update (tsType_update (\<lambda>_. ThreadState_Restart)) t else t)"

text \<open>Apart from the ready queues the only change is that the threads of \<open>X\<close> are in state Restart.\<close>

definition restarts_but :: "(tcb \<Rightarrow> tcb) \<Rightarrow> ptr set \<Rightarrow> kstate \<Rightarrow> kstate \<Rightarrow> bool" where
  "restarts_but c X s s' \<longleftrightarrow>
     (\<forall>x. map_option (\<lambda>t. c (restarted_tcb (x \<in> X) t)) (tcbs s x) = map_option c (tcbs s' x)) \<and>
     s' = s\<lparr>tcbs := tcbs s', ksReadyQueues := ksReadyQueues s', ksReadyQueuesL1Bitmap := ksReadyQueuesL1Bitmap s',
            ksReadyQueuesL2Bitmap := ksReadyQueuesL2Bitmap s'\<rparr>"

abbreviation restarts :: "ptr set \<Rightarrow> kstate \<Rightarrow> kstate \<Rightarrow> bool" where
  "restarts \<equiv> restarts_but clear_q"

text \<open>The same up to the links of endpoint queues.\<close>

definition clear_links :: "tcb \<Rightarrow> tcb" where
  "clear_links t = clear_ep (clear_q t)"

abbreviation cancels :: "ptr set \<Rightarrow> kstate \<Rightarrow> kstate \<Rightarrow> bool" where
  "cancels \<equiv> restarts_but clear_links"

lemmas restarts_def = restarts_but_def [of clear_q]

lemma restarts_empty [simp]: "restarts_but c {} s s"
  by (simp add: restarts_but_def restarted_tcb_def)

lemma clear_q_restarted: "clear_q t = clear_q t' \<Longrightarrow> clear_q (restarted_tcb r t) = clear_q (restarted_tcb r t')"
  by (cases t; cases t'; cases "tcbState t"; cases "tcbState t'")
     (simp add: clear_q_def clear_sched_def restarted_tcb_def)

lemma clear_links_restarted:
  "clear_links t = clear_links t' \<Longrightarrow> clear_links (restarted_tcb r t) = clear_links (restarted_tcb r t')"
  by (cases t; cases t'; cases "tcbState t"; cases "tcbState t'")
     (simp add: clear_links_def clear_q_def clear_ep_def clear_sched_def restarted_tcb_def)

lemma restarted_twice: "restarted_tcb a (restarted_tcb b t) = restarted_tcb (b \<or> a) t"
  by (cases t; cases "tcbState t") (simp add: restarted_tcb_def)

lemma restarts_but_trans:
  assumes "restarts_but c X s s'" "restarts_but c Y s' s''"
    and cong: "\<And>t t' r. c t = c t' \<Longrightarrow> c (restarted_tcb r t) = c (restarted_tcb r t')"
  shows "restarts_but c (X \<union> Y) s s''"
proof -
  have "map_option (\<lambda>t. c (restarted_tcb (x \<in> X \<union> Y) t)) (tcbs s x) = map_option c (tcbs s'' x)" for x
  proof -
    have 1: "map_option (\<lambda>t. c (restarted_tcb (x \<in> X) t)) (tcbs s x) = map_option c (tcbs s' x)"
      and 2: "map_option (\<lambda>t. c (restarted_tcb (x \<in> Y) t)) (tcbs s' x) = map_option c (tcbs s'' x)"
      using assms(1,2) by (simp_all add: restarts_but_def)
    show ?thesis
    proof (cases "tcbs s x")
      case (Some t)
      with 1 obtain t' where t': "tcbs s' x = Some t'" "c (restarted_tcb (x \<in> X) t) = c t'" by (cases "tcbs s' x") auto
      from cong [OF t'(2), of "x \<in> Y"] have
        "c (restarted_tcb (x \<in> X \<union> Y) t) = c (restarted_tcb (x \<in> Y) t')"
        by (simp add: restarted_twice)
      with 2 t'(1) Some show ?thesis by simp
    qed (use 1 2 in auto)
  qed
  moreover have "s'' = s'\<lparr>tcbs := tcbs s'', ksReadyQueues := ksReadyQueues s'', ksReadyQueuesL1Bitmap := ksReadyQueuesL1Bitmap s'',
      ksReadyQueuesL2Bitmap := ksReadyQueuesL2Bitmap s''\<rparr>"
    and s': "s' = s\<lparr>tcbs := tcbs s', ksReadyQueues := ksReadyQueues s', ksReadyQueuesL1Bitmap := ksReadyQueuesL1Bitmap s',
      ksReadyQueuesL2Bitmap := ksReadyQueuesL2Bitmap s'\<rparr>"
    using assms(1,2) unfolding restarts_but_def by blast+
  moreover have "s'\<lparr>tcbs := a, ksReadyQueues := b, ksReadyQueuesL1Bitmap := d, ksReadyQueuesL2Bitmap := e\<rparr>
      = s\<lparr>tcbs := a, ksReadyQueues := b, ksReadyQueuesL1Bitmap := d, ksReadyQueuesL2Bitmap := e\<rparr>" for a b d e
    by (subst s') simp
  ultimately show ?thesis by (simp add: restarts_but_def)
qed

lemma restarts_trans: "restarts X s s' \<Longrightarrow> restarts Y s' s'' \<Longrightarrow> restarts (X \<union> Y) s s''"
  by (rule restarts_but_trans) (assumption, assumption, rule clear_q_restarted)

lemma cancels_trans: "cancels X s s' \<Longrightarrow> cancels Y s' s'' \<Longrightarrow> cancels (X \<union> Y) s s''"
  by (rule restarts_but_trans) (assumption, assumption, rule clear_links_restarted)

lemma restarts_frame:
  assumes "restarts_but c X s s'"
  shows "eps s' = eps s" "ntfns s' = ntfns s" "ksSchedulerAction s' = ksSchedulerAction s" "ctes s' = ctes s"
proof -
  have e: "s' = s\<lparr>tcbs := tcbs s', ksReadyQueues := ksReadyQueues s', ksReadyQueuesL1Bitmap := ksReadyQueuesL1Bitmap s',
      ksReadyQueuesL2Bitmap := ksReadyQueuesL2Bitmap s'\<rparr>" using assms unfolding restarts_but_def by blast
  show "eps s' = eps s" "ntfns s' = ntfns s" "ksSchedulerAction s' = ksSchedulerAction s" "ctes s' = ctes s"
    by (subst e, simp)+
qed

lemma restart_one:
  assumes inv: "ready_inv Q s" and t: "tcbs s x = Some t"
  shows "\<exists>s1 s2. setThreadState x ThreadState_Restart s = Some s1 \<and> tcbSchedEnqueue x s1 = Some s2
    \<and> ready_inv (enq (#) x t Q) s2 \<and> restarts {x} s s2"
proof -
  let ?t = "restarted_tcb True t"
  let ?s = "s\<lparr>tcbs := (tcbs s)(x \<mapsto> ?t)\<rparr>"
  have "setThreadState x ThreadState_Restart s = Some ?s"
    using t by (simp add: setThreadState_def tcb_upd_def restarted_tcb_def scheduleTCB_def isRunnable_def)
  moreover have inv1: "ready_inv Q ?s"
    by (rule ready_inv_view [OF inv]) (use t in \<open>auto intro!: same_view_upd simp: sched_view_def restarted_tcb_def\<close>)
  moreover obtain s2 where s2: "tcbSchedEnqueue x ?s = Some s2" "ready_inv (enq (#) x ?t Q) s2" "sched_only ?s s2"
    using tcbSchedEnqueue_refines [OF inv1, of x ?t] by auto
  moreover have "enq (#) x ?t Q = enq (#) x t Q" by (simp add: enq_def restarted_tcb_def)
  moreover have "restarts {x} s s2"
    unfolding restarts_def
  proof
    show "\<forall>y. map_option (\<lambda>t. clear_q (restarted_tcb (y \<in> {x}) t)) (tcbs s y) = map_option clear_q (tcbs s2 y)"
    proof
      fix y
      have "map_option clear_q (tcbs ?s y) = map_option clear_q (tcbs s2 y)"
        using s2(3) by (simp only: sched_only_def eq_but_def)
      then show "map_option (\<lambda>t. clear_q (restarted_tcb (y \<in> {x}) t)) (tcbs s y) = map_option clear_q (tcbs s2 y)"
        using t by (cases "y = x") (simp_all add: restarted_tcb_def)
    qed
    show "s2 = s\<lparr>tcbs := tcbs s2, ksReadyQueues := ksReadyQueues s2, ksReadyQueuesL1Bitmap := ksReadyQueuesL1Bitmap s2,
            ksReadyQueuesL2Bitmap := ksReadyQueuesL2Bitmap s2\<rparr>"
      using s2(3) unfolding sched_only_def by simp
  qed
  ultimately show ?thesis by auto
qed

lemma restarts_tcb:
  assumes "restarts_but c X s s'" "tcbs s x = Some t"
  obtains t' where "tcbs s' x = Some t'" "c (restarted_tcb (x \<in> X) t) = c t'"
  using assms by (cases "tcbs s' x") (auto simp: restarts_but_def dest: spec [of _ x])

lemma clear_q_ep_view: "clear_q (restarted_tcb r t) = clear_q t' \<Longrightarrow> ep_view t = ep_view t'"
  using clear_q_fields(5,6) [of "restarted_tcb r t" t'] by (simp add: ep_view_def restarted_tcb_def split: if_splits)

lemma restarts_ep_view:
  assumes "restarts X s s'"
  shows "same_view ep_view (tcbs s) (tcbs s')"
  unfolding same_view_def
proof
  fix x
  have "map_option (\<lambda>t. clear_q (restarted_tcb (x \<in> X) t)) (tcbs s x) = map_option clear_q (tcbs s' x)"
    using assms by (simp add: restarts_def)
  then show "map_option ep_view (tcbs s x) = map_option ep_view (tcbs s' x)"
    by (cases "tcbs s x"; cases "tcbs s' x") (auto intro: clear_q_ep_view)
qed


section \<open>The loops\<close>

definition prio_of :: "kstate \<Rightarrow> ptr \<Rightarrow> nat" where
  "prio_of s x = (case tcbs s x of None \<Rightarrow> 0 | Some t \<Rightarrow> unat (tcbPriority t))"

text \<open>Putting a thread at the head of the list of its priority unless it is there.\<close>

definition enq_ready :: "(ptr \<Rightarrow> nat) \<Rightarrow> ptr \<Rightarrow> (nat \<Rightarrow> ptr list) \<Rightarrow> nat \<Rightarrow> ptr list" where
  "enq_ready pr x Q = (if x \<in> set (Q (pr x)) then Q else Q(pr x := x # Q (pr x)))"

lemma enq_ready_eq:
  assumes "ready_inv Q s" "tcbs s x = Some t"
  shows "enq (#) x t Q = enq_ready (prio_of s) x Q"
  using ready_start(6) [OF assms] assms(2) by (simp add: enq_def enq_ready_def prio_of_def)

lemma clear_q_prio: "clear_q (restarted_tcb r t) = clear_q t' \<Longrightarrow> tcbPriority t' = tcbPriority t"
  using clear_q_fields(2) [of "restarted_tcb r t" t'] by (simp add: restarted_tcb_def split: if_splits)

lemma restarts_prio: "restarts X s s' \<Longrightarrow> prio_of s' = prio_of s"
proof
  fix x assume "restarts X s s'"
  then have "map_option (\<lambda>t. clear_q (restarted_tcb (x \<in> X) t)) (tcbs s x) = map_option clear_q (tcbs s' x)"
    by (simp add: restarts_def)
  then show "prio_of s' x = prio_of s x"
    by (cases "tcbs s x"; cases "tcbs s' x") (auto simp: prio_of_def dest: clear_q_prio)
qed

lemma restart_step:
  assumes inv: "ready_inv Q s" and t: "tcbs s x = Some t"
  shows "\<exists>s1 s2 t2. setThreadState x ThreadState_Restart s = Some s1 \<and> tcbSchedEnqueue x s1 = Some s2
    \<and> ready_inv (enq_ready (prio_of s) x Q) s2 \<and> restarts {x} s s2 \<and> tcbs s2 x = Some t2 \<and> ep_view t2 = ep_view t"
proof -
  obtain s1 s2 where s2: "setThreadState x ThreadState_Restart s = Some s1" "tcbSchedEnqueue x s1 = Some s2"
    "ready_inv (enq (#) x t Q) s2" "restarts {x} s s2" using restart_one [OF assms] by blast
  obtain t2 where "tcbs s2 x = Some t2" "clear_q (restarted_tcb (x \<in> {x}) t) = clear_q t2"
    by (rule restarts_tcb [OF s2(4) t])
  with s2 show ?thesis using clear_q_ep_view [of True t t2] enq_ready_eq [OF assms] by auto
qed

lemma dseg_view:
  "same_view ep_view h h' \<Longrightarrow> dseg tcbEPNext tcbEPPrev h p xs q \<longleftrightarrow> dseg tcbEPNext tcbEPPrev h' p xs q"
  by (rule dseg_cong) (simp add: same_view_def ep_view_def [abs_def])

lemma restart_queue_list:
  assumes "ready_inv Q s" "dseg tcbEPNext tcbEPPrev (tcbs s) p xs 0" "0 \<notin> set xs"
  shows "\<exists>s'. restart_queue (hd0 xs) s = Some s' \<and> ready_inv (fold (enq_ready (prio_of s)) xs Q) s' \<and> restarts (set xs) s s'"
  using assms
proof (induction xs arbitrary: p s Q)
  case Nil
  then show ?case by (subst restart_queue.simps) simp
next
  case (Cons x xs)
  from Cons.prems(2) obtain t where t: "tcbs s x = Some t" "tcbEPNext t = hd0 xs"
    and seg: "dseg tcbEPNext tcbEPPrev (tcbs s) x xs 0"
    by (auto simp: hd0_def split: option.splits)
  obtain s1 s2 t2 where s2: "setThreadState x ThreadState_Restart s = Some s1" "tcbSchedEnqueue x s1 = Some s2"
    "ready_inv (enq_ready (prio_of s) x Q) s2" "restarts {x} s s2" "tcbs s2 x = Some t2" "ep_view t2 = ep_view t"
    using restart_step [OF Cons.prems(1) t(1)] by blast
  have "dseg tcbEPNext tcbEPPrev (tcbs s2) x xs 0" using seg dseg_view [OF restarts_ep_view [OF s2(4)]] by simp
  from Cons.IH [OF s2(3) this] Cons.prems(3) obtain s' where s': "restart_queue (hd0 xs) s2 = Some s'"
    "ready_inv (fold (enq_ready (prio_of s)) xs (enq_ready (prio_of s) x Q)) s'" "restarts (set xs) s2 s'"
    by (auto simp: restarts_prio [OF s2(4)])
  have "restart_queue (hd0 (x # xs)) s = Some s'"
    using Cons.prems(3) s2 s'(1) t(2) by (subst restart_queue.simps) (simp add: ep_view_def)
  then show ?case using s'(2) restarts_trans [OF s2(4) s'(3)] by auto
qed

text \<open>The request to reschedule keeps the invariant.\<close>

definition action_ok :: "kstate \<Rightarrow> bool" where
  "action_ok s \<longleftrightarrow> (\<forall>t. ksSchedulerAction s = SwitchToThread t \<longrightarrow> tcbs s t \<noteq> None)"

lemma rescheduleRequired_inv:
  assumes inv: "ready_inv Q s" and "action_ok s"
  shows "\<exists>s' Q'. rescheduleRequired s = Some s' \<and> ready_inv Q' s' \<and> (\<forall>p. set (Q p) \<subseteq> set (Q' p))
    \<and> (\<exists>s1. sched_only s s1 \<and> s' = s1\<lparr>ksSchedulerAction := ChooseNewThread\<rparr>)"
proof -
  have act: "ready_inv Q' (s1\<lparr>ksSchedulerAction := ChooseNewThread\<rparr>)" if "ready_inv Q' s1" for Q' s1
    using that by (rule ready_inv_view) simp_all
  obtain s1 Q' where s1: "(case ksSchedulerAction s of SwitchToThread t \<Rightarrow> tcbSchedEnqueue t s | _ \<Rightarrow> Some s) = Some s1"
    "ready_inv Q' s1" "sched_only s s1" "\<forall>p. set (Q p) \<subseteq> set (Q' p)"
  proof (cases "ksSchedulerAction s")
    case (SwitchToThread t)
    with assms(2) obtain tt where tt: "tcbs s t = Some tt" by (auto simp: action_ok_def)
    obtain s1 where "tcbSchedEnqueue t s = Some s1" "ready_inv (enq (#) t tt Q) s1" "sched_only s s1"
      using tcbSchedEnqueue_refines [OF inv tt] by blast
    then show ?thesis using SwitchToThread by (intro that [of s1 "enq (#) t tt Q"]) (auto simp: enq_def)
  qed (use inv that [of s Q] in auto)
  then show ?thesis using act [OF s1(2)] by (auto simp: rescheduleRequired_def)
qed


definition badge_of :: "kstate \<Rightarrow> ptr \<Rightarrow> u64" where
  "badge_of s x = (case tcbs s x of None \<Rightarrow> 0 | Some t \<Rightarrow> blockingIPCBadge (tcbState t))"

lemma restarts_cancels:
  assumes "restarts X s s'"
  shows "cancels X s s'"
proof -
  have "map_option clear_ep (map_option (\<lambda>t. clear_q (restarted_tcb (x \<in> X) t)) (tcbs s x))
      = map_option clear_ep (map_option clear_q (tcbs s' x))" for x
    using assms by (simp add: restarts_def)
  then have "map_option (\<lambda>t. clear_links (restarted_tcb (x \<in> X) t)) (tcbs s x) = map_option clear_links (tcbs s' x)" for x
    unfolding clear_links_def [abs_def] by (simp add: option.map_comp comp_def)
  with assms show ?thesis by (simp only: restarts_but_def simp_thms)
qed

lemma clear_ep_links_eq: "clear_ep t = clear_ep t' \<Longrightarrow> clear_links t = clear_links t'"
  by (cases t; cases t') (simp add: clear_links_def clear_ep_def clear_q_def clear_sched_def)

lemma clear_ep_sched_view: "clear_ep t = clear_ep t' \<Longrightarrow> sched_view t = sched_view t'"
  by (cases t; cases t') (simp add: sched_view_def clear_ep_def)

lemma clear_ep_cancels:
  assumes "eq_but clear_ep (tcbs s) h"
  shows "cancels {} s (s\<lparr>tcbs := h\<rparr>)"
proof -
  have "same_view clear_links (tcbs s) h"
    by (rule same_view_weaken [of clear_ep]) (use assms in \<open>simp add: eq_but_same_view\<close>, erule clear_ep_links_eq)
  then show ?thesis by (simp add: restarts_but_def restarted_tcb_def same_view_def)
qed

lemma clear_ep_ready:
  assumes "ready_inv Q s" "eq_but clear_ep (tcbs s) h"
  shows "ready_inv Q (s\<lparr>tcbs := h\<rparr>)"
proof (rule ready_inv_view [OF assms(1)])
  have "same_view sched_view (tcbs s) h"
    by (rule same_view_weaken [of clear_ep]) (use assms(2) in \<open>simp add: eq_but_same_view\<close>, erule clear_ep_sched_view)
  then show "same_view sched_view (tcbs s) (tcbs (s\<lparr>tcbs := h\<rparr>))" by simp
qed simp_all

lemma clear_links_fields:
  assumes "clear_links (restarted_tcb r t) = clear_links t'"
  shows "tcbPriority t' = tcbPriority t" "blockingIPCBadge (tcbState t') = blockingIPCBadge (tcbState t)"
    "tsType (tcbState t') = (if r then ThreadState_Restart else tsType (tcbState t))"
    "tcbContext t' = tcbContext t" "blockingObject (tcbState t') = blockingObject (tcbState t)"
  using assms by (cases t; cases t'; cases "tcbState t"; cases "tcbState t'";
    simp add: clear_links_def clear_ep_def clear_q_def clear_sched_def restarted_tcb_def split: if_splits)+

lemma cancels_fields:
  assumes "cancels X s s'"
  shows "prio_of s' = prio_of s" "badge_of s' = badge_of s"
proof -
  have "prio_of s' x = prio_of s x \<and> badge_of s' x = badge_of s x" for x
  proof -
    have "map_option (\<lambda>t. clear_links (restarted_tcb (x \<in> X) t)) (tcbs s x) = map_option clear_links (tcbs s' x)"
      using assms by (simp add: restarts_but_def)
    then show ?thesis
      by (cases "tcbs s x"; cases "tcbs s' x") (auto simp: prio_of_def badge_of_def dest: clear_links_fields)
  qed
  then show "prio_of s' = prio_of s" "badge_of s' = badge_of s" by auto
qed

lemma cancel_badged_list:
  assumes "ready_inv Q s" "ep_queue (tcbs s) q (us @ vs)"
  shows "\<exists>q' s'. cancel_badged_loop badge (hd0 vs) q s = Some (q', s')
    \<and> ready_inv (fold (enq_ready (prio_of s)) (filter (\<lambda>x. badge_of s x = badge) vs) Q) s'
    \<and> cancels (set (filter (\<lambda>x. badge_of s x = badge) vs)) s s'
    \<and> ep_queue (tcbs s') q' (us @ filter (\<lambda>x. badge_of s x \<noteq> badge) vs)"
  using assms
proof (induction vs arbitrary: us q s Q)
  case Nil
  then show ?case by (subst cancel_badged_loop.simps) simp
next
  case (Cons x vs)
  from Cons.prems(2) have dl: "dll tcbEPNext tcbEPPrev (tcbs s) (us @ x # vs)" by (simp add: ep_queue_def)
  then obtain t where t: "tcbs s x = Some t" "tcbEPNext t = hd0 vs" "x \<noteq> 0" by (auto simp: dll_split)
  show ?case
  proof (cases "badge_of s x = badge")
    case False
    have "ep_queue (tcbs s) q ((us @ [x]) @ vs)" using Cons.prems(2) by simp
    from Cons.IH [OF Cons.prems(1) this] False t show ?thesis
      by (subst cancel_badged_loop.simps) (simp add: badge_of_def)
  next
    case True
    obtain s1 s2 t2 where s2: "setThreadState x ThreadState_Restart s = Some s1" "tcbSchedEnqueue x s1 = Some s2"
      "ready_inv (enq_ready (prio_of s) x Q) s2" "restarts {x} s s2" "tcbs s2 x = Some t2" "ep_view t2 = ep_view t"
      using restart_step [OF Cons.prems(1) t(1)] by blast
    have "ep_queue (tcbs s2) q (us @ x # vs)" using Cons.prems(2) ep_queue_view [OF restarts_ep_view [OF s2(4)]] by simp
    then obtain q3 h3 where q3: "tcbEPDequeue x q (tcbs s2) = Some (q3, h3)" "ep_queue h3 q3 (us @ vs)"
      "eq_but clear_ep (tcbs s2) h3" using ep_dequeue_refines by blast
    let ?s3 = "s2\<lparr>tcbs := h3\<rparr>"
    have c3: "cancels {x} s ?s3"
      using cancels_trans [OF restarts_cancels [OF s2(4)] clear_ep_cancels [OF q3(3)]] by simp
    from Cons.IH [OF clear_ep_ready [OF s2(3) q3(3)], of q3 us] q3(2)
    obtain q' s' where s': "cancel_badged_loop badge (hd0 vs) q3 ?s3 = Some (q', s')"
      "ready_inv (fold (enq_ready (prio_of s)) (filter (\<lambda>x. badge_of s x = badge) vs) (enq_ready (prio_of s) x Q)) s'"
      "cancels (set (filter (\<lambda>x. badge_of s x = badge) vs)) ?s3 s'"
      "ep_queue (tcbs s') q' (us @ filter (\<lambda>x. badge_of s x \<noteq> badge) vs)"
      by (auto simp: cancels_fields [OF c3])
    have "cancel_badged_loop badge (hd0 (x # vs)) q s = Some (q', s')"
      using t s2(1,2) q3(1) s'(1) True by (subst cancel_badged_loop.simps) (simp add: ep_dequeue_def badge_of_def)
    then show ?thesis using s' True cancels_trans [OF c3 s'(3)] by auto
  qed
qed


lemma enq_ready_mono: "set (Q p) \<subseteq> set (enq_ready pr x Q p)"
  by (auto simp: enq_ready_def)

lemma fold_enq_mono: "set (Q p) \<subseteq> set (fold (enq_ready pr) xs Q p)"
proof (induction xs arbitrary: Q)
  case (Cons x xs)
  show ?case using enq_ready_mono [of Q p pr x] Cons.IH [of "enq_ready pr x Q"] by auto
qed simp

lemma fold_enq_in: "x \<in> set xs \<Longrightarrow> x \<in> set (fold (enq_ready pr) xs Q (pr x))"
proof (induction xs arbitrary: Q)
  case (Cons y xs)
  show ?case
  proof (cases "x = y")
    case True
    have "x \<in> set (enq_ready pr x Q (pr x))" by (simp add: enq_ready_def)
    then show ?thesis using fold_enq_mono [of "enq_ready pr x Q" "pr x" pr xs] True by auto
  qed (use Cons in auto)
qed simp

text \<open>What is observed of the threads after a cancellation: those of \<open>X\<close> are in state Restart and in
  the ready queue, the state of every other thread is what it was.\<close>

definition woken :: "ptr set \<Rightarrow> kstate \<Rightarrow> kstate \<Rightarrow> bool" where
  "woken X s s' \<longleftrightarrow> (\<forall>x t. tcbs s x = Some t \<longrightarrow> (\<exists>t'. tcbs s' x = Some t'
     \<and> tsType (tcbState t') = (if x \<in> X then ThreadState_Restart else tsType (tcbState t))
     \<and> tcbContext t' = tcbContext t \<and> (x \<in> X \<longrightarrow> tcbQueued (tcbState t'))))"

lemma cancels_rescheduled:
  assumes c: "cancels X s s1" and inv: "ready_inv Q1 s1" and X: "\<forall>x \<in> X. x \<in> set (Q1 (prio_of s x))"
    and act: "action_ok s"
  shows "\<exists>s' Q'. rescheduleRequired (s1\<lparr>eps := E, ntfns := N\<rparr>) = Some s' \<and> ready_inv Q' s' \<and> eps s' = E \<and> ntfns s' = N
    \<and> same_view ep_view (tcbs s1) (tcbs s') \<and> ksSchedulerAction s' = ChooseNewThread \<and> woken X s s'"
proof -
  let ?s2 = "s1\<lparr>eps := E, ntfns := N\<rparr>"
  have dom1: "tcbs s x = None \<longleftrightarrow> tcbs s1 x = None" for x
    using c by (metis restarts_but_def map_option_is_None)
  have sa: "ksSchedulerAction s1 = ksSchedulerAction s" using c by (rule restarts_frame)
  have "ready_inv Q1 ?s2" using inv by (rule ready_inv_view) simp_all
  moreover have "action_ok ?s2" using act sa dom1 by (simp add: action_ok_def)
  ultimately obtain s' Q' s3 where s': "rescheduleRequired ?s2 = Some s'" "ready_inv Q' s'"
    "\<forall>p. set (Q1 p) \<subseteq> set (Q' p)" "sched_only ?s2 s3" "s' = s3\<lparr>ksSchedulerAction := ChooseNewThread\<rparr>"
    using rescheduleRequired_inv by blast
  have q: "same_view clear_q (tcbs s1) (tcbs s')" using s'(4,5) by (simp add: sched_only_def eq_but_same_view)
  have ev: "same_view ep_view (tcbs s1) (tcbs s')"
    using q by (rule same_view_weaken) (metis clear_q_ep_view restarted_tcb_def)
  have "woken X s s'"
    unfolding woken_def
  proof (intro allI impI)
    fix x t assume t: "tcbs s x = Some t"
    obtain t1 where t1: "tcbs s1 x = Some t1" "clear_links (restarted_tcb (x \<in> X) t) = clear_links t1"
      by (rule restarts_tcb [OF c t])
    obtain t' where t': "tcbs s' x = Some t'" "clear_q t1 = clear_q t'"
      using same_viewD [OF same_view_sym [OF q] t1(1)] by auto
    have "prio_of s x = unat (tcbPriority t')"
      using clear_links_fields(1) [OF t1(2)] clear_q_fields(2) [OF t'(2)] t by (simp add: prio_of_def)
    moreover have "x \<in> X \<Longrightarrow> x \<in> set (Q' (prio_of s x))" using X s'(3) by blast
    ultimately have "x \<in> X \<Longrightarrow> tcbQueued (tcbState t')" using ready_start(6) [OF s'(2) t'(1)] by simp
    then show "\<exists>t'. tcbs s' x = Some t' \<and> tsType (tcbState t') = (if x \<in> X then ThreadState_Restart else tsType (tcbState t))
        \<and> tcbContext t' = tcbContext t \<and> (x \<in> X \<longrightarrow> tcbQueued (tcbState t'))"
      using t'(1) clear_links_fields(3,4) [OF t1(2)] clear_q_fields(3,4) [OF t'(2)] by simp
  qed
  then show ?thesis using s' ev sched_only_fields [OF s'(4)] by auto
qed


section \<open>Cancelling endpoints and notifications\<close>

text \<open>C29. cancelBadgedSends takes exactly the senders with the given badge out of the queue: from a state
  whose ready queues are well formed and whose endpoint is a send endpoint with the queue ts, it
  returns, the endpoint's queue is ts without the threads blocked with that badge and in the same
  order, the endpoint is idle exactly if none is left, the removed threads are in state Restart and
  in their ready queue, every other thread keeps its state, and a new thread is chosen.\<close>

theorem cancelBadgedSends_filters:
  assumes inv: "ready_inv Q s" and act: "action_ok s" and e: "eps s epptr = Some e" "ep_state e = EPState_Send"
    and q: "ep_queue (tcbs s) (ep_ptr_get_queue e) ts"
  shows "\<exists>s' Q' e'. cancelBadgedSends epptr badge s = Some s' \<and> ready_inv Q' s'
    \<and> eps s' = (eps s)(epptr \<mapsto> e') \<and> ntfns s' = ntfns s
    \<and> ep_queue (tcbs s') (ep_ptr_get_queue e') (filter (\<lambda>x. badge_of s x \<noteq> badge) ts)
    \<and> ep_state e' = (if \<forall>x \<in> set ts. badge_of s x = badge then EPState_Idle else EPState_Send)
    \<and> woken {x \<in> set ts. badge_of s x = badge} s s' \<and> ksSchedulerAction s' = ChooseNewThread"
proof -
  let ?e0 = "e\<lparr>ep_state := EPState_Idle, epQueue_head := 0, epQueue_tail := 0\<rparr>"
  let ?s0 = "s\<lparr>eps := (eps s)(epptr \<mapsto> ?e0)\<rparr>"
  have "ready_inv Q ?s0" using inv by (rule ready_inv_view) simp_all
  moreover have "ep_queue (tcbs ?s0) (ep_ptr_get_queue e) ([] @ ts)" using q by simp
  moreover have "prio_of ?s0 = prio_of s" "badge_of ?s0 = badge_of s" by (auto simp: prio_of_def badge_of_def)
  ultimately obtain q' s1 where s1: "cancel_badged_loop badge (hd0 ts) (ep_ptr_get_queue e) ?s0 = Some (q', s1)"
    "ready_inv (fold (enq_ready (prio_of s)) (filter (\<lambda>x. badge_of s x = badge) ts) Q) s1"
    "cancels (set (filter (\<lambda>x. badge_of s x = badge) ts)) ?s0 s1"
    "ep_queue (tcbs s1) q' (filter (\<lambda>x. badge_of s x \<noteq> badge) ts)"
    using cancel_badged_list [of Q ?s0 "ep_ptr_get_queue e" "[]" ts badge] by auto
  let ?live = "filter (\<lambda>x. badge_of s x \<noteq> badge) ts"
  let ?e1 = "?e0\<lparr>epQueue_head := q_head q', epQueue_tail := q_end q'\<rparr>"
  let ?e' = "if q_head q' \<noteq> 0 then ?e1\<lparr>ep_state := EPState_Send\<rparr> else ?e1"
  have fr: "eps s1 = (eps s)(epptr \<mapsto> ?e0)" "ntfns s1 = ntfns s" using restarts_frame [OF s1(3)] by simp_all
  have hd: "q_head (ep_ptr_get_queue e) = hd0 ts" using q by (simp add: ep_queue_def)
  have live: "q_head q' \<noteq> 0 \<longleftrightarrow> \<not> (\<forall>x \<in> set ts. badge_of s x = badge)"
    using s1(4) hd0_eq_0 [of ?live] by (auto simp: ep_queue_def dll_def filter_empty_conv)
  have "\<forall>x \<in> set (filter (\<lambda>x. badge_of s x = badge) ts).
      x \<in> set (fold (enq_ready (prio_of s)) (filter (\<lambda>x. badge_of s x = badge) ts) Q (prio_of s x))"
    using fold_enq_in by blast
  then obtain s' Q' where s': "rescheduleRequired (s1\<lparr>eps := (eps s)(epptr \<mapsto> ?e'), ntfns := ntfns s\<rparr>) = Some s'"
    "ready_inv Q' s'" "eps s' = (eps s)(epptr \<mapsto> ?e')" "ntfns s' = ntfns s" "same_view ep_view (tcbs s1) (tcbs s')"
    "ksSchedulerAction s' = ChooseNewThread" "woken (set (filter (\<lambda>x. badge_of s x = badge) ts)) ?s0 s'"
    using cancels_rescheduled [OF s1(3,2), where E = "(eps s)(epptr \<mapsto> ?e')" and N = "ntfns s"] act
    by (auto simp: action_ok_def prio_of_def)
  have N: "s1\<lparr>eps := E, ntfns := ntfns s\<rparr> = s1\<lparr>eps := E\<rparr>" for E using fr(2) by (cases s1) simp
  have "cancelBadgedSends epptr badge s = Some s'"
    using e s1(1) hd fr s'(1) [unfolded N]
    by (auto simp: cancelBadgedSends_def ep_upd_def ep_ptr_set_queue_def Let_def)
  moreover have "ep_queue (tcbs s') (ep_ptr_get_queue ?e') ?live"
    using s1(4) ep_queue_view [OF s'(5)] by (simp add: ep_queue_def ep_ptr_get_queue_def)
  moreover have "ep_state ?e' = (if \<forall>x \<in> set ts. badge_of s x = badge then EPState_Idle else EPState_Send)"
    using live by simp
  moreover have "woken {x \<in> set ts. badge_of s x = badge} s s'" using s'(7) by (simp add: woken_def)
  ultimately show ?thesis using s'(2,3,4,6) by blast
qed

text \<open>A thread blocked on sending, for the examples.\<close>

definition blocked_sender :: "u64 \<Rightarrow> ptr \<Rightarrow> ptr \<Rightarrow> tcb" where
  "blocked_sender badge nxt prv = tcb0\<lparr>tcbEPNext := nxt, tcbEPPrev := prv,
     tcbState := (tcbState tcb0)\<lparr>tsType := ThreadState_BlockedOnSend, blockingObject := 64, blockingIPCBadge := badge\<rparr>\<rparr>"

text \<open>Three senders are queued at the endpoint, the first and the last with badge 5.\<close>

definition cancel_example :: kstate where
  "cancel_example = ks0\<lparr>tcbs := [1 \<mapsto> blocked_sender 5 2 0, 2 \<mapsto> blocked_sender 7 3 1, 3 \<mapsto> blocked_sender 5 0 2],
     eps := [64 \<mapsto> \<lparr>epQueue_head = 1, epQueue_tail = 3, ep_state = EPState_Send\<rparr>]\<rparr>"

lemma cancel_example_ok:
  "ready_inv (\<lambda>_. []) cancel_example" "action_ok cancel_example"
  "ep_queue (tcbs cancel_example) (ep_ptr_get_queue \<lparr>epQueue_head = 1, epQueue_tail = 3, ep_state = EPState_Send\<rparr>) [1, 2, 3]"
proof -
  let ?h = "[1 \<mapsto> blocked_sender 5 2 0, 2 \<mapsto> blocked_sender 7 3 1, 3 \<mapsto> blocked_sender 5 0 2]"
  have "ready_inv (\<lambda>_. []) (ks0\<lparr>tcbs := ?h\<rparr>)"
    by (rule ready_inv_empty [where h = ?h and c = 0 and i = 0 and a = ResumeCurrentThread])
       (auto simp: ks0_def tcb0_def blocked_sender_def split: if_splits)
  then show "ready_inv (\<lambda>_. []) cancel_example" by (rule ready_inv_view) (simp_all add: cancel_example_def)
  show "action_ok cancel_example" by (simp add: action_ok_def cancel_example_def ks0_def)
  show "ep_queue (tcbs cancel_example) (ep_ptr_get_queue \<lparr>epQueue_head = 1, epQueue_tail = 3, ep_state = EPState_Send\<rparr>) [1, 2, 3]"
    by (simp add: ep_queue_def ep_ptr_get_queue_def dll_def cancel_example_def blocked_sender_def last0_def)
qed

theorem cancelBadgedSends_filters_witness:
  "ready_inv (\<lambda>_. []) cancel_example \<and> (\<exists>s' e'. cancelBadgedSends 64 5 cancel_example = Some s'
     \<and> eps s' 64 = Some e' \<and> ep_queue (tcbs s') (ep_ptr_get_queue e') [2] \<and> woken {1, 3} cancel_example s')"
proof -
  have b: "badge_of cancel_example 1 = 5" "badge_of cancel_example 2 = 7" "badge_of cancel_example 3 = 5"
    by (simp_all add: badge_of_def cancel_example_def blocked_sender_def)
  have X: "{x \<in> set [1, 2, 3]. badge_of cancel_example x = 5} = {1, 3}" using b by auto
  have "eps cancel_example 64 = Some \<lparr>epQueue_head = 1, epQueue_tail = 3, ep_state = EPState_Send\<rparr>"
    by (simp add: cancel_example_def)
  from cancelBadgedSends_filters [OF cancel_example_ok(1,2) this _ cancel_example_ok(3), of 5] X b cancel_example_ok(1)
  show ?thesis by auto
qed

lemma restart_queue_rescheduled:
  assumes inv: "ready_inv Q s" and act: "action_ok s" and q: "ep_queue (tcbs s) q ts"
    and s0: "s0 = s\<lparr>eps := E, ntfns := N\<rparr>"
  shows "\<exists>s1 s' Q'. restart_queue (q_head q) s0 = Some s1 \<and> rescheduleRequired s1 = Some s'
    \<and> ready_inv Q' s' \<and> eps s' = E \<and> ntfns s' = N \<and> woken (set ts) s s' \<and> ksSchedulerAction s' = ChooseNewThread"
proof -
  have "ready_inv Q s0" using inv by (rule ready_inv_view) (simp_all add: s0)
  moreover have "dseg tcbEPNext tcbEPPrev (tcbs s0) 0 ts 0" "0 \<notin> set ts" "q_head q = hd0 ts"
    using q by (simp_all add: ep_queue_def dll_def s0)
  ultimately obtain s1 where s1: "restart_queue (q_head q) s0 = Some s1"
    "ready_inv (fold (enq_ready (prio_of s0)) ts Q) s1" "restarts (set ts) s0 s1"
    using restart_queue_list by metis
  have fr: "eps s1 = E" "ntfns s1 = N" using restarts_frame [OF s1(3)] by (simp_all add: s0)
  have "\<forall>x \<in> set ts. x \<in> set (fold (enq_ready (prio_of s0)) ts Q (prio_of s0 x))" using fold_enq_in by blast
  moreover have "action_ok s0" using act by (simp add: action_ok_def s0)
  ultimately obtain s' Q' where s': "rescheduleRequired (s1\<lparr>eps := E, ntfns := N\<rparr>) = Some s'"
    "ready_inv Q' s'" "eps s' = E" "ntfns s' = N" "ksSchedulerAction s' = ChooseNewThread" "woken (set ts) s0 s'"
    using cancels_rescheduled [OF restarts_cancels [OF s1(3)] s1(2), where E = E and N = N] by blast
  moreover have "s1\<lparr>eps := E, ntfns := N\<rparr> = s1" using fr by (cases s1) simp
  moreover have "woken (set ts) s s'" using s'(6) by (simp add: woken_def s0)
  ultimately show ?thesis using s1(1) by auto
qed

text \<open>C30. cancelAllIPC and cancelAllSignals wake every waiting thread: from a state with well-formed ready
  queues, an endpoint that is not idle (a notification that is waiting) with the queue ts, they
  return, leave the object idle with an empty queue and every thread of ts in state Restart and in
  its ready queue, keep the state of every other thread and of every other object, and have a new
  thread chosen.\<close>

theorem cancelAll_restarts_all:
  assumes inv: "ready_inv Q s" and act: "action_ok s"
  shows "(\<forall>e ts. eps s p = Some e \<and> ep_state e \<noteq> EPState_Idle \<and> ep_queue (tcbs s) (ep_ptr_get_queue e) ts \<longrightarrow>
      (\<exists>s' Q'. cancelAllIPC p s = Some s' \<and> ready_inv Q' s' \<and> ntfns s' = ntfns s
        \<and> eps s' = (eps s)(p \<mapsto> \<lparr>epQueue_head = 0, epQueue_tail = 0, ep_state = EPState_Idle\<rparr>)
        \<and> woken (set ts) s s' \<and> ksSchedulerAction s' = ChooseNewThread))
   \<and> (\<forall>n ts. ntfns s p = Some n \<and> ntfn_state n = NtfnState_Waiting \<and> ep_queue (tcbs s) (ntfn_ptr_get_queue n) ts \<longrightarrow>
      (\<exists>s' Q'. cancelAllSignals p s = Some s' \<and> ready_inv Q' s' \<and> eps s' = eps s
        \<and> ntfns s' = (ntfns s)(p \<mapsto> n\<lparr>ntfn_state := NtfnState_Idle, ntfnQueue_head := 0, ntfnQueue_tail := 0\<rparr>)
        \<and> woken (set ts) s s' \<and> ksSchedulerAction s' = ChooseNewThread))"
proof (intro conjI allI impI; elim conjE)
  fix e ts assume e: "eps s p = Some e" "ep_state e \<noteq> EPState_Idle" and q: "ep_queue (tcbs s) (ep_ptr_get_queue e) ts"
  let ?E = "(eps s)(p \<mapsto> \<lparr>epQueue_head = 0, epQueue_tail = 0, ep_state = EPState_Idle\<rparr>)"
  have s0: "s\<lparr>eps := ?E\<rparr> = s\<lparr>eps := ?E, ntfns := ntfns s\<rparr>" by simp
  from restart_queue_rescheduled [OF inv act q s0] e
  show "\<exists>s' Q'. cancelAllIPC p s = Some s' \<and> ready_inv Q' s' \<and> ntfns s' = ntfns s
        \<and> eps s' = (eps s)(p \<mapsto> \<lparr>epQueue_head = 0, epQueue_tail = 0, ep_state = EPState_Idle\<rparr>)
        \<and> woken (set ts) s s' \<and> ksSchedulerAction s' = ChooseNewThread"
    by (cases e) (auto simp: cancelAllIPC_def ep_upd_def ep_ptr_get_queue_def)
next
  fix n ts assume n: "ntfns s p = Some n" "ntfn_state n = NtfnState_Waiting" and q: "ep_queue (tcbs s) (ntfn_ptr_get_queue n) ts"
  let ?N = "(ntfns s)(p \<mapsto> n\<lparr>ntfn_state := NtfnState_Idle, ntfnQueue_head := 0, ntfnQueue_tail := 0\<rparr>)"
  have s0: "s\<lparr>ntfns := ?N\<rparr> = s\<lparr>eps := eps s, ntfns := ?N\<rparr>" by simp
  from restart_queue_rescheduled [OF inv act q s0] n
  show "\<exists>s' Q'. cancelAllSignals p s = Some s' \<and> ready_inv Q' s' \<and> eps s' = eps s
        \<and> ntfns s' = (ntfns s)(p \<mapsto> n\<lparr>ntfn_state := NtfnState_Idle, ntfnQueue_head := 0, ntfnQueue_tail := 0\<rparr>)
        \<and> woken (set ts) s s' \<and> ksSchedulerAction s' = ChooseNewThread"
    by (auto simp: cancelAllSignals_def ntfn_upd_def ntfn_ptr_get_queue_def)
qed

theorem cancelAll_restarts_all_witness:
  "ready_inv (\<lambda>_. []) cancel_example \<and> (\<exists>s'. cancelAllIPC 64 cancel_example = Some s'
     \<and> eps s' 64 = Some \<lparr>epQueue_head = 0, epQueue_tail = 0, ep_state = EPState_Idle\<rparr> \<and> woken {1, 2, 3} cancel_example s')"
proof -
  have "eps cancel_example 64 = Some \<lparr>epQueue_head = 1, epQueue_tail = 3, ep_state = EPState_Send\<rparr>"
    by (simp add: cancel_example_def)
  with cancelAll_restarts_all [OF cancel_example_ok(1,2), of 64] cancel_example_ok(1,3) show ?thesis by fastforce
qed

end
