(* ===== verification/K_Signal.thy ===== *)
theory K_Signal
  imports K_Cancel
begin

text \<open>
  Signals: badges accumulate in a notification nobody waits for and are delivered together, and
  waiting threads are woken in the order they started to wait.
\<close>

section \<open>Accumulation\<close>

fun sendSignals :: "ptr \<Rightarrow> u64 list \<Rightarrow> kstate \<Rightarrow> kstate option" where
  "sendSignals ntfnPtr [] s = Some s"
| "sendSignals ntfnPtr (b # bs) s = do { s \<leftarrow> sendSignal ntfnPtr b s; sendSignals ntfnPtr bs s }"

definition all_badges :: "u64 list \<Rightarrow> u64" where
  "all_badges bs = foldr (OR) bs 0"

lemma all_badges_simps [simp]: "all_badges [] = 0" "all_badges (b # bs) = b OR all_badges bs"
  by (simp_all add: all_badges_def)

lemma sendSignals_active:
  assumes "ntfns s p = Some n" "ntfn_state n = NtfnState_Active"
  shows "sendSignals p bs s = Some (s\<lparr>ntfns := (ntfns s)(p \<mapsto> n\<lparr>ntfnMsgIdentifier := ntfnMsgIdentifier n OR all_badges bs\<rparr>)\<rparr>)"
  using assms
proof (induction bs arbitrary: s n)
  case Nil
  then show ?case by (cases s; cases n) (simp add: map_upd_triv)
next
  case (Cons b bs)
  let ?n = "n\<lparr>ntfnMsgIdentifier := ntfnMsgIdentifier n OR b\<rparr>"
  define s1 where "s1 = s\<lparr>ntfns := (ntfns s)(p \<mapsto> ?n)\<rparr>"
  have "sendSignal p b s = Some s1"
    using Cons.prems by (cases n) (simp add: sendSignal_def ntfn_upd_def s1_def)
  moreover have "sendSignals p bs s1 =
      Some (s1\<lparr>ntfns := (ntfns s1)(p \<mapsto> ?n\<lparr>ntfnMsgIdentifier := ntfnMsgIdentifier ?n OR all_badges bs\<rparr>)\<rparr>)"
    using Cons.prems by (intro Cons.IH) (simp_all add: s1_def)
  moreover have "ntfnMsgIdentifier ?n OR all_badges bs = ntfnMsgIdentifier n OR all_badges (b # bs)" by (simp add: or.assoc)
  moreover have "s1\<lparr>ntfns := (ntfns s1)(p \<mapsto> x)\<rparr> = s\<lparr>ntfns := (ntfns s)(p \<mapsto> x)\<rparr>" for x by (simp add: s1_def)
  moreover have "?n\<lparr>ntfnMsgIdentifier := x\<rparr> = n\<lparr>ntfnMsgIdentifier := x\<rparr>" for x by simp
  ultimately show ?case by (simp only: sendSignals.simps Option.bind.bind_lunit)
qed

text \<open>C32. Signals to a notification that nobody waits for are not lost: sending a non-empty sequence of
  badges to an idle notification that no thread is bound to, or whose bound thread is not blocked
  on receiving, makes it active with the bitwise or of all badges; the next wait returns at once
  with this value in the badge register and the notification idle, whether it is blocking or not,
  and nothing else changes.\<close>

theorem signals_accumulate:
  assumes n: "ntfns s p = Some n" "ntfn_state n = NtfnState_Idle"
    and bound: "ntfnBoundTCB n = 0 \<or> (\<exists>tb. tcbs s (ntfnBoundTCB n) = Some tb \<and> tsType (tcbState tb) \<noteq> ThreadState_BlockedOnReceive)"
    and bs: "bs \<noteq> []" and t: "tcbs s thread = Some t"
  shows "\<exists>s1. sendSignals p bs s = Some s1
    \<and> s1 = s\<lparr>ntfns := (ntfns s)(p \<mapsto> n\<lparr>ntfn_state := NtfnState_Active, ntfnMsgIdentifier := all_badges bs\<rparr>)\<rparr>
    \<and> receiveSignal thread (NotificationCap b r w p) blocking s1 = Some (s\<lparr>
        tcbs := (tcbs s)(thread \<mapsto> t\<lparr>tcbContext := (tcbContext t)(badgeRegister := all_badges bs)\<rparr>),
        ntfns := (ntfns s)(p \<mapsto> n\<lparr>ntfnMsgIdentifier := all_badges bs\<rparr>)\<rparr>)"
proof -
  obtain b0 bs' where bs': "bs = b0 # bs'" using bs by (cases bs) auto
  let ?n = "n\<lparr>ntfn_state := NtfnState_Active, ntfnMsgIdentifier := b0\<rparr>"
  define s0 where "s0 = s\<lparr>ntfns := (ntfns s)(p \<mapsto> ?n)\<rparr>"
  have "sendSignal p b0 s = Some s0"
    using n bound by (cases n) (auto simp: sendSignal_def ntfn_set_active_def ntfn_upd_def Let_def s0_def)
  moreover have "sendSignals p bs' s0 =
      Some (s0\<lparr>ntfns := (ntfns s0)(p \<mapsto> ?n\<lparr>ntfnMsgIdentifier := ntfnMsgIdentifier ?n OR all_badges bs'\<rparr>)\<rparr>)"
    by (rule sendSignals_active) (simp_all add: s0_def)
  ultimately have "sendSignals p bs s = Some (s\<lparr>ntfns := (ntfns s)(p \<mapsto> ?n\<lparr>ntfnMsgIdentifier := all_badges bs\<rparr>)\<rparr>)"
    by (simp add: bs' s0_def)
  then show ?thesis
    using t n(2) by (cases n; cases t) (simp add: receiveSignal_def setRegister_def tcb_upd_def ntfn_upd_def)
qed

definition signal_example :: kstate where
  "signal_example = ks0\<lparr>tcbs := [1 \<mapsto> tcb0],
     ntfns := [32 \<mapsto> \<lparr>ntfnBoundTCB = 0, ntfnMsgIdentifier = 0, ntfnQueue_head = 0, ntfnQueue_tail = 0, ntfn_state = NtfnState_Idle\<rparr>]\<rparr>"

theorem signals_accumulate_witness:
  "\<exists>s1 s2 t. sendSignals 32 [1, 4, 1] signal_example = Some s1
     \<and> receiveSignal 1 (NotificationCap 0 True False 32) True s1 = Some s2 \<and> tcbs s2 1 = Some t \<and> tcbContext t badgeRegister = 5"
  using signals_accumulate [of signal_example 32
    "\<lparr>ntfnBoundTCB = 0, ntfnMsgIdentifier = 0, ntfnQueue_head = 0, ntfnQueue_tail = 0, ntfn_state = NtfnState_Idle\<rparr>"
    "[1, 4, 1]" 1 tcb0 0 True False True]
  by (simp add: signal_example_def)


section \<open>Waking\<close>

text \<open>Offering a runnable thread to the scheduler: it becomes the thread to switch to or is put into
  its ready queue.\<close>

lemma possibleSwitchTo_inv:
  assumes inv: "ready_inv Q s" and act: "action_ok s" and t: "tcbs s x = Some t"
  shows "\<exists>s' Q'. possibleSwitchTo x s = Some s' \<and> ready_inv Q' s' \<and> same_view clear_q (tcbs s) (tcbs s')
    \<and> eps s' = eps s \<and> ntfns s' = ntfns s \<and> ctes s' = ctes s \<and> action_ok s'
    \<and> (ksSchedulerAction s' = SwitchToThread x \<or> (\<exists>t'. tcbs s' x = Some t' \<and> tcbQueued (tcbState t')))"
proof -
  have enq: "\<exists>s' Q'. tcbSchedEnqueue x s1 = Some s' \<and> ready_inv Q' s' \<and> same_view clear_q (tcbs s1) (tcbs s')
      \<and> eps s' = eps s1 \<and> ntfns s' = ntfns s1 \<and> ctes s' = ctes s1
      \<and> ksSchedulerAction s' = ksSchedulerAction s1 \<and> (\<exists>t'. tcbs s' x = Some t' \<and> tcbQueued (tcbState t'))"
    if i1: "ready_inv Q1 s1" "tcbs s1 x = Some t1" for s1 Q1 t1
  proof -
    obtain s' where s': "tcbSchedEnqueue x s1 = Some s'" "ready_inv (enq (#) x t1 Q1) s'" "sched_only s1 s'"
      using tcbSchedEnqueue_refines [OF i1] by blast
    obtain t' where t': "tcbs s' x = Some t'" "clear_q t1 = clear_q t'" by (rule sched_only_tcb [OF s'(3) i1(2)])
    have "x \<in> set (enq (#) x t1 Q1 (unat (tcbPriority t')))"
      using clear_q_fields(2) [OF t'(2)] ready_start(6) [OF i1] by (simp add: enq_def)
    then have "tcbQueued (tcbState t')" using ready_start(6) [OF s'(2) t'(1)] by simp
    then show ?thesis using s' t'(1) sched_only_fields [OF s'(3)] by (auto simp: sched_only_def eq_but_same_view)
  qed
  consider "ksCurDomain s \<noteq> tcbDomain t" | "ksCurDomain s = tcbDomain t" "ksSchedulerAction s = ResumeCurrentThread"
    | "ksCurDomain s = tcbDomain t" "ksSchedulerAction s \<noteq> ResumeCurrentThread" by blast
  then show ?thesis
  proof cases
    case 1
    obtain s' Q' where s': "tcbSchedEnqueue x s = Some s'" "ready_inv Q' s'" "same_view clear_q (tcbs s) (tcbs s')"
      "eps s' = eps s" "ntfns s' = ntfns s" "ctes s' = ctes s" "ksSchedulerAction s' = ksSchedulerAction s"
      "\<exists>t'. tcbs s' x = Some t' \<and> tcbQueued (tcbState t')" using enq [OF inv t] by blast
    have "action_ok s'" using act same_view_None [OF s'(3)] by (simp add: action_ok_def s'(7))
    then show ?thesis using 1 t s' by (auto simp: possibleSwitchTo_def)
  next
    case 2
    have "ready_inv Q (s\<lparr>ksSchedulerAction := SwitchToThread x\<rparr>)" using inv by (rule ready_inv_view) simp_all
    with 2 t show ?thesis by (auto simp: possibleSwitchTo_def action_ok_def)
  next
    case 3
    obtain s1 Q1 s2 where s1: "rescheduleRequired s = Some s1" "ready_inv Q1 s1" "sched_only s s2"
      "s1 = s2\<lparr>ksSchedulerAction := ChooseNewThread\<rparr>" using rescheduleRequired_inv [OF inv act] by blast
    have v: "same_view clear_q (tcbs s) (tcbs s1)" using s1(3,4) by (simp add: sched_only_def eq_but_same_view)
    obtain t1 where t1: "tcbs s1 x = Some t1" using same_viewD [OF same_view_sym [OF v] t] by blast
    obtain s' Q' where s': "tcbSchedEnqueue x s1 = Some s'" "ready_inv Q' s'" "same_view clear_q (tcbs s1) (tcbs s')"
      "eps s' = eps s1" "ntfns s' = ntfns s1" "ctes s' = ctes s1" "ksSchedulerAction s' = ksSchedulerAction s1"
      "\<exists>t'. tcbs s' x = Some t' \<and> tcbQueued (tcbState t')" using enq [OF s1(2) t1] by blast
    have "possibleSwitchTo x s = Some s'" using 3 t s1(1) s'(1) by (simp add: possibleSwitchTo_def)
    moreover have "action_ok s'" using s'(7) s1(4) by (simp add: action_ok_def)
    ultimately show ?thesis using s' same_view_trans [OF v s'(3)] sched_only_fields [OF s1(3)] s1(4) by auto
  qed
qed

text \<open>C31. A signal wakes the thread that has waited longest: if the notification is waiting with the
  queue d # ds, sendSignal returns, removes exactly d from the queue, makes the notification idle
  when d was the last, and d is running with the badge in its badge register and either the
  scheduler's choice to switch to or in its ready queue. No other thread changes its state.\<close>

theorem sendSignal_wakes_first:
  assumes inv: "ready_inv Q s" and act: "action_ok s" and n: "ntfns s p = Some n" "ntfn_state n = NtfnState_Waiting"
    and q: "ep_queue (tcbs s) (ntfn_ptr_get_queue n) (d # ds)"
  shows "\<exists>s' Q' n' t'. sendSignal p badge s = Some s' \<and> ready_inv Q' s' \<and> eps s' = eps s
    \<and> ntfns s' = (ntfns s)(p \<mapsto> n') \<and> ep_queue (tcbs s') (ntfn_ptr_get_queue n') ds
    \<and> ntfn_state n' = (if ds = [] then NtfnState_Idle else NtfnState_Waiting)
    \<and> tcbs s' d = Some t' \<and> tsType (tcbState t') = ThreadState_Running \<and> tcbContext t' badgeRegister = badge
    \<and> (ksSchedulerAction s' = SwitchToThread d \<or> tcbQueued (tcbState t'))
    \<and> (\<forall>x t. x \<noteq> d \<longrightarrow> tcbs s x = Some t \<longrightarrow>
        (\<exists>t'. tcbs s' x = Some t' \<and> tsType (tcbState t') = tsType (tcbState t) \<and> tcbContext t' = tcbContext t))"
proof -
  obtain q1 h1 where q1: "tcbEPDequeue d (ntfn_ptr_get_queue n) (tcbs s) = Some (q1, h1)" "ep_queue h1 q1 ds"
    "eq_but clear_ep (tcbs s) h1" using ep_dequeue_refines [of "tcbs s" "ntfn_ptr_get_queue n" "[]" d ds] q by auto
  have hd: "q_head (ntfn_ptr_get_queue n) = d" "d \<noteq> 0" "q_head q1 = 0 \<longleftrightarrow> ds = []"
    using q q1(2) hd0_eq_0 [of ds] by (auto simp: ep_queue_def dll_def)
  obtain td where td: "tcbs s d = Some td" using q dll_dom [of tcbEPNext tcbEPPrev "tcbs s" "d # ds" d] by (auto simp: ep_queue_def)
  then obtain t1 where t1: "h1 d = Some t1" using same_viewD [of clear_ep h1 "tcbs s"] q1(3) by (auto simp: eq_but_same_view same_view_sym)
  let ?n1 = "n\<lparr>ntfnQueue_head := q_head q1, ntfnQueue_tail := q_end q1\<rparr>"
  let ?n' = "if q_head q1 = 0 then ?n1\<lparr>ntfn_state := NtfnState_Idle\<rparr> else ?n1"
  let ?t1 = "tcbContext_update (\<lambda>c. c(badgeRegister := badge)) (tcbState_update (tsType_update (\<lambda>_. ThreadState_Running)) t1)"
  let ?s1 = "s\<lparr>ntfns := (ntfns s)(p \<mapsto> ?n'), tcbs := h1(d \<mapsto> ?t1)\<rparr>"
  have inv1: "ready_inv Q ?s1"
  proof (rule ready_inv_view [OF clear_ep_ready [OF inv q1(3)]])
    show "same_view sched_view (tcbs (s\<lparr>tcbs := h1\<rparr>)) (tcbs ?s1)"
      using t1 by (auto intro!: same_view_upd simp: sched_view_def)
  qed simp_all
  have dom1: "tcbs s x = None \<longleftrightarrow> h1 x = None" for x
    using same_view_None q1(3) by (simp add: eq_but_same_view)
  have "action_ok ?s1" using act dom1 by (auto simp: action_ok_def)
  from possibleSwitchTo_inv [OF inv1 this, of d ?t1] obtain s' Q' where s': "possibleSwitchTo d ?s1 = Some s'" "ready_inv Q' s'"
    "same_view clear_q (tcbs ?s1) (tcbs s')" "eps s' = eps s" "ntfns s' = (ntfns s)(p \<mapsto> ?n')"
    "ksSchedulerAction s' = SwitchToThread d \<or> (\<exists>t'. tcbs s' d = Some t' \<and> tcbQueued (tcbState t'))" by auto
  have "sendSignal p badge s = Some s'"
    using n q1(1) hd t1 s'(1)
    by (cases "q_head q1 = 0") (simp_all add: sendSignal_def ep_dequeue_def ntfn_ptr_set_queue_def ntfn_upd_def
        setThreadState_def tcb_upd_def scheduleTCB_def isRunnable_def setRegister_def)
  moreover have ev: "same_view ep_view (tcbs ?s1) (tcbs s')"
    using s'(3) by (rule same_view_weaken) (metis clear_q_ep_view restarted_tcb_def)
  have "same_view ep_view h1 (tcbs ?s1)" using t1 by (auto intro!: same_view_upd simp: ep_view_def)
  then have "ep_queue (tcbs s') (ntfn_ptr_get_queue ?n') ds"
    using q1(2) ep_queue_view [OF same_view_trans [OF _ ev]] by (simp add: ntfn_ptr_get_queue_def ep_queue_def)
  moreover obtain t' where t': "tcbs s' d = Some t'" "clear_q t' = clear_q ?t1"
    using same_viewD [OF same_view_sym [OF s'(3)], of d] by auto
  moreover have "\<exists>t'. tcbs s' x = Some t' \<and> tsType (tcbState t') = tsType (tcbState t) \<and> tcbContext t' = tcbContext t"
    if x: "x \<noteq> d" "tcbs s x = Some t" for x t
  proof -
    obtain t2 where t2: "h1 x = Some t2" "clear_ep t2 = clear_ep t"
      using same_viewD [OF same_view_sym [OF q1(3) [unfolded eq_but_same_view]] x(2)] by blast
    then obtain t3 where t3: "tcbs s' x = Some t3" "clear_q t3 = clear_q t2"
      using same_viewD [OF same_view_sym [OF s'(3)], of x] x(1) by auto
    have "tsType (tcbState t2) = tsType (tcbState t) \<and> tcbContext t2 = tcbContext t"
      using t2(2) by (cases t; cases t2) (simp add: clear_ep_def)
    then show ?thesis using t3 clear_q_fields(3,4) [OF t3(2)] by simp
  qed
  moreover have "ntfn_state ?n' = (if ds = [] then NtfnState_Idle else NtfnState_Waiting)" using hd(3) n(2) by simp
  moreover have "tsType (tcbState t') = ThreadState_Running" "tcbContext t' badgeRegister = badge"
    using clear_q_fields(3,4) [OF t'(2)] by simp_all
  ultimately show ?thesis using s'(2,4,5,6) by auto
qed


text \<open>Two threads wait at the notification.\<close>

definition blocked_waiter :: "ptr \<Rightarrow> ptr \<Rightarrow> tcb" where
  "blocked_waiter nxt prv = tcb0\<lparr>tcbEPNext := nxt, tcbEPPrev := prv,
     tcbState := (tcbState tcb0)\<lparr>tsType := ThreadState_BlockedOnNotification, blockingObject := 32\<rparr>\<rparr>"

definition waiting_ntfn :: notification where
  "waiting_ntfn = \<lparr>ntfnBoundTCB = 0, ntfnMsgIdentifier = 0, ntfnQueue_head = 1, ntfnQueue_tail = 2, ntfn_state = NtfnState_Waiting\<rparr>"

definition waiting_example :: kstate where
  "waiting_example = ks0\<lparr>tcbs := [1 \<mapsto> blocked_waiter 2 0, 2 \<mapsto> blocked_waiter 0 1], ntfns := [32 \<mapsto> waiting_ntfn]\<rparr>"

theorem sendSignal_wakes_first_witness:
  "ready_inv (\<lambda>_. []) waiting_example \<and> (\<exists>s' n' t'. sendSignal 32 9 waiting_example = Some s' \<and> ntfns s' 32 = Some n'
     \<and> ep_queue (tcbs s') (ntfn_ptr_get_queue n') [2] \<and> tcbs s' 1 = Some t' \<and> tcbContext t' badgeRegister = 9)"
proof -
  let ?h = "[1 \<mapsto> blocked_waiter 2 0, 2 \<mapsto> blocked_waiter 0 1]"
  have "ready_inv (\<lambda>_. []) (ks0\<lparr>tcbs := ?h\<rparr>)"
    by (rule ready_inv_empty [where h = ?h and c = 0 and i = 0 and a = ResumeCurrentThread])
       (auto simp: ks0_def tcb0_def blocked_waiter_def split: if_splits)
  then have inv: "ready_inv (\<lambda>_. []) waiting_example" by (rule ready_inv_view) (simp_all add: waiting_example_def)
  have act: "action_ok waiting_example" by (simp add: action_ok_def waiting_example_def ks0_def)
  have n: "ntfns waiting_example 32 = Some waiting_ntfn" "ntfn_state waiting_ntfn = NtfnState_Waiting"
    by (simp_all add: waiting_example_def waiting_ntfn_def)
  have "ep_queue (tcbs waiting_example) (ntfn_ptr_get_queue waiting_ntfn) [1, 2]"
    by (simp add: ep_queue_def ntfn_ptr_get_queue_def dll_def waiting_example_def blocked_waiter_def waiting_ntfn_def last0_def)
  from sendSignal_wakes_first [OF inv act n this, of 9] inv show ?thesis by auto
qed

end
