(* ===== verification/K_Endpoint.thy ===== *)
theory K_Endpoint
  imports K_Transfer K_Signal
begin

text \<open>
  Endpoints as a rendezvous in order of arrival.  Threads without IPC buffers send and receive over
  one endpoint; the operations of \<open>endpoint.c\<close> act on the queue of the endpoint, the states and the
  register files of the threads as an abstract specification with two lists does.
\<close>

section \<open>Steps of the scheduler\<close>

definition sched_inv :: "kstate \<Rightarrow> bool" where
  "sched_inv s \<longleftrightarrow> (\<exists>Q. ready_inv Q s) \<and> action_ok s"

definition sched_step :: "kstate \<Rightarrow> kstate \<Rightarrow> bool" where
  "sched_step s s' \<longleftrightarrow> sched_inv s' \<and> same_view clear_q (tcbs s) (tcbs s') \<and> eps s' = eps s \<and> ctes s' = ctes s"

lemma possibleSwitchTo_step:
  assumes "sched_inv s" "tcbs s x = Some t"
  shows "\<exists>s'. possibleSwitchTo x s = Some s' \<and> sched_step s s'"
proof -
  obtain Q where Q: "ready_inv Q s" "action_ok s" using assms(1) by (auto simp: sched_inv_def)
  show ?thesis using possibleSwitchTo_inv [OF Q assms(2)] by (auto simp: sched_step_def sched_inv_def)
qed

lemma scheduleTCB_step:
  assumes "sched_inv s" "tcbs s x = Some t"
  shows "\<exists>s'. scheduleTCB x s = Some s' \<and> sched_step s s'"
proof -
  obtain Q where Q: "ready_inv Q s" "action_ok s" using assms(1) by (auto simp: sched_inv_def)
  obtain s1 Q1 s2 where s1: "rescheduleRequired s = Some s1" "ready_inv Q1 s1" "sched_only s s2"
    "s1 = s2\<lparr>ksSchedulerAction := ChooseNewThread\<rparr>" using rescheduleRequired_inv [OF Q] by blast
  have "action_ok s1" by (simp add: s1(4) action_ok_def)
  moreover have "same_view clear_q (tcbs s) (tcbs s1)" "eps s1 = eps s" "ctes s1 = ctes s"
    using s1(3,4) sched_only_fields [OF s1(3)] by (simp_all add: sched_only_def eq_but_same_view)
  ultimately have "sched_step s s1" using s1(2) by (auto simp: sched_step_def sched_inv_def)
  then show ?thesis using assms s1(1) by (auto simp: scheduleTCB_def sched_step_def)
qed

lemma sched_inv_view:
  assumes "sched_inv s" "same_view sched_view (tcbs s) (tcbs s')" "ksReadyQueues s' = ksReadyQueues s"
    "ksReadyQueuesL1Bitmap s' = ksReadyQueuesL1Bitmap s" "ksReadyQueuesL2Bitmap s' = ksReadyQueuesL2Bitmap s"
    "ksSchedulerAction s' = ksSchedulerAction s"
  shows "sched_inv s'"
proof -
  obtain Q where Q: "ready_inv Q s" "action_ok s" using assms(1) by (auto simp: sched_inv_def)
  have "action_ok s'" using Q(2) assms(6) same_view_None [OF assms(2)] by (simp add: action_ok_def)
  then show ?thesis using ready_inv_view [OF Q(1) assms(2-5)] by (auto simp: sched_inv_def)
qed

lemma sched_inv_null: "sched_inv s \<Longrightarrow> tcbs s 0 = None"
  by (auto simp: sched_inv_def ready_inv_def queues_ok_def)

lemma clear_q_views:
  assumes "clear_q t = clear_q t'"
  shows "clear_links t = clear_links t'" "ep_view t = ep_view t'"
  using assms by (cases t; cases t'; simp add: clear_links_def clear_ep_def clear_q_def clear_sched_def ep_view_def)+

lemma sched_step_views:
  assumes "sched_step s s'"
  shows "same_view clear_links (tcbs s) (tcbs s')" "same_view ep_view (tcbs s) (tcbs s')"
proof -
  have "same_view clear_q (tcbs s) (tcbs s')" using assms by (simp add: sched_step_def)
  then show "same_view clear_links (tcbs s) (tcbs s')" "same_view ep_view (tcbs s) (tcbs s')"
    by (rule same_view_weaken, elim clear_q_views)+
qed

lemma clear_ep_views:
  assumes "eq_but clear_ep h h'"
  shows "same_view clear_links h h'" "same_view sched_view h h'"
proof -
  have "same_view clear_ep h h'" using assms by (simp add: eq_but_same_view)
  then show "same_view clear_links h h'" "same_view sched_view h h'"
    by (rule same_view_weaken, elim clear_ep_links_eq clear_ep_sched_view)+
qed

section \<open>Joining and leaving the queue\<close>

text \<open>The part of \<open>sendIPC\<close> and \<open>receiveIPC\<close> that blocks the calling thread.\<close>

definition ep_block :: "ptr \<Rightarrow> (thread_state \<Rightarrow> thread_state) \<Rightarrow> ptr \<Rightarrow> epstate \<Rightarrow> kstate \<Rightarrow> kstate option" where
  "ep_block x g p st s =
     do { s \<leftarrow> tcb_upd x (tcbState_update g) s;
          s \<leftarrow> scheduleTCB x s;
          e \<leftarrow> eps s p;
          (queue, s) \<leftarrow> ep_append x (ep_ptr_get_queue e) s;
          s \<leftarrow> ep_upd p (ep_state_update (\<lambda>_. st)) s;
          ep_ptr_set_queue p queue s }"

lemma ep_block_result:
  assumes inv: "sched_inv s" and e: "eps s p = Some e" "ep_queue (tcbs s) (ep_ptr_get_queue e) ts"
    and x: "tcbs s x = Some t" "x \<notin> set ts" and g: "\<And>u. tcbQueued (g u) = tcbQueued u"
  shows "\<exists>s' e'. ep_block x g p st s = Some s' \<and> sched_inv s' \<and> ctes s' = ctes s \<and> eps s' p = Some e' \<and> ep_state e' = st
    \<and> ep_queue (tcbs s') (ep_ptr_get_queue e') (ts @ [x])
    \<and> same_view clear_links ((tcbs s)(x \<mapsto> tcbState_update g t)) (tcbs s')"
proof -
  define s1 where "s1 = s\<lparr>tcbs := (tcbs s)(x \<mapsto> tcbState_update g t)\<rparr>"
  have "same_view sched_view (tcbs s) (tcbs s1)" and e1: "same_view ep_view (tcbs s) (tcbs s1)"
    using x(1) g by (auto simp: s1_def sched_view_def ep_view_def intro!: same_view_upd)
  then have "sched_inv s1" using inv by (auto simp: s1_def intro: sched_inv_view)
  moreover have "tcbs s1 x = Some (tcbState_update g t)" by (simp add: s1_def)
  ultimately obtain s2 where s2: "scheduleTCB x s1 = Some s2" "sched_step s1 s2" using scheduleTCB_step by blast
  have eps2: "eps s2 p = Some e" using s2(2) e(1) by (simp add: sched_step_def s1_def)
  obtain t2 where t2: "tcbs s2 x = Some t2"
    using same_viewD [OF same_view_sym [OF sched_step_views(1) [OF s2(2)]], of x] by (auto simp: s1_def)
  have "ep_queue (tcbs s2) (ep_ptr_get_queue e) ts"
    using e(2) ep_queue_view [OF same_view_trans [OF e1 sched_step_views(2) [OF s2(2)]]] by simp
  moreover have "x \<noteq> 0" using x(1) sched_inv_null [OF inv] by auto
  ultimately obtain q h where q: "tcbEPAppend x (ep_ptr_get_queue e) (tcbs s2) = Some (q, h)" "ep_queue h q (ts @ [x])"
    "eq_but clear_ep (tcbs s2) h" using ep_append_refines x(2) t2 by blast
  let ?e = "e\<lparr>ep_state := st, epQueue_head := q_head q, epQueue_tail := q_end q\<rparr>"
  let ?s = "s2\<lparr>tcbs := h, eps := (eps s2)(p \<mapsto> ?e)\<rparr>"
  have "ep_block x g p st s = Some ?s"
    using x(1) s2(1) eps2 q(1) by (simp add: ep_block_def tcb_upd_def s1_def ep_append_def ep_upd_def ep_ptr_set_queue_def)
  moreover have "sched_inv ?s"
    by (rule sched_inv_view [of s2]) (use s2(2) clear_ep_views(2) [OF q(3)] in \<open>simp_all add: sched_step_def\<close>)
  moreover have "same_view clear_links ((tcbs s)(x \<mapsto> tcbState_update g t)) (tcbs ?s)"
    using same_view_trans [OF sched_step_views(1) [OF s2(2)] clear_ep_views(1) [OF q(3)]] by (simp add: s1_def)
  moreover have "ctes ?s = ctes s" using s2(2) by (simp add: sched_step_def s1_def)
  moreover have "ep_queue (tcbs ?s) (ep_ptr_get_queue ?e) (ts @ [x])" using q(2) by (simp add: ep_ptr_get_queue_def ep_queue_def)
  ultimately show ?thesis by fastforce
qed

text \<open>The part that takes the first thread out of the queue.\<close>

definition ep_leave :: "ptr \<Rightarrow> endpoint \<Rightarrow> kstate \<Rightarrow> kstate option" where
  "ep_leave p e s =
     do { k_assert (q_head (ep_ptr_get_queue e) \<noteq> 0);
          (queue, s) \<leftarrow> ep_dequeue (q_head (ep_ptr_get_queue e)) (ep_ptr_get_queue e) s;
          s \<leftarrow> ep_ptr_set_queue p queue s;
          if q_head queue = 0 then ep_upd p (ep_state_update (\<lambda>_. EPState_Idle)) s else Some s }"

lemma ep_leave_result:
  assumes inv: "sched_inv s" and e: "eps s p = Some e" "ep_queue (tcbs s) (ep_ptr_get_queue e) (x # ts)"
  shows "\<exists>s' e'. ep_leave p e s = Some s' \<and> q_head (ep_ptr_get_queue e) = x \<and> sched_inv s' \<and> ctes s' = ctes s
    \<and> eps s' p = Some e' \<and> ep_state e' = (if ts = [] then EPState_Idle else ep_state e)
    \<and> ep_queue (tcbs s') (ep_ptr_get_queue e') ts \<and> same_view clear_links (tcbs s) (tcbs s')"
proof -
  obtain q h where q: "tcbEPDequeue x (ep_ptr_get_queue e) (tcbs s) = Some (q, h)" "ep_queue h q ts"
    "eq_but clear_ep (tcbs s) h" using ep_dequeue_refines [of "tcbs s" "ep_ptr_get_queue e" "[]" x ts] e(2) by auto
  have hd: "q_head (ep_ptr_get_queue e) = x" "x \<noteq> 0" "q_head q = 0 \<longleftrightarrow> ts = []"
    using e(2) q(2) hd0_eq_0 [of ts] by (auto simp: ep_queue_def dll_def)
  let ?e = "e\<lparr>ep_state := (if ts = [] then EPState_Idle else ep_state e), epQueue_head := q_head q, epQueue_tail := q_end q\<rparr>"
  let ?s = "s\<lparr>tcbs := h, eps := (eps s)(p \<mapsto> ?e)\<rparr>"
  have "ep_leave p e s = Some ?s"
    using e(1) q(1) hd by (cases e) (simp add: ep_leave_def ep_dequeue_def ep_ptr_set_queue_def ep_upd_def)
  moreover have "sched_inv ?s"
    by (rule sched_inv_view [OF inv]) (use clear_ep_views(2) [OF q(3)] in simp_all)
  moreover have "ep_queue h (ep_ptr_get_queue ?e) ts" using q(2) by (simp add: ep_ptr_get_queue_def ep_queue_def)
  ultimately show ?thesis using hd(1) clear_ep_views(1) [OF q(3)] by fastforce
qed

lemma wake_result:
  assumes inv: "sched_inv s" and t: "tcbs s x = Some t"
  shows "\<exists>s1 s'. setThreadState x ThreadState_Running s = Some s1 \<and> possibleSwitchTo x s1 = Some s' \<and> sched_inv s'
    \<and> ctes s' = ctes s \<and> eps s' = eps s \<and> same_view ep_view (tcbs s) (tcbs s')
    \<and> same_view clear_links ((tcbs s)(x \<mapsto> tcbState_update (tsType_update (\<lambda>_. ThreadState_Running)) t)) (tcbs s')"
proof -
  let ?t = "tcbState_update (tsType_update (\<lambda>_. ThreadState_Running)) t"
  define s1 where "s1 = s\<lparr>tcbs := (tcbs s)(x \<mapsto> ?t)\<rparr>"
  have v: "same_view sched_view (tcbs s) (tcbs s1)" "same_view ep_view (tcbs s) (tcbs s1)"
    using t by (auto simp: s1_def sched_view_def ep_view_def intro!: same_view_upd)
  have "setThreadState x ThreadState_Running s = Some s1"
    using t by (simp add: setThreadState_def tcb_upd_def scheduleTCB_def isRunnable_def s1_def)
  moreover have "sched_inv s1" by (rule sched_inv_view [OF inv v(1)]) (simp_all add: s1_def)
  moreover have "tcbs s1 x = Some ?t" by (simp add: s1_def)
  moreover have "ctes s1 = ctes s" "eps s1 = eps s" "tcbs s1 = (tcbs s)(x \<mapsto> ?t)" by (simp_all add: s1_def)
  moreover obtain s' where s': "possibleSwitchTo x s1 = Some s'" "sched_step s1 s'"
    using possibleSwitchTo_step [of s1 x ?t] \<open>sched_inv s1\<close> by (auto simp: s1_def)
  ultimately show ?thesis
    using sched_step_views [OF s'(2)] same_view_trans [OF v(2) sched_step_views(2) [OF s'(2)]]
    by (intro exI [of _ s1] exI [of _ s']) (simp add: sched_step_def)
qed

section \<open>The specification\<close>

text \<open>Threads waiting to send, with the badge of the capability they send through, and threads
  waiting to receive, in the order of their arrival; \<open>regs\<close> are the register files.\<close>

record rendezvous =
  regs :: "ptr \<Rightarrow> register \<Rightarrow> u64"
  senders :: "(ptr \<times> u64) list"
  receivers :: "ptr list"

definition waiting :: "rendezvous \<Rightarrow> ptr list" where
  "waiting r = map fst (senders r) @ receivers r"

text \<open>The registers of the receiver after a message without buffers.\<close>

definition pass :: "(register \<Rightarrow> u64) \<Rightarrow> (register \<Rightarrow> u64) \<Rightarrow> u64 \<Rightarrow> register \<Rightarrow> u64" where
  "pass ca cr b = delivered ca cr b (message_length 0 0 ca)"

text \<open>A send with its blocking flag, the right to grant, the thread and the badge; a receive with
  its blocking flag and the thread.\<close>

datatype ep_op = Send bool bool ptr u64 | Recv bool ptr

primrec ep_spec :: "ptr set \<Rightarrow> ep_op \<Rightarrow> rendezvous \<Rightarrow> rendezvous option" where
  "ep_spec D (Send blocking grant a b) r =
     (if a \<in> D \<and> a \<notin> set (waiting r) then
        Some (case receivers r of
            [] \<Rightarrow> if blocking then r\<lparr>senders := senders r @ [(a, b)]\<rparr> else r
          | d # ds \<Rightarrow> r\<lparr>receivers := ds, regs := (regs r)(d := pass (regs r a) (regs r d) b)\<rparr>)
      else None)"
| "ep_spec D (Recv blocking d) r =
     (if d \<in> D \<and> d \<notin> set (waiting r) then
        Some (case senders r of
            [] \<Rightarrow> if blocking then r\<lparr>receivers := receivers r @ [d]\<rparr>
                  else r\<lparr>regs := (regs r)(d := (regs r d)(badgeRegister := 0))\<rparr>
          | (a, b) # ss \<Rightarrow> r\<lparr>senders := ss, regs := (regs r)(d := pass (regs r a) (regs r d) b)\<rparr>)
      else None)"

fun ep_spec_run :: "ptr set \<Rightarrow> ep_op list \<Rightarrow> rendezvous \<Rightarrow> rendezvous option" where
  "ep_spec_run D [] r = Some r"
| "ep_spec_run D (x # xs) r = do { r \<leftarrow> ep_spec D x r; ep_spec_run D xs r }"

text \<open>The kernel's operations, through a capability \<open>c\<close> to the endpoint.\<close>

primrec ep_exec :: "cap \<Rightarrow> ep_op \<Rightarrow> kstate \<Rightarrow> kstate option" where
  "ep_exec c (Send blocking grant a b) s = sendIPC blocking False b grant (capCanGrantReply c) a (capEPPtr c) s"
| "ep_exec c (Recv blocking d) s = receiveIPC d c blocking s"

fun ep_run :: "cap \<Rightarrow> ep_op list \<Rightarrow> kstate \<Rightarrow> kstate option" where
  "ep_run c [] s = Some s"
| "ep_run c (x # xs) s = do { s \<leftarrow> ep_exec c x s; ep_run c xs s }"

section \<open>The relation\<close>

text \<open>A thread of the set \<open>D\<close> has the registers of the specification, no fault and no bound
  notification; it is blocked on the endpoint exactly if it waits there, and runnable otherwise.\<close>

definition client_ok :: "ptr \<Rightarrow> rendezvous \<Rightarrow> ptr \<Rightarrow> tcb \<Rightarrow> bool" where
  "client_ok p r x t \<longleftrightarrow> tcbContext t = regs r x \<and> tcbFault t = Fault_NullFault \<and> tcbBoundNotification t = 0 \<and>
     (case map_of (senders r) x of
        Some b \<Rightarrow> tsType (tcbState t) = ThreadState_BlockedOnSend \<and> blockingObject (tcbState t) = p
          \<and> blockingIPCBadge (tcbState t) = b \<and> \<not> blockingIPCIsCall (tcbState t)
      | None \<Rightarrow> if x \<in> set (receivers r)
          then tsType (tcbState t) = ThreadState_BlockedOnReceive \<and> blockingObject (tcbState t) = p
          else isRunnable t)"

definition no_buffer :: "kstate \<Rightarrow> ptr \<Rightarrow> bool" where
  "no_buffer s x \<longleftrightarrow> map_option cteCap (ctes s (TCB_PTR_CTE_PTR x tcbBuffer)) = Some NullCap"

definition ep_rel :: "ptr set \<Rightarrow> ptr \<Rightarrow> rendezvous \<Rightarrow> kstate \<Rightarrow> bool" where
  "ep_rel D p r s \<longleftrightarrow> sched_inv s \<and> (senders r = [] \<or> receivers r = []) \<and> set (waiting r) \<subseteq> D
     \<and> (\<forall>x \<in> D. no_buffer s x \<and> (\<exists>t. tcbs s x = Some t \<and> client_ok p r x t))
     \<and> (\<exists>e. eps s p = Some e \<and> ep_queue (tcbs s) (ep_ptr_get_queue e) (waiting r)
          \<and> ep_state e = (if senders r \<noteq> [] then EPState_Send else if receivers r \<noteq> [] then EPState_Recv else EPState_Idle))"

lemma clear_links_same:
  assumes "clear_links t = clear_links t'"
  shows "tcbContext t' = tcbContext t" "tcbFault t' = tcbFault t" "tcbBoundNotification t' = tcbBoundNotification t"
    "tsType (tcbState t') = tsType (tcbState t)" "blockingObject (tcbState t') = blockingObject (tcbState t)"
    "blockingIPCBadge (tcbState t') = blockingIPCBadge (tcbState t)"
    "blockingIPCCanGrant (tcbState t') = blockingIPCCanGrant (tcbState t)"
    "blockingIPCIsCall (tcbState t') = blockingIPCIsCall (tcbState t)" "isRunnable t' = isRunnable t"
  using assms by (cases t; cases t'; cases "tcbState t"; cases "tcbState t'";
    simp add: clear_links_def clear_ep_def clear_q_def clear_sched_def isRunnable_def)+

lemma client_ok_links:
  assumes "clear_links t = clear_links t'" "client_ok p r x t"
  shows "client_ok p r x t'"
  using assms(2) by (simp only: client_ok_def clear_links_same [OF assms(1)])

text \<open>The change of the threads as a function on each of them, up to queue links.\<close>

definition threads_become :: "(ptr \<Rightarrow> tcb \<Rightarrow> tcb) \<Rightarrow> tcb_heap \<Rightarrow> tcb_heap \<Rightarrow> bool" where
  "threads_become f h h' \<longleftrightarrow> (\<forall>x t. h x = Some t \<longrightarrow> (\<exists>t'. h' x = Some t' \<and> clear_links t' = clear_links (f x t)))"

lemma same_view_become: "same_view clear_links h h' \<Longrightarrow> threads_become (\<lambda>_ t. t) h h'"
  unfolding threads_become_def by (blast dest: same_viewD [OF same_view_sym])

lemma threads_become_clients:
  assumes "threads_become f (tcbs s) (tcbs s')" "ctes s' = ctes s"
    and "\<And>x. x \<in> D \<Longrightarrow> no_buffer s x \<and> (\<exists>t. tcbs s x = Some t \<and> client_ok p r x t)"
    and "\<And>x t. x \<in> D \<Longrightarrow> client_ok p r x t \<Longrightarrow> client_ok p r' x (f x t)"
  shows "\<forall>x \<in> D. no_buffer s' x \<and> (\<exists>t. tcbs s' x = Some t \<and> client_ok p r' x t)"
proof
  fix x assume x: "x \<in> D"
  then obtain t where t: "tcbs s x = Some t" "client_ok p r x t" using assms(3) by blast
  then obtain t' where t': "tcbs s' x = Some t'" "clear_links t' = clear_links (f x t)"
    using assms(1) unfolding threads_become_def by blast
  have "client_ok p r' x t'" by (rule client_ok_links [OF t'(2) [symmetric] assms(4) [OF x t(2)]])
  then show "no_buffer s' x \<and> (\<exists>t. tcbs s' x = Some t \<and> client_ok p r' x t)"
    using t'(1) assms(2) assms(3) [OF x] by (simp add: no_buffer_def)
qed

section \<open>Steps\<close>

lemma no_buffer_lookup:
  assumes "no_buffer s x" "tcbs s x = Some t"
  shows "lookupIPCBuffer isReceiver x s = Some 0"
proof -
  obtain z where "ctes s (TCB_PTR_CTE_PTR x tcbBuffer) = Some z" "cteCap z = NullCap"
    using assms(1) by (auto simp: no_buffer_def)
  then show ?thesis using assms(2) by (simp add: lookupIPCBuffer_def)
qed

lemma transfer_plain:
  assumes "a \<noteq> d" "tcbs s a = Some ta" "tcbs s d = Some td" "tcbFault ta = Fault_NullFault" "no_buffer s a" "no_buffer s d"
  shows "\<exists>s'. doIPCTransfer a p b g d s = Some s' \<and> ctes s' = ctes s \<and> eps s' = eps s
    \<and> tcbs s' = (tcbs s)(d \<mapsto> td\<lparr>tcbContext := pass (tcbContext ta) (tcbContext td) b\<rparr>) \<and> (sched_inv s \<longrightarrow> sched_inv s')"
proof -
  have nocaps: "g \<and> (0 :: ptr) \<noteq> 0 \<longrightarrow> MI_get_extraCaps (tcbContext ta msgInfoRegister) = 0" by simp
  have "lookupIPCBuffer False a s = Some 0" "lookupIPCBuffer True d s = Some 0"
    using assms(2,3,5,6) by (simp_all add: no_buffer_lookup)
  moreover have "buffers_ok 0 0 s" by (simp add: buffers_ok_def)
  ultimately obtain mem where
    run: "doIPCTransfer a p b g d s = Some (s\<lparr>
      tcbs := (tcbs s)(d \<mapsto> td\<lparr>tcbContext := pass (tcbContext ta) (tcbContext td) b\<rparr>),
      user_mem := mem, current_extra_caps := (current_extra_caps s)(0 := 0)\<rparr>)" (is "_ = Some ?s'")
    unfolding pass_def by (rule transfer_result [OF assms(1-4) nocaps _ _ _ refl])
  have "same_view sched_view (tcbs s) (tcbs ?s')" using assms(3) by (auto simp: sched_view_def intro!: same_view_upd)
  then have "sched_inv s \<longrightarrow> sched_inv ?s'" by (intro impI, elim sched_inv_view) simp_all
  with run show ?thesis by (intro exI [of _ ?s'] conjI) simp_all
qed

definition meet :: "ptr \<Rightarrow> ptr \<Rightarrow> (register \<Rightarrow> u64) \<Rightarrow> ptr \<Rightarrow> tcb \<Rightarrow> tcb" where
  "meet x d ctx y t =
     (if y = x then tcbState_update (tsType_update (\<lambda>_. ThreadState_Running)) else (\<lambda>t. t))
       (if y = d then t\<lparr>tcbContext := ctx\<rparr> else t)"

lemma clear_links_meet: "clear_links (meet x d ctx y t) = meet x d ctx y (clear_links t)"
  by (simp add: meet_def clear_links_def clear_ep_def clear_q_def clear_sched_def)

lemma meet_result:
  assumes inv: "sched_inv s" and e: "eps s p = Some e" "ep_queue (tcbs s) (ep_ptr_get_queue e) (x # ts)"
    and ad: "a \<noteq> d" "x = a \<or> x = d" and t: "tcbs s a = Some ta" "tcbs s d = Some td"
    and ok: "tcbFault ta = Fault_NullFault" "no_buffer s a" "no_buffer s d"
  shows "\<exists>s1 s2 s3 s' t1 e'. ep_leave p e s = Some s1 \<and> q_head (ep_ptr_get_queue e) = x
    \<and> tcbs s1 a = Some t1 \<and> clear_links t1 = clear_links ta
    \<and> doIPCTransfer a p b g d s1 = Some s2 \<and> tcbs s2 a = Some t1 \<and> tcbs s2 d \<noteq> None
    \<and> setThreadState x ThreadState_Running s2 = Some s3 \<and> possibleSwitchTo x s3 = Some s'
    \<and> sched_inv s' \<and> ctes s' = ctes s \<and> eps s' p = Some e' \<and> ep_state e' = (if ts = [] then EPState_Idle else ep_state e)
    \<and> ep_queue (tcbs s') (ep_ptr_get_queue e') ts
    \<and> threads_become (meet x d (pass (tcbContext ta) (tcbContext td) b)) (tcbs s) (tcbs s')"
proof -
  obtain s1 e' where s1: "ep_leave p e s = Some s1" "q_head (ep_ptr_get_queue e) = x" "sched_inv s1" "ctes s1 = ctes s"
    "eps s1 p = Some e'" "ep_state e' = (if ts = [] then EPState_Idle else ep_state e)"
    "ep_queue (tcbs s1) (ep_ptr_get_queue e') ts" "same_view clear_links (tcbs s) (tcbs s1)"
    using ep_leave_result [OF inv e] by blast
  obtain t1 d1 where t1: "tcbs s1 a = Some t1" "clear_links t1 = clear_links ta" "tcbs s1 d = Some d1" "clear_links d1 = clear_links td"
    using same_viewD [OF same_view_sym [OF s1(8)]] t by blast
  have f1: "tcbFault t1 = Fault_NullFault" "tcbContext t1 = tcbContext ta" "tcbContext d1 = tcbContext td"
    using clear_links_same(1,2) [OF t1(2)] clear_links_same(1) [OF t1(4)] ok(1) by simp_all
  let ?ctx = "pass (tcbContext ta) (tcbContext td) b"
  have "no_buffer s1 a" "no_buffer s1 d" using ok(2,3) s1(4) by (simp_all add: no_buffer_def)
  from transfer_plain [OF ad(1) t1(1,3) f1(1) this, of p b g] obtain s2 where
    s2: "doIPCTransfer a p b g d s1 = Some s2" "ctes s2 = ctes s1" "eps s2 = eps s1"
      "tcbs s2 = (tcbs s1)(d \<mapsto> d1\<lparr>tcbContext := ?ctx\<rparr>)" "sched_inv s2"
    using s1(3) f1 by auto
  obtain t2 where t2: "tcbs s2 x = Some t2" using ad t1(1,3) s2(4) by (cases "x = d") auto
  obtain s3 s' where s': "setThreadState x ThreadState_Running s2 = Some s3" "possibleSwitchTo x s3 = Some s'" "sched_inv s'"
    "ctes s' = ctes s2" "eps s' = eps s2" "same_view ep_view (tcbs s2) (tcbs s')"
    "same_view clear_links ((tcbs s2)(x \<mapsto> tcbState_update (tsType_update (\<lambda>_. ThreadState_Running)) t2)) (tcbs s')"
    using wake_result [OF s2(5) t2] by blast
  have "same_view ep_view (tcbs s1) (tcbs s2)" using t1(3) by (auto simp: s2(4) ep_view_def intro!: same_view_upd)
  then have "ep_queue (tcbs s') (ep_ptr_get_queue e') ts" using s1(7) ep_queue_view [OF same_view_trans [OF _ s'(6)]] by blast
  moreover have "threads_become (meet x d ?ctx) (tcbs s) (tcbs s')"
    unfolding threads_become_def
  proof (intro allI impI)
    fix y t assume "tcbs s y = Some t"
    then obtain u where u: "tcbs s1 y = Some u" "clear_links u = clear_links t" using same_viewD [OF same_view_sym [OF s1(8)]] by blast
    have "((tcbs s2)(x \<mapsto> tcbState_update (tsType_update (\<lambda>_. ThreadState_Running)) t2)) y = Some (meet x d ?ctx y u)"
      using u(1) t1(3) t2 by (auto simp: s2(4) meet_def)
    then obtain t' where "tcbs s' y = Some t'" "clear_links t' = clear_links (meet x d ?ctx y u)"
      using same_viewD [OF same_view_sym [OF s'(7)]] by blast
    then show "\<exists>t'. tcbs s' y = Some t' \<and> clear_links t' = clear_links (meet x d ?ctx y t)"
      using u(2) by (auto simp: clear_links_meet)
  qed
  moreover have "tcbs s2 a = Some t1" "tcbs s2 d \<noteq> None" using ad(1) t1(1) by (simp_all add: s2(4))
  moreover have "ctes s' = ctes s" "eps s' p = Some e'" using s1(4,5) s2(2,3) s'(4,5) by simp_all
  ultimately show ?thesis using s1(1,2,6) t1(1,2) s2(1) s'(1-3) by blast
qed

text \<open>How the operations are put together from these parts.\<close>

lemma sendIPC_blocks:
  assumes "eps s p = Some e" "ep_state e \<noteq> EPState_Recv"
  shows "sendIPC bl False b g gr a p s = (if bl then
    ep_block a (\<lambda>ts. ts\<lparr>tsType := ThreadState_BlockedOnSend, blockingObject := p, blockingIPCBadge := b,
      blockingIPCCanGrant := g, blockingIPCCanGrantReply := gr, blockingIPCIsCall := False\<rparr>) p EPState_Send s else Some s)"
  using assms by (simp add: sendIPC_def ep_block_def)

lemma sendIPC_meets:
  assumes "eps s p = Some e" "ep_state e = EPState_Recv" "ep_leave p e s = Some s1" "q_head (ep_ptr_get_queue e) = d"
    "doIPCTransfer a p b g d s1 = Some s2" "tcbs s2 d \<noteq> None" "setThreadState d ThreadState_Running s2 = Some s3"
    "possibleSwitchTo d s3 = Some s'"
  shows "sendIPC bl False b g gr a p s = Some s'"
  using assms by (auto simp: sendIPC_def ep_leave_def bind_eq_Some_conv split: if_splits)

lemma receiveIPC_blocks:
  assumes "is_EndpointCap c" "capEPPtr c = p" "tcbs s d = Some t" "tcbBoundNotification t = 0" "eps s p = Some e" "ep_state e \<noteq> EPState_Send"
  shows "receiveIPC d c bl s = (if bl then
    ep_block d (\<lambda>ts. ts\<lparr>tsType := ThreadState_BlockedOnReceive, blockingObject := p, blockingIPCCanGrant := capCanGrant c\<rparr>)
      p EPState_Recv s else doNBRecvFailedTransfer d s)"
  using assms by (simp add: receiveIPC_def ep_block_def)

lemma receiveIPC_meets:
  assumes "is_EndpointCap c" "capEPPtr c = p" "tcbs s d = Some t" "tcbBoundNotification t = 0" "eps s p = Some e" "ep_state e = EPState_Send"
    "ep_leave p e s = Some s1" "q_head (ep_ptr_get_queue e) = a" "tcbs s1 a = Some t1"
    "blockingIPCBadge (tcbState t1) = b" "blockingIPCCanGrant (tcbState t1) = g" "\<not> blockingIPCIsCall (tcbState t1)"
    "doIPCTransfer a p b g d s1 = Some s2" "tcbs s2 a = Some t1"
    "setThreadState a ThreadState_Running s2 = Some s3" "possibleSwitchTo a s3 = Some s'"
  shows "receiveIPC d c bl s = Some s'"
  using assms by (auto simp: receiveIPC_def ep_leave_def bind_eq_Some_conv split: if_splits)

lemma block_step:
  assumes rel: "ep_rel D p r s" and x: "x \<in> D" "x \<notin> set (waiting r)" and g: "\<And>u. tcbQueued (g u) = tcbQueued u"
    and r': "waiting r' = waiting r @ [x]" "senders r' = [] \<or> receivers r' = []"
      "st = (if senders r' \<noteq> [] then EPState_Send else EPState_Recv)"
    and cl: "\<And>y t. client_ok p r y t \<Longrightarrow> client_ok p r' y (if y = x then tcbState_update g t else t)"
  shows "\<exists>s'. ep_block x g p st s = Some s' \<and> ep_rel D p r' s'"
proof -
  obtain e where e: "eps s p = Some e" "ep_queue (tcbs s) (ep_ptr_get_queue e) (waiting r)" using rel by (auto simp: ep_rel_def)
  have inv: "sched_inv s" and clients: "\<And>y. y \<in> D \<Longrightarrow> no_buffer s y \<and> (\<exists>t. tcbs s y = Some t \<and> client_ok p r y t)"
    using rel by (simp_all add: ep_rel_def)
  obtain t where t: "tcbs s x = Some t" using clients x(1) by blast
  obtain s' e' where s': "ep_block x g p st s = Some s'" "sched_inv s'" "ctes s' = ctes s" "eps s' p = Some e'" "ep_state e' = st"
    "ep_queue (tcbs s') (ep_ptr_get_queue e') (waiting r @ [x])"
    "same_view clear_links ((tcbs s)(x \<mapsto> tcbState_update g t)) (tcbs s')"
    using ep_block_result [OF inv e t x(2) g] by blast
  have "threads_become (\<lambda>y t. if y = x then tcbState_update g t else t) (tcbs s) (tcbs s')"
    unfolding threads_become_def
  proof (intro allI impI)
    fix y u assume "tcbs s y = Some u"
    then have "((tcbs s)(x \<mapsto> tcbState_update g t)) y = Some (if y = x then tcbState_update g u else u)" using t by auto
    then show "\<exists>t'. tcbs s' y = Some t' \<and> clear_links t' = clear_links (if y = x then tcbState_update g u else u)"
      by (rule same_viewD [OF same_view_sym [OF s'(7)]])
  qed
  from threads_become_clients [OF this s'(3) clients cl]
  have "\<forall>y \<in> D. no_buffer s' y \<and> (\<exists>t. tcbs s' y = Some t \<and> client_ok p r' y t)" by blast
  moreover have "set (waiting r') \<subseteq> D" using rel x(1) r'(1) by (simp add: ep_rel_def)
  moreover have "receivers r' \<noteq> []" if "senders r' = []" using that r'(1) by (auto simp: waiting_def)
  ultimately show ?thesis using s'(1,2,4-6) r' by (auto simp: ep_rel_def)
qed

lemma meet_step:
  assumes rel: "ep_rel D p r s" and q: "waiting r = x # waiting r'" and ad: "a \<in> D" "d \<in> D" "a \<noteq> d" "x = a \<or> x = d"
    and r': "senders r' = [] \<or> receivers r' = []" "waiting r' \<noteq> [] \<Longrightarrow> senders r' = [] \<longleftrightarrow> senders r = []"
    and cl: "\<And>y t. client_ok p r y t \<Longrightarrow> client_ok p r' y (meet x d (pass (regs r a) (regs r d) b) y t)"
  obtains e s1 s2 s3 s' t1 where "eps s p = Some e" "ep_leave p e s = Some s1" "q_head (ep_ptr_get_queue e) = x"
    "tcbs s1 a = Some t1" "client_ok p r a t1" "doIPCTransfer a p b g d s1 = Some s2" "tcbs s2 a = Some t1" "tcbs s2 d \<noteq> None"
    "\<And>ta. tcbs s a = Some ta \<Longrightarrow> blockingIPCCanGrant (tcbState t1) = blockingIPCCanGrant (tcbState ta)"
    "setThreadState x ThreadState_Running s2 = Some s3" "possibleSwitchTo x s3 = Some s'" "ep_rel D p r' s'"
proof -
  obtain e where e: "eps s p = Some e" "ep_queue (tcbs s) (ep_ptr_get_queue e) (x # waiting r')"
    "ep_state e = (if senders r \<noteq> [] then EPState_Send else if receivers r \<noteq> [] then EPState_Recv else EPState_Idle)"
    using rel q by (auto simp: ep_rel_def)
  have inv: "sched_inv s" and clients: "\<And>y. y \<in> D \<Longrightarrow> no_buffer s y \<and> (\<exists>t. tcbs s y = Some t \<and> client_ok p r y t)"
    using rel by (simp_all add: ep_rel_def)
  obtain ta td where t: "tcbs s a = Some ta" "client_ok p r a ta" "tcbs s d = Some td" "client_ok p r d td"
    using clients ad(1,2) by blast
  have f: "tcbFault ta = Fault_NullFault" "tcbContext ta = regs r a" "tcbContext td = regs r d"
    using t(2,4) by (simp_all add: client_ok_def)
  obtain s1 s2 s3 s' t1 e' where s1: "ep_leave p e s = Some s1" "q_head (ep_ptr_get_queue e) = x" "tcbs s1 a = Some t1"
      "clear_links t1 = clear_links ta"
    and s2: "doIPCTransfer a p b g d s1 = Some s2" "tcbs s2 a = Some t1" "tcbs s2 d \<noteq> None"
    and s': "setThreadState x ThreadState_Running s2 = Some s3" "possibleSwitchTo x s3 = Some s'"
      "sched_inv s'" "ctes s' = ctes s" "eps s' p = Some e'" "ep_state e' = (if waiting r' = [] then EPState_Idle else ep_state e)"
      "ep_queue (tcbs s') (ep_ptr_get_queue e') (waiting r')"
      "threads_become (meet x d (pass (regs r a) (regs r d) b)) (tcbs s) (tcbs s')"
    using meet_result [OF inv e(1,2) ad(3,4) t(1,3) f(1) clients [OF ad(1), THEN conjunct1] clients [OF ad(2), THEN conjunct1], of b g]
    unfolding f by blast
  have "\<forall>y \<in> D. no_buffer s' y \<and> (\<exists>t. tcbs s' y = Some t \<and> client_ok p r' y t)"
    using threads_become_clients [OF s'(8,4) clients cl] by blast
  moreover have "set (waiting r') \<subseteq> D" using rel q by (simp add: ep_rel_def)
  moreover have "ep_state e' = (if senders r' \<noteq> [] then EPState_Send else if receivers r' \<noteq> [] then EPState_Recv else EPState_Idle)"
  proof (cases "waiting r' = []")
    case True
    then show ?thesis using s'(6) by (simp add: waiting_def)
  next
    case False
    note same = r'(2) [OF False]
    show ?thesis
    proof (cases "senders r = []")
      case True
      then have "receivers r' \<noteq> []" "receivers r \<noteq> []" using False same q by (auto simp: waiting_def)
      then show ?thesis using s'(6) e(3) True same False by simp
    next
      case sr: False
      then show ?thesis using s'(6) e(3) same False by simp
    qed
  qed
  ultimately have rel': "ep_rel D p r' s'" unfolding ep_rel_def using s'(3,5,7) r'(1) by blast
  have "client_ok p r a t1" by (rule client_ok_links [OF s1(4) [symmetric] t(2)])
  moreover have "blockingIPCCanGrant (tcbState t1) = blockingIPCCanGrant (tcbState u)" if "tcbs s a = Some u" for u
    using that t(1) clear_links_same(7) [OF s1(4)] by simp
  ultimately show ?thesis using that [OF e(1) s1(1-3) _ s2 _ s'(1,2) rel'] by blast
qed

lemma queue_distinct: "ep_rel D p r s \<Longrightarrow> distinct (waiting r)"
  by (auto simp: ep_rel_def ep_queue_def dll_def)

lemma send_step:
  assumes rel: "ep_rel D p r s" and a: "a \<in> D" "a \<notin> set (waiting r)"
    and r': "ep_spec D (Send bl g a b) r = Some r'"
  shows "\<exists>s'. sendIPC bl False b g gr a p s = Some s' \<and> ep_rel D p r' s'"
proof (cases "receivers r")
  case Nil
  obtain e where e: "eps s p = Some e" "ep_state e \<noteq> EPState_Recv" using rel Nil by (auto simp: ep_rel_def)
  have none: "map_of (senders r) a = None" using a(2) by (simp add: map_of_eq_None_iff waiting_def)
  show ?thesis
  proof (cases bl)
    case True
    then have r': "r' = r\<lparr>senders := senders r @ [(a, b)]\<rparr>" using r' a Nil by simp
    show ?thesis
      unfolding sendIPC_blocks [OF e] if_P [OF True]
      by (rule block_step [OF rel a])
         (use none Nil in \<open>auto simp: r' waiting_def client_ok_def isRunnable_def map_add_def split: option.splits\<close>)
  next
    case False
    then show ?thesis using r' a Nil rel by (simp add: sendIPC_blocks [OF e])
  qed
next
  case (Cons d ds)
  have em: "senders r = []" using rel Cons by (auto simp: ep_rel_def)
  have r': "r' = r\<lparr>receivers := ds, regs := (regs r)(d := pass (regs r a) (regs r d) b)\<rparr>" using r' a Cons by simp
  have d: "d \<in> D" "d \<notin> set ds" "a \<noteq> d"
    using rel Cons a(2) queue_distinct [OF rel] by (auto simp: ep_rel_def waiting_def em)
  obtain e s1 s2 s3 s' where st: "eps s p = Some e" "ep_leave p e s = Some s1" "q_head (ep_ptr_get_queue e) = d"
    "doIPCTransfer a p b g d s1 = Some s2" "tcbs s2 d \<noteq> None"
    "setThreadState d ThreadState_Running s2 = Some s3" "possibleSwitchTo d s3 = Some s'" "ep_rel D p r' s'"
  proof (rule meet_step [OF rel _ a(1) d(1,3) disjI2 [OF refl], of r' b g])
    show "client_ok p r' y (meet d d (pass (regs r a) (regs r d) b) y t)" if "client_ok p r y t" for y t
      using that d(2) Cons by (auto simp: client_ok_def meet_def r' em isRunnable_def)
  qed (simp_all add: r' waiting_def em Cons)
  have "ep_state e = EPState_Recv" using rel st(1) Cons em by (simp add: ep_rel_def)
  from sendIPC_meets [OF st(1) this st(2-7)] st(8) show ?thesis by blast
qed

lemma nb_recv_step:
  assumes rel: "ep_rel D p r s" and d: "d \<in> D" and r': "r' = r\<lparr>regs := (regs r)(d := (regs r d)(badgeRegister := 0))\<rparr>"
  shows "\<exists>s'. doNBRecvFailedTransfer d s = Some s' \<and> ep_rel D p r' s'"
proof -
  have clients: "\<And>y. y \<in> D \<Longrightarrow> no_buffer s y \<and> (\<exists>t. tcbs s y = Some t \<and> client_ok p r y t)"
    using rel by (simp add: ep_rel_def)
  then obtain t where t: "tcbs s d = Some t" using d by blast
  define s' where "s' = s\<lparr>tcbs := (tcbs s)(d \<mapsto> tcbContext_update (\<lambda>c. c(badgeRegister := 0)) t)\<rparr>"
  have s': "tcbs s' = (tcbs s)(d \<mapsto> tcbContext_update (\<lambda>c. c(badgeRegister := 0)) t)" "ctes s' = ctes s" "eps s' = eps s"
    by (simp_all add: s'_def)
  have v: "same_view sched_view (tcbs s) (tcbs s')" "same_view ep_view (tcbs s) (tcbs s')"
    using t by (auto simp: s' sched_view_def ep_view_def intro!: same_view_upd)
  have "sched_inv s'" by (rule sched_inv_view [OF _ v(1)]) (use rel in \<open>simp_all add: ep_rel_def s'_def\<close>)
  moreover have "threads_become (\<lambda>x. if x = d then tcbContext_update (\<lambda>c. c(badgeRegister := 0)) else (\<lambda>t. t)) (tcbs s) (tcbs s')"
    using t by (auto simp: threads_become_def s')
  then have "\<forall>y \<in> D. no_buffer s' y \<and> (\<exists>t. tcbs s' y = Some t \<and> client_ok p r' y t)"
    by (rule threads_become_clients [OF _ s'(2) clients]) (auto simp: r' client_ok_def isRunnable_def split: option.splits)
  moreover have "waiting r' = waiting r" "senders r' = senders r" "receivers r' = receivers r" by (simp_all add: r' waiting_def)
  ultimately have "ep_rel D p r' s'" using rel ep_queue_view [OF v(2)] unfolding ep_rel_def s'(3) by metis
  moreover have "doNBRecvFailedTransfer d s = Some s'"
    using t by (simp add: doNBRecvFailedTransfer_def setRegister_def tcb_upd_def s'_def)
  ultimately show ?thesis by blast
qed

lemma recv_step:
  assumes rel: "ep_rel D p r s" and d: "d \<in> D" "d \<notin> set (waiting r)" and c: "is_EndpointCap c" "capEPPtr c = p"
    and r': "ep_spec D (Recv bl d) r = Some r'"
  shows "\<exists>s'. receiveIPC d c bl s = Some s' \<and> ep_rel D p r' s'"
proof -
  obtain t where t: "tcbs s d = Some t" "tcbBoundNotification t = 0" using rel d(1) by (auto simp: ep_rel_def client_ok_def)
  show ?thesis
  proof (cases "senders r")
    case Nil
    obtain e where e: "eps s p = Some e" "ep_state e \<noteq> EPState_Send" using rel Nil by (auto simp: ep_rel_def)
    show ?thesis
    proof (cases bl)
      case True
      then have r': "r' = r\<lparr>receivers := receivers r @ [d]\<rparr>" using r' d Nil by simp
      show ?thesis
        unfolding receiveIPC_blocks [OF c t e] if_P [OF True]
        by (rule block_step [OF rel d]) (use Nil in \<open>auto simp: r' waiting_def client_ok_def isRunnable_def\<close>)
    next
      case False
      then have "r' = r\<lparr>regs := (regs r)(d := (regs r d)(badgeRegister := 0))\<rparr>" using r' d Nil by simp
      then show ?thesis using False nb_recv_step [OF rel d(1), of r'] by (simp add: receiveIPC_blocks [OF c t e])
    qed
  next
    case (Cons ab ss)
    obtain a b where ab: "ab = (a, b)" by (cases ab)
    have em: "receivers r = []" using rel Cons by (auto simp: ep_rel_def)
    have r': "r' = r\<lparr>senders := ss, regs := (regs r)(d := pass (regs r a) (regs r d) b)\<rparr>" using r' d Cons ab by simp
    have a: "a \<in> D" "a \<notin> fst ` set ss" "a \<noteq> d"
      using rel Cons d(2) queue_distinct [OF rel] by (auto simp: ep_rel_def waiting_def em ab)
    obtain ta where ta: "tcbs s a = Some ta" using rel a(1) by (auto simp: ep_rel_def)
    define g where "g = blockingIPCCanGrant (tcbState ta)"
    obtain e s1 s2 s3 s' t1 where st: "eps s p = Some e" "ep_leave p e s = Some s1" "q_head (ep_ptr_get_queue e) = a"
      "tcbs s1 a = Some t1" "client_ok p r a t1" "doIPCTransfer a p b g d s1 = Some s2" "tcbs s2 a = Some t1"
      "setThreadState a ThreadState_Running s2 = Some s3" "possibleSwitchTo a s3 = Some s'" "ep_rel D p r' s'"
      "blockingIPCCanGrant (tcbState t1) = blockingIPCCanGrant (tcbState ta)"
    proof (rule meet_step [OF rel _ a(1) d(1) a(3) disjI1 [OF refl], of r' b g])
      have "map_of ss a = None" using a(2) by (simp add: map_of_eq_None_iff)
      then show "client_ok p r' y (meet a d (pass (regs r a) (regs r d) b) y t)" if "client_ok p r y t" for y t
        using that a(3) Cons d(2) by (auto simp: client_ok_def meet_def r' em ab isRunnable_def
            split: option.splits if_splits)
    qed (use ta in \<open>simp_all add: r' waiting_def em Cons ab\<close>)
    have "ep_state e = EPState_Send" using rel st(1) Cons by (simp add: ep_rel_def)
    moreover have "blockingIPCBadge (tcbState t1) = b" "blockingIPCCanGrant (tcbState t1) = g" "\<not> blockingIPCIsCall (tcbState t1)"
      using st(5,11) by (simp_all add: client_ok_def Cons ab g_def)
    ultimately show ?thesis using receiveIPC_meets [OF c t st(1) _ st(2-4) _ _ _ st(6-9)] st(10) by blast
  qed
qed

section \<open>Property\<close>

text \<open>C26. An endpoint is a rendezvous in order of arrival. Let the threads of a set have no IPC
  buffers, pending faults and bound notifications. Every sequence of sends that are not calls and of
  receives by these threads over one endpoint, blocking or not, with or without the right to grant,
  each by a thread that is not waiting there, returns, and its effect on the queue of the endpoint,
  the states and the registers of the threads is the one of the specification: a sender meets the
  receiver that has waited longest and the other way round, the receiver gets the message, the label
  and the badge of exactly that sender, both are runnable after that, and a thread is blocked exactly
  while it waits. An operation that may not block and meets nobody does not wait; a send has then no
  effect and a receive gives badge 0. The invariant of the scheduler holds throughout.\<close>

theorem endpoint_is_rendezvous:
  assumes "ep_rel D p r s" "is_EndpointCap c" "capEPPtr c = p" "ep_spec_run D ops r = Some r'"
  shows "\<exists>s'. ep_run c ops s = Some s' \<and> ep_rel D p r' s'"
  using assms(1,4)
proof (induction ops arbitrary: r s)
  case Nil
  then show ?case by simp
next
  case (Cons x xs)
  obtain r1 where r1: "ep_spec D x r = Some r1" "ep_spec_run D xs r1 = Some r'" using Cons.prems(2) by (auto simp: bind_eq_Some_conv)
  have "\<exists>s1. ep_exec c x s = Some s1 \<and> ep_rel D p r1 s1"
  proof (cases x)
    case (Send bl g a b)
    then show ?thesis using send_step [OF Cons.prems(1), of a bl g b r1] r1(1) assms(3) by (auto split: if_splits)
  next
    case (Recv bl d)
    then show ?thesis using recv_step [OF Cons.prems(1) _ _ assms(2,3), of d bl r1] r1(1) by (auto split: if_splits)
  qed
  then show ?case using Cons.IH [OF _ r1(2)] by auto
qed

text \<open>A poll that finds nobody, two senders, then a receiver, which gets the message of the first.\<close>

definition meeting_example :: kstate where
  "meeting_example = ks0\<lparr>
     tcbs := [0x10400 \<mapsto> tcb0\<lparr>tcbState := (tcbState tcb0)\<lparr>tsType := ThreadState_Running\<rparr>,
                tcbContext := (\<lambda>r. if r = msgInfoRegister then 0x5001 else 77)\<rparr>,
              0x20400 \<mapsto> tcb0\<lparr>tcbState := (tcbState tcb0)\<lparr>tsType := ThreadState_Running\<rparr>\<rparr>,
              0x30400 \<mapsto> tcb0\<lparr>tcbState := (tcbState tcb0)\<lparr>tsType := ThreadState_Running\<rparr>\<rparr>],
     ctes := (\<lambda>_. Some \<lparr>cteCap = NullCap, cteMDBNode = nullMDBNode\<rparr>),
     eps := [32 \<mapsto> \<lparr>epQueue_head = 0, epQueue_tail = 0, ep_state = EPState_Idle\<rparr>]\<rparr>"

theorem endpoint_is_rendezvous_witness:
  "\<exists>s' t. ep_run (EndpointCap 0 False False True True 32) [Recv False 0x30400, Send True True 0x10400 7, Send True False 0x20400 9, Recv True 0x30400] meeting_example = Some s'
     \<and> tcbs s' 0x30400 = Some t \<and> tcbContext t badgeRegister = 7 \<and> tcbContext t (msgRegisters ! 0) = 77"
proof -
  let ?D = "{0x10400, 0x20400, 0x30400}"
  let ?regs = "\<lambda>(x :: ptr) r. if x = 0x10400 then if r = msgInfoRegister then 0x5001 else 77 else 0 :: u64"
  let ?r = "\<lparr>regs = ?regs, senders = [], receivers = []\<rparr>"
  have "ready_inv (\<lambda>_. []) (ks0\<lparr>tcbs := tcbs meeting_example\<rparr>)"
    by (rule ready_inv_empty [where h = "tcbs meeting_example" and c = 0 and i = 0 and a = ResumeCurrentThread])
       (auto simp: ks0_def tcb0_def meeting_example_def split: if_splits)
  then have "ready_inv (\<lambda>_. []) meeting_example" by (rule ready_inv_view) (simp_all add: meeting_example_def)
  then have "sched_inv meeting_example" by (auto simp: sched_inv_def action_ok_def meeting_example_def ks0_def)
  then have rel: "ep_rel ?D 32 ?r meeting_example"
    by (auto simp: ep_rel_def waiting_def no_buffer_def client_ok_def meeting_example_def tcb0_def isRunnable_def
        ep_queue_def ep_ptr_get_queue_def dll_def fun_eq_iff)
  let ?regs' = "?regs(0x30400 := pass (?regs 0x10400) ((?regs 0x30400)(badgeRegister := 0)) 7)"
  have "ep_spec_run ?D [Recv False 0x30400, Send True True 0x10400 7, Send True False 0x20400 9, Recv True 0x30400] ?r
      = Some \<lparr>regs = ?regs', senders = [(0x20400, 9)], receivers = []\<rparr>"
    by (simp add: waiting_def)
  from endpoint_is_rendezvous [OF rel _ _ this, of "EndpointCap 0 False False True True 32"] obtain s' where
    s': "ep_run (EndpointCap 0 False False True True 32) [Recv False 0x30400, Send True True 0x10400 7, Send True False 0x20400 9, Recv True 0x30400] meeting_example = Some s'"
      "ep_rel ?D 32 \<lparr>regs = ?regs', senders = [(0x20400, 9)], receivers = []\<rparr> s'" by (simp del: ep_run.simps) blast
  then obtain t where "tcbs s' 0x30400 = Some t" "tcbContext t = ?regs' 0x30400" by (auto simp: ep_rel_def client_ok_def)
  moreover have "message_length 0 0 (?regs 0x10400) = 1"
    by (simp add: message_length_def transferred_def MI_get_length_def n_msgRegisters_def)
  ultimately show ?thesis using s'(1) by (auto simp: pass_def delivered_def msgRegisters_def)
qed

end
