(* ===== verification/K_Fault.thy ===== *)
theory K_Fault
  imports K_Transfer
begin

text \<open>
  Fault messages: the handler of an unknown system call or of a user exception gets the registers of
  the thread that faulted as a message, and the words of its reply become the registers again.
\<close>

section \<open>Words of a message\<close>

definition get_word :: "ptr \<Rightarrow> ptr \<Rightarrow> nat \<Rightarrow> kstate \<Rightarrow> u64 option" where
  "get_word h buf i s = (if i < n_msgRegisters then getRegister h (msgRegisters ! i) s else buf_load buf (i + 1) s)"

definition put_word :: "ptr \<Rightarrow> ptr \<Rightarrow> nat \<Rightarrow> u64 \<Rightarrow> kstate \<Rightarrow> kstate" where
  "put_word h buf i v s =
     (if i < n_msgRegisters
      then s\<lparr>tcbs := (tcbs s)(h := map_option (tcbContext_update (\<lambda>c. c(msgRegisters ! i := v))) (tcbs s h))\<rparr>
      else s\<lparr>user_mem := (user_mem s)(buf_addr buf (i + 1) \<mapsto> v)\<rparr>)"




lemma put_word_frame [simp]:
  "x \<noteq> h \<Longrightarrow> tcbs (put_word h buf i v s) x = tcbs s x"
  "ctes (put_word h buf i v s) = ctes s"
  by (simp_all add: put_word_def)








section \<open>Fault to message\<close>







section \<open>Message to registers\<close>

lemma get_word_other:
  assumes "h \<noteq> f"
  shows "get_word h buf i (s\<lparr>tcbs := (tcbs s)(f \<mapsto> t)\<rparr>) = get_word h buf i s"
  using assms by (simp add: get_word_def getRegister_def buf_load_def)

text \<open>The state in which the registers \<open>R\<close> of the thread \<open>f\<close> have the sanitised values of \<open>u\<close>.\<close>

definition restored :: "ptr \<Rightarrow> register set \<Rightarrow> (register \<Rightarrow> u64) \<Rightarrow> kstate \<Rightarrow> kstate" where
  "restored f R u s = s\<lparr>tcbs := (tcbs s)(f := map_option (\<lambda>t. t\<lparr>tcbContext :=
     (\<lambda>r. if r \<in> R then sanitiseRegister r (u r) False else tcbContext t r)\<rparr>) (tcbs s f))\<rparr>"




lemma restored_thread [simp]: "tcbs (restored f R u s) f = None \<longleftrightarrow> tcbs s f = None"
  by (simp add: restored_def)





section \<open>Property\<close>









end
