(* ===== verification/K_Retype.thy ===== *)
theory K_Retype
  imports K_Message
begin

text \<open>
  Creation of objects from untyped memory (src/kernel/src/object/untyped.c, the creation functions
  of objecttype.c) and preemption (src/kernel/src/model/preemption.c).

  The memory of an object is one entry of the heap of its type, so that creating an object adds
  the entries zeroed memory stands for, as the annotations of the source say, and removes whatever
  the heaps still hold in its region. Clearing memory, copying the kernel's mappings and the
  initial state of the FPU are recorded as calls.
\<close>

section \<open>Object types and sizes\<close>

definition seL4_UntypedObject :: u64 where "seL4_UntypedObject = 0"
definition seL4_TCBObject :: u64 where "seL4_TCBObject = 1"
definition seL4_EndpointObject :: u64 where "seL4_EndpointObject = 2"
definition seL4_NotificationObject :: u64 where "seL4_NotificationObject = 3"
definition seL4_CapTableObject :: u64 where "seL4_CapTableObject = 4"
definition seL4_NonArchObjectTypeCount :: u64 where "seL4_NonArchObjectTypeCount = 5"
definition seL4_X86_PDPTObject :: u64 where "seL4_X86_PDPTObject = 5"
definition seL4_X64_PML4Object :: u64 where "seL4_X64_PML4Object = 6"
definition seL4_X64_HugePageObject :: u64 where "seL4_X64_HugePageObject = 7"
definition seL4_X86_4K :: u64 where "seL4_X86_4K = 8"
definition seL4_X86_LargePageObject :: u64 where "seL4_X86_LargePageObject = 9"
definition seL4_X86_PageTableObject :: u64 where "seL4_X86_PageTableObject = 10"
definition seL4_X86_PageDirectoryObject :: u64 where "seL4_X86_PageDirectoryObject = 11"
definition seL4_ObjectTypeCount :: u64 where "seL4_ObjectTypeCount = 12"
definition seL4_X86_IOPageTableObject :: u64 where "seL4_X86_IOPageTableObject = 0xffffff"

lemmas object_types = seL4_UntypedObject_def seL4_TCBObject_def seL4_EndpointObject_def seL4_NotificationObject_def
  seL4_CapTableObject_def seL4_NonArchObjectTypeCount_def seL4_X86_PDPTObject_def seL4_X64_PML4Object_def
  seL4_X64_HugePageObject_def seL4_X86_4K_def seL4_X86_LargePageObject_def seL4_X86_PageTableObject_def
  seL4_X86_PageDirectoryObject_def seL4_ObjectTypeCount_def seL4_X86_IOPageTableObject_def

definition seL4_MaxUntypedBits :: u64 where "seL4_MaxUntypedBits = 47"

definition Mode_getObjectSize :: "u64 \<Rightarrow> u64 option" where
  "Mode_getObjectSize t =
     (if t = seL4_X64_PML4Object then Some seL4_PageTableBits
      else if t = seL4_X64_HugePageObject then pageBitsForSize X64_HugePage
      else None)"

definition Arch_getObjectSize :: "u64 \<Rightarrow> u64 option" where
  "Arch_getObjectSize t =
     (if t = seL4_X86_4K then pageBitsForSize X86_SmallPage
      else if t = seL4_X86_LargePageObject then pageBitsForSize X86_LargePage
      else if t = seL4_X86_PageTableObject then Some seL4_PageTableBits
      else if t = seL4_X86_PageDirectoryObject then Some seL4_PageTableBits
      else if t = seL4_X86_PDPTObject then Some seL4_PageTableBits
      else if t = seL4_X86_IOPageTableObject then Some seL4_PageTableBits
      else Mode_getObjectSize t)"

definition getObjectSize :: "u64 \<Rightarrow> u64 \<Rightarrow> u64 option" where
  "getObjectSize t userObjSize =
     (if t \<ge> seL4_NonArchObjectTypeCount then Arch_getObjectSize t
      else if t = seL4_TCBObject then Some seL4_TCBBits
      else if t = seL4_EndpointObject then Some seL4_EndpointBits
      else if t = seL4_NotificationObject then Some seL4_NotificationBits
      else if t = seL4_CapTableObject then Some (of_nat seL4_SlotBits + userObjSize)
      else if t = seL4_UntypedObject then Some userObjSize
      else None)"

definition Arch_isFrameType :: "u64 \<Rightarrow> bool" where
  "Arch_isFrameType t \<longleftrightarrow> t = seL4_X86_4K \<or> t = seL4_X86_LargePageObject \<or> t = seL4_X64_HugePageObject"

section \<open>Creating objects\<close>

text \<open>The region of \<open>2 ^ bits\<close> bytes at \<open>base\<close>.\<close>

definition in_region :: "u64 \<Rightarrow> u64 \<Rightarrow> u64 \<Rightarrow> bool" where
  "in_region base bits a \<longleftrightarrow> a - base < BIT bits"

definition clear_region :: "u64 \<Rightarrow> u64 \<Rightarrow> kstate \<Rightarrow> kstate" where
  "clear_region base bits s = s\<lparr>
     tcbs := (\<lambda>a. if in_region base bits a then None else tcbs s a),
     ctes := (\<lambda>a. if in_region base bits a then None else ctes s a),
     eps := (\<lambda>a. if in_region base bits a then None else eps s a),
     ntfns := (\<lambda>a. if in_region base bits a then None else ntfns s a),
     user_mem := (\<lambda>a. if in_region base bits a then None else user_mem s a)\<rparr>"

definition cte0 :: cte where
  "cte0 = \<lparr>cteCap = NullCap, cteMDBNode = nullMDBNode\<rparr>"

definition new_ctes :: "ptr \<Rightarrow> u64 \<Rightarrow> kstate \<Rightarrow> kstate" where
  "new_ctes base n s = s\<lparr>ctes := (\<lambda>a. if (a - base) AND 31 = 0 \<and> drop_bit seL4_SlotBits (a - base) < n then Some cte0 else ctes s a)\<rparr>"

definition new_frame :: "bool \<Rightarrow> u64 \<Rightarrow> u64 \<Rightarrow> kstate \<Rightarrow> kstate" where
  "new_frame deviceMemory base bits s =
     (if deviceMemory then s
      else s\<lparr>user_mem := (\<lambda>a. if in_region base bits a \<and> a AND 7 = 0 then Some 0 else user_mem s a)\<rparr>)"

definition Mode_createObject :: "u64 \<Rightarrow> u64 \<Rightarrow> u64 \<Rightarrow> bool \<Rightarrow> kstate \<Rightarrow> (cap \<times> kstate) option" where
  "Mode_createObject t regionBase userSize deviceMemory s =
     (if t = seL4_X86_4K then
        Some (ArchObjectCap (FrameCap asidInvalid regionBase X86_SmallPage X86_MappingNone 0 VMReadWrite deviceMemory),
              new_frame deviceMemory regionBase seL4_PageBits s)
      else if t = seL4_X86_LargePageObject then
        Some (ArchObjectCap (FrameCap asidInvalid regionBase X86_LargePage X86_MappingNone 0 VMReadWrite deviceMemory),
              new_frame deviceMemory regionBase seL4_LargePageBits s)
      else if t = seL4_X64_HugePageObject then
        Some (ArchObjectCap (FrameCap asidInvalid regionBase X64_HugePage X86_MappingNone 0 VMReadWrite deviceMemory),
              new_frame deviceMemory regionBase seL4_HugePageBits s)
      else if t = seL4_X86_PageTableObject then Some (ArchObjectCap (PageTableCap asidInvalid regionBase False 0), s)
      else if t = seL4_X86_PageDirectoryObject then Some (ArchObjectCap (PageDirectoryCap asidInvalid regionBase False 0), s)
      else if t = seL4_X86_PDPTObject then Some (ArchObjectCap (PDPTCap asidInvalid regionBase False 0), s)
      else if t = seL4_X64_PML4Object then
        Some (ArchObjectCap (PML4Cap asidInvalid regionBase False), mach (Op_copyGlobalMappings regionBase) s)
      else None)"

definition Arch_createObject :: "u64 \<Rightarrow> u64 \<Rightarrow> u64 \<Rightarrow> bool \<Rightarrow> kstate \<Rightarrow> (cap \<times> kstate) option" where
  "Arch_createObject t regionBase userSize deviceMemory = Mode_createObject t regionBase userSize deviceMemory"

definition SEL_CS_3 :: u64 where "SEL_CS_3 = 0x2B"
definition SEL_DS_3 :: u64 where "SEL_DS_3 = 0x33"
definition FLAGS_USER_DEFAULT :: u64 where "FLAGS_USER_DEFAULT = FLAGS_IF OR FLAGS_HIGH"

definition Mode_initContext :: "(register \<Rightarrow> u64) \<Rightarrow> register \<Rightarrow> u64" where
  "Mode_initContext context r =
     (if r \<in> {RAX, RBX, RCX, RDX, RSI, RDI, RBP, R8, R9, R10, R11, R12, R13, R14, R15, RSP} then 0 else context r)"

definition Arch_initContext :: "(register \<Rightarrow> u64) \<Rightarrow> register \<Rightarrow> u64" where
  "Arch_initContext context = (Mode_initContext context)(FS_BASE := 0, GS_BASE := 0, Error := 0, FaultIP := 0, NextIP := 0,
     CS := SEL_CS_3, FLAGS := FLAGS_USER_DEFAULT, SS := SEL_DS_3)"

definition TCB_OFFSET :: u64 where "TCB_OFFSET = BIT (seL4_TCBBits - 1)"

definition createObject :: "u64 \<Rightarrow> u64 \<Rightarrow> u64 \<Rightarrow> bool \<Rightarrow> kstate \<Rightarrow> (cap \<times> kstate) option" where
  "createObject t regionBase userSize deviceMemory s =
     (if t \<ge> seL4_NonArchObjectTypeCount then Arch_createObject t regionBase userSize deviceMemory s
      else if t = seL4_TCBObject then do {
        let tcb = regionBase + TCB_OFFSET;
        let s = new_ctes regionBase tcbCNodeEntries s;
        let s = s\<lparr>tcbs := (tcbs s)(tcb \<mapsto> tcb0\<lparr>tcbContext := Arch_initContext (tcbContext tcb0),
                    tcbTimeSlice := CONFIG_TIME_SLICE, tcbDomain := ksCurDomain s\<rparr>)\<rparr>;
        let s = mach (Op_initFpuContext tcb) s;
        s \<leftarrow> tcbDebugAppend tcb s;
        Some (ThreadCap tcb, s) }
      else if t = seL4_EndpointObject then
        Some (EndpointCap 0 True True True True regionBase,
              s\<lparr>eps := (eps s)(regionBase \<mapsto> \<lparr>epQueue_head = 0, epQueue_tail = 0, ep_state = EPState_Idle\<rparr>)\<rparr>)
      else if t = seL4_NotificationObject then
        Some (NotificationCap 0 True True regionBase,
              s\<lparr>ntfns := (ntfns s)(regionBase \<mapsto> \<lparr>ntfnBoundTCB = 0, ntfnMsgIdentifier = 0, ntfnQueue_head = 0,
                          ntfnQueue_tail = 0, ntfn_state = NtfnState_Idle\<rparr>)\<rparr>)
      else if t = seL4_CapTableObject then
        Some (CNodeCap userSize 0 0 regionBase, new_ctes regionBase (BIT userSize) s)
      else if t = seL4_UntypedObject then Some (UntypedCap 0 deviceMemory userSize regionBase, s)
      else None)"

text \<open>The loop of createNewObjects from iteration \<open>i\<close> on, \<open>k\<close> iterations.\<close>

fun createNewObjects_loop :: "nat \<Rightarrow> u64 \<Rightarrow> u64 \<Rightarrow> ptr \<Rightarrow> ptr \<Rightarrow> u64 \<Rightarrow> u64 \<Rightarrow> u64 \<Rightarrow> u64 \<Rightarrow> bool \<Rightarrow> kstate \<Rightarrow> kstate option" where
  "createNewObjects_loop 0 i t parent destCNode destOffset nextFreeArea objectSize userSize deviceMemory s = Some s"
| "createNewObjects_loop (Suc k) i t parent destCNode destOffset nextFreeArea objectSize userSize deviceMemory s =
     do { let area = nextFreeArea + push_bit (unat objectSize) i;
          (c, s) \<leftarrow> createObject t area userSize deviceMemory (clear_region area objectSize s);
          s \<leftarrow> insertNewCap parent (cte_index destCNode (destOffset + i)) c s;
          createNewObjects_loop k (i + 1) t parent destCNode destOffset nextFreeArea objectSize userSize deviceMemory s }"

definition createNewObjects :: "u64 \<Rightarrow> ptr \<Rightarrow> ptr \<Rightarrow> u64 \<Rightarrow> u64 \<Rightarrow> u64 \<Rightarrow> u64 \<Rightarrow> bool \<Rightarrow> kstate \<Rightarrow> kstate option" where
  "createNewObjects t parent destCNode destOffset destLength regionBase userSize deviceMemory s =
     do { objectSize \<leftarrow> getObjectSize t userSize;
          createNewObjects_loop (unat destLength) 0 t parent destCNode destOffset regionBase objectSize userSize deviceMemory s }"

section \<open>Preemption\<close>

definition CONFIG_MAX_NUM_WORK_UNITS_PER_PREEMPTION :: u64 where "CONFIG_MAX_NUM_WORK_UNITS_PER_PREEMPTION = 100"

definition isIRQPending :: "kstate \<Rightarrow> bool \<times> kstate" where
  "isIRQPending s = (case irq_polls s of [] \<Rightarrow> (False, s) | b # bs \<Rightarrow> (b, s\<lparr>irq_polls := bs\<rparr>))"

definition preemptionPoint :: "kstate \<Rightarrow> exception \<times> kstate" where
  "preemptionPoint s =
     (let s = s\<lparr>ksWorkUnitsCompleted := ksWorkUnitsCompleted s + 1\<rparr> in
      if ksWorkUnitsCompleted s \<ge> CONFIG_MAX_NUM_WORK_UNITS_PER_PREEMPTION then
        let s = s\<lparr>ksWorkUnitsCompleted := 0\<rparr>; (pending, s) = isIRQPending s
        in (if pending then EXCEPTION_PREEMPTED else EXCEPTION_NONE, s)
      else (EXCEPTION_NONE, s))"

section \<open>Untyped memory\<close>

definition CONFIG_RETYPE_FAN_OUT_LIMIT :: u64 where "CONFIG_RETYPE_FAN_OUT_LIMIT = 256"
definition CONFIG_RESET_CHUNK_BITS :: u64 where "CONFIG_RESET_CHUNK_BITS = 8"
definition UntypedRetype :: u64 where "UntypedRetype = 1"

definition alignUp :: "u64 \<Rightarrow> u64 \<Rightarrow> u64" where
  "alignUp baseValue alignment = (baseValue + (BIT alignment - 1)) AND NOT (MASK alignment)"

definition FREE_INDEX_TO_OFFSET :: "u64 \<Rightarrow> u64" where
  "FREE_INDEX_TO_OFFSET freeIndex = push_bit (unat seL4_MinUntypedBits) freeIndex"

definition GET_FREE_REF :: "u64 \<Rightarrow> u64 \<Rightarrow> u64" where
  "GET_FREE_REF base freeIndex = base + FREE_INDEX_TO_OFFSET freeIndex"

definition GET_FREE_INDEX :: "u64 \<Rightarrow> u64 \<Rightarrow> u64" where
  "GET_FREE_INDEX base free = drop_bit (unat seL4_MinUntypedBits) (free - base)"

definition OFFSET_TO_FREE_INDEX :: "u64 \<Rightarrow> u64" where
  "OFFSET_TO_FREE_INDEX offset = drop_bit (unat seL4_MinUntypedBits) offset"

definition ROUND_DOWN :: "u64 \<Rightarrow> u64 \<Rightarrow> u64" where
  "ROUND_DOWN n b = push_bit (unat b) (drop_bit (unat b) n)"

text \<open>The accessor of the bitfield generator asserts that the value fits the 48 bits of the field.\<close>

definition set_capFreeIndex :: "cap \<Rightarrow> u64 \<Rightarrow> cap option" where
  "set_capFreeIndex c v = (case c of
       UntypedCap _ dev sz p \<Rightarrow> do { k_assert (v AND NOT (mask 48) = 0); Some (UntypedCap v dev sz p) }
     | _ \<Rightarrow> None)"

definition write_cap :: "ptr \<Rightarrow> cap \<Rightarrow> kstate \<Rightarrow> kstate option" where
  "write_cap slot c = cte_upd slot (cteCap_update (\<lambda>_. c))"

definition clearMemory :: "u64 \<Rightarrow> u64 \<Rightarrow> kstate \<Rightarrow> kstate" where
  "clearMemory p bits s = mach (Op_clearMemory p bits) s"

partial_function (option) reset_loop :: "ptr \<Rightarrow> cap \<Rightarrow> u64 \<Rightarrow> u64 \<Rightarrow> kstate \<Rightarrow> (exception \<times> kstate) option" where
  "reset_loop srcSlot prev_cap regionBase offset s =
     (if offset = - BIT CONFIG_RESET_CHUNK_BITS then Some (EXCEPTION_NONE, s)
      else do {
        let s = clearMemory (regionBase + offset) CONFIG_RESET_CHUNK_BITS s;
        c \<leftarrow> set_capFreeIndex prev_cap (OFFSET_TO_FREE_INDEX offset);
        s \<leftarrow> write_cap srcSlot c s;
        let (status, s) = preemptionPoint s;
        if status \<noteq> EXCEPTION_NONE then Some (status, s)
        else reset_loop srcSlot prev_cap regionBase (offset - BIT CONFIG_RESET_CHUNK_BITS) s })"

definition resetUntypedCap :: "ptr \<Rightarrow> kstate \<Rightarrow> (exception \<times> kstate) option" where
  "resetUntypedCap srcSlot s =
     do { e \<leftarrow> ctes s srcSlot;
          let prev_cap = cteCap e;
          k_assert (is_UntypedCap prev_cap);
          let block_size = capBlockSize prev_cap;
          let regionBase = capPtr prev_cap;
          let offset = FREE_INDEX_TO_OFFSET (capFreeIndex prev_cap);
          let deviceMemory = capIsDevice prev_cap;
          if offset = 0 then Some (EXCEPTION_NONE, s)
          else do {
            let s = clear_region regionBase block_size s;
            if deviceMemory \<or> block_size < CONFIG_RESET_CHUNK_BITS then do {
              let s = (if \<not> deviceMemory then clearMemory regionBase block_size s else s);
              c \<leftarrow> set_capFreeIndex prev_cap 0;
              s \<leftarrow> write_cap srcSlot c s;
              Some (EXCEPTION_NONE, s) }
            else reset_loop srcSlot prev_cap regionBase (ROUND_DOWN (offset - 1) CONFIG_RESET_CHUNK_BITS) s } }"

definition invokeUntyped_Retype :: "ptr \<Rightarrow> bool \<Rightarrow> u64 \<Rightarrow> u64 \<Rightarrow> u64 \<Rightarrow> ptr \<Rightarrow> u64 \<Rightarrow> u64 \<Rightarrow> bool \<Rightarrow> kstate \<Rightarrow>
    (exception \<times> kstate) option" where
  "invokeUntyped_Retype srcSlot reset retypeBase newType userSize destCNode destOffset destLength deviceMemory s =
     do { e \<leftarrow> ctes s srcSlot;
          k_assert (is_UntypedCap (cteCap e));
          let regionBase = capPtr (cteCap e);
          (status, s) \<leftarrow> (if reset then resetUntypedCap srcSlot s else Some (EXCEPTION_NONE, s));
          if status \<noteq> EXCEPTION_NONE then Some (status, s)
          else do {
            bits \<leftarrow> getObjectSize newType userSize;
            let totalObjectSize = push_bit (unat bits) destLength;
            let freeRef = retypeBase + totalObjectSize;
            e \<leftarrow> ctes s srcSlot;
            c \<leftarrow> set_capFreeIndex (cteCap e) (GET_FREE_INDEX regionBase freeRef);
            s \<leftarrow> write_cap srcSlot c s;
            s \<leftarrow> createNewObjects newType srcSlot destCNode destOffset destLength retypeBase userSize deviceMemory s;
            Some (EXCEPTION_NONE, s) } }"

definition getSyscallArg :: "nat \<Rightarrow> ptr \<Rightarrow> kstate \<Rightarrow> u64 option" where
  "getSyscallArg i ipc_buffer s =
     (if i < n_msgRegisters then getRegister (ksCurThread s) (msgRegisters ! i) s
      else do { k_assert (ipc_buffer \<noteq> 0); buf_load ipc_buffer (i + 1) s })"

text \<open>The check that \<open>k\<close> slots from index \<open>i\<close> on are empty.\<close>

fun window_empty :: "nat \<Rightarrow> u64 \<Rightarrow> ptr \<Rightarrow> kstate \<Rightarrow> (exception \<times> kstate) option" where
  "window_empty 0 i destCNode s = Some (EXCEPTION_NONE, s)"
| "window_empty (Suc k) i destCNode s =
     do { (status, s) \<leftarrow> ensureEmptySlot (cte_index destCNode i) s;
          if status \<noteq> EXCEPTION_NONE then Some (status, s) else window_empty k (i + 1) destCNode s }"

text \<open>The part of decodeUntypedInvocation after the checks of the arguments: where to start and
  whether there is enough memory.\<close>

definition decodeUntyped_memory :: "ptr \<Rightarrow> cap \<Rightarrow> u64 \<Rightarrow> u64 \<Rightarrow> u64 \<Rightarrow> ptr \<Rightarrow> u64 \<Rightarrow> u64 \<Rightarrow> kstate \<Rightarrow> (exception \<times> kstate) option" where
  "decodeUntyped_memory slot c newType userObjSize objectSize destCNode nodeOffset nodeWindow s =
     do { (status, s) \<leftarrow> ensureNoChildren slot s;
          let (freeIndex, reset) = (if status \<noteq> EXCEPTION_NONE then (capFreeIndex c, False) else (0, True));
          let freeRef = GET_FREE_REF (capPtr c) freeIndex;
          let untypedFreeBytes = BIT (capBlockSize c) - FREE_INDEX_TO_OFFSET freeIndex;
          if drop_bit (unat objectSize) untypedFreeBytes < nodeWindow
          then Some (EXCEPTION_SYSCALL_ERROR, s\<lparr>current_syscall_error := NotEnoughMemory untypedFreeBytes\<rparr>)
          else do {
            let deviceMemory = capIsDevice c;
            if (deviceMemory \<and> \<not> Arch_isFrameType newType) \<and> newType \<noteq> seL4_UntypedObject
            then Some (EXCEPTION_SYSCALL_ERROR, s\<lparr>current_syscall_error := InvalidArgument 1\<rparr>)
            else do {
              let alignedFreeRef = alignUp freeRef objectSize;
              s \<leftarrow> setThreadState (ksCurThread s) ThreadState_Restart s;
              invokeUntyped_Retype slot reset alignedFreeRef newType userObjSize destCNode nodeOffset nodeWindow deviceMemory s } } }"

definition decodeUntypedInvocation :: "u64 \<Rightarrow> u64 \<Rightarrow> ptr \<Rightarrow> cap \<Rightarrow> bool \<Rightarrow> ptr \<Rightarrow> kstate \<Rightarrow> (exception \<times> kstate) option" where
  "decodeUntypedInvocation invLabel len slot c call buffer s =
     (if invLabel \<noteq> UntypedRetype
      then Some (EXCEPTION_SYSCALL_ERROR, s\<lparr>current_syscall_error := IllegalOperation\<rparr>)
      else if len < 6 \<or> current_extra_caps s 0 = 0
      then Some (EXCEPTION_SYSCALL_ERROR, s\<lparr>current_syscall_error := TruncatedMessage\<rparr>)
      else do {
        newType \<leftarrow> getSyscallArg 0 buffer s;
        userObjSize \<leftarrow> getSyscallArg 1 buffer s;
        nodeIndex \<leftarrow> getSyscallArg 2 buffer s;
        nodeDepth \<leftarrow> getSyscallArg 3 buffer s;
        nodeOffset \<leftarrow> getSyscallArg 4 buffer s;
        nodeWindow \<leftarrow> getSyscallArg 5 buffer s;
        let rootSlot = current_extra_caps s 0;
        if newType \<ge> seL4_ObjectTypeCount
        then Some (EXCEPTION_SYSCALL_ERROR, s\<lparr>current_syscall_error := InvalidArgument 0\<rparr>)
        else do {
          objectSize \<leftarrow> getObjectSize newType userObjSize;
          if userObjSize \<ge> wordBits \<or> objectSize > seL4_MaxUntypedBits
          then Some (EXCEPTION_SYSCALL_ERROR, s\<lparr>current_syscall_error := RangeError 0 seL4_MaxUntypedBits\<rparr>)
          else if newType = seL4_CapTableObject \<and> userObjSize = 0
          then Some (EXCEPTION_SYSCALL_ERROR, s\<lparr>current_syscall_error := InvalidArgument 1\<rparr>)
          else if newType = seL4_UntypedObject \<and> userObjSize < seL4_MinUntypedBits
          then Some (EXCEPTION_SYSCALL_ERROR, s\<lparr>current_syscall_error := InvalidArgument 1\<rparr>)
          else do {
            root \<leftarrow> ctes s rootSlot;
            (status, node_slot, s) \<leftarrow> (if nodeDepth = 0 then Some (EXCEPTION_NONE, rootSlot, s)
                                       else lookupTargetSlot (cteCap root) nodeIndex nodeDepth s);
            if status \<noteq> EXCEPTION_NONE then Some (status, s)
            else do {
              node \<leftarrow> ctes s node_slot;
              let nodeCap = cteCap node;
              if \<not> is_CNodeCap nodeCap
              then Some (EXCEPTION_SYSCALL_ERROR, s\<lparr>current_syscall_error := FailedLookup False,
                     current_lookup_fault := LUF_MissingCapability nodeDepth\<rparr>)
              else do {
                let nodeSize = BIT (capCNodeRadix nodeCap);
                if nodeOffset > nodeSize - 1
                then Some (EXCEPTION_SYSCALL_ERROR, s\<lparr>current_syscall_error := RangeError 0 (nodeSize - 1)\<rparr>)
                else if nodeWindow < 1 \<or> nodeWindow > CONFIG_RETYPE_FAN_OUT_LIMIT
                then Some (EXCEPTION_SYSCALL_ERROR, s\<lparr>current_syscall_error := RangeError 1 CONFIG_RETYPE_FAN_OUT_LIMIT\<rparr>)
                else if nodeWindow > nodeSize - nodeOffset
                then Some (EXCEPTION_SYSCALL_ERROR, s\<lparr>current_syscall_error := RangeError 1 (nodeSize - nodeOffset)\<rparr>)
                else do {
                  let destCNode = capCNodePtr nodeCap;
                  (status, s) \<leftarrow> window_empty (unat nodeWindow) nodeOffset destCNode s;
                  if status \<noteq> EXCEPTION_NONE then Some (status, s)
                  else decodeUntyped_memory slot c newType userObjSize objectSize destCNode nodeOffset nodeWindow s } } } } } })"

end
