(* ===== verification/K_Decode.thy ===== *)
theory K_Decode
  imports K_Retype
begin

text \<open>
  What the decoders of the invocations share: branches that report an error, and helpers that
  leave the slots unchanged.
\<close>

lemma error_branch:
  "(if b then Some (EXCEPTION_SYSCALL_ERROR, x) else y) = Some (EXCEPTION_NONE, z) \<longleftrightarrow> \<not> b \<and> y = Some (EXCEPTION_NONE, z)"
  "(if st \<noteq> EXCEPTION_NONE then Some (st, x) else y) = Some (EXCEPTION_NONE, z) \<longleftrightarrow> st = EXCEPTION_NONE \<and> y = Some (EXCEPTION_NONE, z)"
  by auto

lemma lookupSlot_ok: "lookupSlotForCNodeOp b r i d s = Some (EXCEPTION_NONE, slot, s') \<Longrightarrow> s' = s"
  by (auto simp: lookupSlotForCNodeOp_def resolveAddressBits_def bind_eq_Some_conv split: if_splits option.splits sum.splits)

lemmas lookupTargetSlot_ok = lookupSlot_ok [where b = False, folded lookupTargetSlot_def]
lemmas lookupSourceSlot_ok = lookupSlot_ok [where b = True, folded lookupSourceSlot_def]

lemma lookupSlot_ctes: "lookupSlotForCNodeOp b r i d s = Some (st, slot, s') \<Longrightarrow> ctes s' = ctes s"
  by (auto simp: lookupSlotForCNodeOp_def resolveAddressBits_def bind_eq_Some_conv split: if_splits option.splits sum.splits)

lemma ensureEmptySlot_frame:
  "ensureEmptySlot slot s = Some (st, s') \<Longrightarrow> ctes s' = ctes s \<and> (st = EXCEPTION_NONE \<longrightarrow> s' = s)"
  by (auto simp: ensureEmptySlot_def bind_eq_Some_conv split: if_splits)

lemma ensureNoChildren_frame:
  "ensureNoChildren slot s = Some (st, s') \<Longrightarrow> ctes s' = ctes s \<and> ksCurThread s' = ksCurThread s"
  by (auto simp: ensureNoChildren_def bind_eq_Some_conv split: if_splits)

lemma deriveCap_frame:
  "deriveCap slot c s = Some (st, d, s') \<Longrightarrow> ctes s' = ctes s \<and> tcbs s' = tcbs s \<and> ksCurThread s' = ksCurThread s"
  by (auto simp: deriveCap_def Arch_deriveCap_def Mode_deriveCap_def derive_mapped_def ensureNoChildren_def bind_eq_Some_conv
      split: cap.splits arch_cap.splits if_splits)

lemma setThreadState_Restart_ctes: "setThreadState t ThreadState_Restart s = Some s' \<Longrightarrow> ctes s' = ctes s"
  by (auto simp: setThreadState_def scheduleTCB_def upd_Some bind_eq_Some_conv isRunnable_def)

section \<open>Errors leave the slots unchanged\<close>

definition keeps_on_error :: "cte_heap \<Rightarrow> (exception \<times> kstate) option \<Rightarrow> bool" where
  "keeps_on_error h m \<longleftrightarrow> (\<forall>st s'. m = Some (st, s') \<longrightarrow> st \<noteq> EXCEPTION_NONE \<longrightarrow> ctes s' = h)"

lemma keeps_None: "keeps_on_error h None"
  by (simp add: keeps_on_error_def)

lemma keeps_bind: "(\<And>x. m = Some x \<Longrightarrow> keeps_on_error h (f x)) \<Longrightarrow> keeps_on_error h (m \<bind> f)"
  by (auto simp: keeps_on_error_def bind_eq_Some_conv)

lemma keeps_case: "(\<And>x y. p = (x, y) \<Longrightarrow> keeps_on_error h (f x y)) \<Longrightarrow> keeps_on_error h (case p of (x, y) \<Rightarrow> f x y)"
  by (simp split: prod.split)

lemma keeps_if: "(b \<Longrightarrow> keeps_on_error h x) \<Longrightarrow> (\<not> b \<Longrightarrow> keeps_on_error h y) \<Longrightarrow> keeps_on_error h (if b then x else y)"
  by simp

lemma keeps_Some: "(st \<noteq> EXCEPTION_NONE \<Longrightarrow> ctes s = h) \<Longrightarrow> keeps_on_error h (Some (st, s))"
  by (simp add: keeps_on_error_def)

lemmas keeps_intros = keeps_None keeps_bind keeps_case keeps_if keeps_Some

end
