(* ===== verification/K_Untyped.thy ===== *)
theory K_Untyped
  imports K_Transfer K_Decode
begin

text \<open>
  Retyping stays within the untyped memory: the objects created by one invocation lie aligned and
  side by side in the free part of the region.
\<close>

section \<open>Alignment\<close>

lemma u64_lt: "unat (x :: u64) < 2 ^ 64"
  using unsigned_less [of x] by simp

lemma unat_BIT:
  assumes "unat n < 64"
  shows "unat (BIT n) = 2 ^ unat n"
proof -
  have "BIT n = of_nat (2 ^ unat n)" by (simp add: BIT_def push_bit_eq_mult)
  moreover have "(2 :: nat) ^ unat n < 2 ^ 64" using assms by (intro power_strict_increasing) simp_all
  ultimately show ?thesis by (simp only: unat_of_nat len_num0 len_num1 len_bit0 mod_less) simp
qed

lemma MASK_mask: "MASK n = mask (unat n)"
  by (simp add: MASK_def BIT_def mask_eq_exp_minus_1)

lemma unat_and_not_mask: "unat (x AND NOT (mask n)) = unat x div 2 ^ n * 2 ^ n" for x :: u64
proof -
  have "uint (x AND NOT (mask n)) = uint x AND NOT (mask n)"
    by (rule bit_eqI) (auto simp: bit_simps dest: bit_imp_le_length)
  moreover have "(k AND NOT (mask n)) + take_bit n k = k" for k :: int
    by (subst disjunctive_add) (auto simp: bit_simps intro: bit_eqI)
  then have "k AND NOT (mask n) = k div 2 ^ n * 2 ^ n" for k :: int
    by (metis add_diff_cancel_right' take_bit_eq_mod minus_mod_eq_div_mult)
  ultimately have "int (unat (x AND NOT (mask n))) = int (unat x div 2 ^ n * 2 ^ n)"
    by (simp only: uint_nat of_nat_mult zdiv_int of_nat_power of_nat_numeral)
  then show ?thesis by (simp only: of_nat_eq_iff)
qed

lemma round_up_le:
  assumes "m dvd y" "x \<le> y" "0 < m"
  shows "(x + (m - 1)) div m * m \<le> (y :: nat)"
proof -
  obtain k where k: "y = m * k" using assms(1) by blast
  have "(x + (m - 1)) div m < k + 1"
    using assms(2,3) k by (subst div_less_iff_less_mult) (simp_all add: algebra_simps)
  then have "(x + (m - 1)) div m \<le> k" by simp
  then have "(x + (m - 1)) div m * m \<le> k * m" by (rule mult_le_mono1)
  then show ?thesis by (simp only: k mult.commute)
qed

lemma round_up_ge: "0 < m \<Longrightarrow> x \<le> (x + (m - 1)) div m * (m :: nat)"
  using div_mult_mod_eq [of "x + (m - 1)" m] mod_less_divisor [of m "x + (m - 1)"] by linarith

text \<open>Where the objects go: \<open>n\<close> objects of size \<open>2 ^ o\<close> from the aligned end of the used part on.\<close>

lemma aligned_end: "2 ^ b dvd unat (p :: u64) \<Longrightarrow> b \<le> 64 \<Longrightarrow> unat p + 2 ^ b \<le> 2 ^ 64"
proof -
  assume b: "2 ^ b dvd unat p" "b \<le> 64"
  obtain k where k: "unat p = 2 ^ b * k" using b(1) by blast
  have "(2 :: nat) ^ 64 = 2 ^ b * 2 ^ (64 - b)" using b(2) by (simp flip: power_add)
  moreover have "unat p < 2 ^ 64" by (rule u64_lt)
  ultimately have "2 ^ b * k < 2 ^ b * 2 ^ (64 - b)" using k by (simp only:)
  then have "k < 2 ^ (64 - b)" by (simp only: mult_less_cancel1)
  then have "2 ^ b * (k + 1) \<le> 2 ^ b * (2 ^ (64 - b) :: nat)" by (intro mult_le_mono) simp_all
  then show ?thesis using k \<open>(2 :: nat) ^ 64 = 2 ^ b * 2 ^ (64 - b)\<close> by (simp add: algebra_simps)
qed

lemma alignUp_fits:
  fixes p off sz :: u64
  assumes p: "2 ^ b dvd unat p" "b \<le> 47" and off: "unat off \<le> 2 ^ b" and sz: "unat sz \<le> 47"
    and n: "1 \<le> n" "n \<le> (2 ^ b - unat off) div 2 ^ unat sz" and base: "base = alignUp (p + off) sz"
  shows "2 ^ unat sz dvd unat base" "unat p + unat off \<le> unat base" "unat base + n * 2 ^ unat sz \<le> unat p + 2 ^ b"
proof -
  let ?m = "2 ^ unat sz :: nat"
  have "n * ?m \<le> (2 ^ b - unat off) div ?m * ?m" using n(2) by simp
  also have "\<dots> \<le> 2 ^ b - unat off" by simp
  finally have fits: "unat off + n * ?m \<le> 2 ^ b" using off by simp
  have "1 * ?m \<le> n * ?m" using n(1) by (rule mult_le_mono1)
  with fits have m: "unat off + ?m \<le> 2 ^ b" by linarith
  then have "?m \<le> 2 ^ b" by linarith
  then have "unat sz \<le> b" by (rule power_le_imp_le_exp [rotated]) simp
  then have dvd: "?m dvd 2 ^ b" "?m dvd unat p" using p(1) dvd_trans [OF le_imp_power_dvd] by (simp_all add: le_imp_power_dvd)
  have end_: "unat p + 2 ^ b \<le> 2 ^ 64" using aligned_end [OF p(1)] p(2) by simp
  have pos: "0 < ?m" by simp
  have "unat p + unat off < 2 ^ 64" using m end_ pos by linarith
  then have sum: "unat (p + off) = unat p + unat off" by (intro unat_add_lem [THEN iffD1]) simp
  have sum2: "unat (p + off + (BIT sz - 1)) = unat p + unat off + (?m - 1)"
  proof -
    have "unat (BIT sz - 1) = ?m - 1" using sz by (simp add: unat_sub word_le_nat_alt unat_BIT)
    moreover have "unat p + unat off + (?m - 1) < 2 ^ 64" using m end_ pos by linarith
    ultimately show ?thesis using sum by (subst unat_add_lem [THEN iffD1]) simp_all
  qed
  have b: "unat base = (unat p + unat off + (?m - 1)) div ?m * ?m"
    by (simp add: base alignUp_def MASK_mask unat_and_not_mask sum2)
  show "2 ^ unat sz dvd unat base" by (simp add: b)
  show "unat p + unat off \<le> unat base" unfolding b by (rule round_up_ge) simp
  have "unat base \<le> unat p + 2 ^ b - n * ?m"
    unfolding b using fits dvd by (intro round_up_le) (simp_all add: dvd_diff_nat)
  then show "unat base + n * 2 ^ unat sz \<le> unat p + 2 ^ b" using fits by simp
qed

section \<open>Regions\<close>

lemma in_region_iff:
  assumes "unat base + 2 ^ unat bits \<le> 2 ^ 64" "unat bits < 64"
  shows "in_region base bits a \<longleftrightarrow> unat base \<le> unat a \<and> unat a < unat base + 2 ^ unat bits"
proof (cases "base \<le> a")
  case True
  then show ?thesis using assms(2)
    by (auto simp: in_region_def word_less_nat_alt unat_sub unat_BIT word_le_nat_alt)
next
  case False
  then have lt: "unat a < unat base" by (simp add: word_le_nat_alt)
  have "unat (a - base) = unat a + 2 ^ 64 - unat base"
    using lt by (subst unat_sub_if_size) (auto simp: word_size)
  then have "\<not> in_region base bits a" using assms by (simp add: in_region_def word_less_nat_alt unat_BIT)
  then show ?thesis using lt by simp
qed

section \<open>Creating the objects\<close>

definition caps_of :: "kstate \<Rightarrow> ptr \<rightharpoonup> cap" where
  "caps_of s x = map_option cteCap (ctes s x)"

lemma insertNewCap_caps:
  assumes "insertNewCap parent slot c s = Some s'"
  shows "caps_of s' = (caps_of s)(slot \<mapsto> c)"
proof -
  obtain h' where h': "insertNewCap_heap parent slot c (ctes s) = Some h'" "s' = s\<lparr>ctes := h'\<rparr>"
    using assms by (auto simp: insertNewCap_def on_ctes_def bind_eq_Some_conv)
  have "map_option cteCap (h' x) = (if x = slot then Some c else map_option cteCap (ctes s x))" for x
    using h'(1) by (auto simp: insertNewCap_heap_def heap_upd_def upd_nonnull_def bind_eq_Some_conv Let_def split: option.splits if_splits)
  then show ?thesis by (intro ext) (simp add: caps_of_def h'(2))
qed

lemma tcbDebugAppend_ctes: "tcbDebugAppend t s = Some s' \<Longrightarrow> ctes s' = ctes s"
  by (auto simp: tcbDebugAppend_def upd_Some bind_eq_Some_conv split: if_splits)

lemma new_ctes_outside:
  assumes "unat n * 32 \<le> 2 ^ unat bits" "unat bits < 64" "\<not> in_region base bits x"
  shows "ctes (new_ctes base n s) x = ctes s x"
proof -
  have "\<not> drop_bit seL4_SlotBits (x - base) < n"
  proof
    assume "drop_bit seL4_SlotBits (x - base) < n"
    then have "unat (x - base) div 32 < unat n" by (simp add: word_less_nat_alt drop_bit_eq_div unat_div seL4_SlotBits_def)
    then have "unat (x - base) < unat n * 32" by (simp add: div_less_iff_less_mult)
    then show False using assms by (simp add: in_region_def word_less_nat_alt unat_BIT)
  qed
  then show ?thesis by (simp add: new_ctes_def)
qed

lemma TCB_block:
  assumes "2 ^ 11 dvd unat (area :: u64)"
  shows "TCB_PTR_CTE_PTR (area + TCB_OFFSET) 0 = area"
proof -
  have "unat area + 2 ^ 11 \<le> 2 ^ 64" by (rule aligned_end [OF assms]) simp
  then have "unat (area + 1024) = unat area + 1024" by (subst unat_add_lem [THEN iffD1]) simp_all
  moreover obtain k where "unat area = 2048 * k" using assms by auto
  ultimately have "unat ((area + 1024) AND NOT (mask 11)) = unat area"
    by (simp add: unat_and_not_mask)
  then show ?thesis
    by (simp add: TCB_PTR_CTE_PTR_def cte_index_def TCB_OFFSET_def seL4_TCBBits_def MASK_mask BIT_def word_unat_eq_iff)
qed

lemma Mode_createObject_region:
  assumes "Mode_createObject t area us dev s = Some (c, s')" "Arch_getObjectSize t = Some sz"
  shows "cap_get_capPtr c = area \<and> cap_get_capSizeBits c = Some sz \<and> ctes s' = ctes s"
  using assms
  by (auto simp: Mode_createObject_def Arch_getObjectSize_def Mode_getObjectSize_def object_types new_frame_def mach_def
      pageBitsForSize_def X86_SmallPage_def X86_LargePage_def X64_HugePage_def cap_get_capPtr_def cap_get_capSizeBits_def
      cap_get_archCapPtr_def cap_get_archCapSizeBits_def split: if_splits)

lemma api_types_small: "\<not> (5 :: u64) \<le> 1" "\<not> (5 :: u64) \<le> 0"
  by (simp_all add: word_le_nat_alt)

lemma createObject_region:
  assumes run: "createObject t area us dev s = Some (c, s')" and sz: "getObjectSize t us = Some sz" "unat sz \<le> 47" "us < 64"
    and al: "2 ^ unat sz dvd unat area"
  shows "cap_get_capPtr c = area \<and> cap_get_capSizeBits c = Some sz \<and> (\<forall>x. \<not> in_region area sz x \<longrightarrow> ctes s' x = ctes s x)"
proof -
  consider "t \<ge> 5" | "t = seL4_TCBObject" | "t = seL4_EndpointObject" | "t = seL4_NotificationObject"
    | "t = seL4_CapTableObject" | "t = seL4_UntypedObject"
    using run by (auto simp: createObject_def seL4_NonArchObjectTypeCount_def split: if_splits)
  then show ?thesis
  proof cases
    case 1
    then show ?thesis
      using run sz Mode_createObject_region by (simp add: createObject_def Arch_createObject_def getObjectSize_def object_types)
  next
    case 2
    then have z: "sz = 11" using sz(1) by (simp add: getObjectSize_def object_types api_types_small seL4_TCBBits_def)
    have c: "c = ThreadCap (area + TCB_OFFSET)" and s': "ctes s' = ctes (new_ctes area tcbCNodeEntries s)"
      using run 2 by (auto simp: createObject_def object_types api_types_small mach_def bind_eq_Some_conv Let_def dest!: tcbDebugAppend_ctes)
    show ?thesis using al z TCB_block [of area] new_ctes_outside [of tcbCNodeEntries sz area _ s]
      by (simp add: c s' cap_get_capPtr_def cap_get_capSizeBits_def tcbCNodeEntries_def seL4_TCBBits_def)
  next
    case 5
    then have z: "sz = 5 + us" using sz(1) by (simp add: getObjectSize_def object_types seL4_SlotBits_def)
    have c: "c = CNodeCap us 0 0 area" "s' = new_ctes area (BIT us) s"
      using run 5 by (simp_all add: createObject_def object_types)
    have us: "unat us < 64" using sz(3) by (simp add: word_less_nat_alt)
    then have "unat sz = 5 + unat us" unfolding z by (subst unat_add_lem [THEN iffD1]) simp_all
    then show ?thesis using new_ctes_outside [of "BIT us" sz area _ s] us sz(2)
      by (simp add: c z cap_get_capPtr_def cap_get_capSizeBits_def unat_BIT power_add seL4_SlotBits_def)
  qed (use run sz(1) in \<open>auto simp: createObject_def getObjectSize_def object_types api_types_small cap_get_capPtr_def cap_get_capSizeBits_def\<close>)
qed

lemma slot_inj:
  assumes "i < 256" "j < 256" "cte_index dest (off + of_nat i) = cte_index dest (off + of_nat j)"
  shows "i = j"
proof -
  have "(32 * of_nat i :: u64) = 32 * of_nat j"
    using assms(3) by (simp add: cte_index_def push_bit_eq_mult seL4_SlotBits_def algebra_simps)
  then have "(of_nat (32 * i) :: u64) = of_nat (32 * j)" by simp
  then have "unat (of_nat (32 * i) :: u64) = unat (of_nat (32 * j) :: u64)" by (simp only:)
  then show ?thesis using assms(1,2) by (simp only: unat_of_nat) simp
qed

text \<open>\<open>free_of base k\<close>: no slot lies in the \<open>k\<close> bytes at \<open>base\<close>.\<close>

definition free_of :: "kstate \<Rightarrow> nat \<Rightarrow> nat \<Rightarrow> bool" where
  "free_of s base k \<longleftrightarrow> (\<forall>x. ctes s x \<noteq> None \<longrightarrow> \<not> (base \<le> unat x \<and> unat x < base + k))"

lemma unat_area:
  assumes "unat (base :: u64) + i * 2 ^ k + 2 ^ k \<le> 2 ^ 64"
  shows "unat (base + push_bit k (of_nat i)) = unat base + i * 2 ^ k"
proof -
  have pos: "(0 :: nat) < 2 ^ k" by simp
  have "push_bit k (of_nat i :: u64) = of_nat (i * 2 ^ k)" by (simp add: push_bit_eq_mult)
  moreover have "i * 2 ^ k < 2 ^ 64" using assms pos by linarith
  ultimately have "unat (push_bit k (of_nat i :: u64)) = i * 2 ^ k"
    by (simp only: unat_of_nat len_num0 len_num1 len_bit0 mod_less) simp
  moreover have "unat base + i * 2 ^ k < 2 ^ 64" using assms pos by linarith
  ultimately show ?thesis by (subst unat_add_lem [THEN iffD1]) simp_all
qed

text \<open>One iteration: the new object takes the next part of the region and its slot; every other
  capability stays.\<close>

lemma createNewObjects_step:
  assumes sz: "getObjectSize t us = Some sz" "unat sz \<le> 47" "us < 64" and al: "2 ^ unat sz dvd unat area"
    and area: "unat area + 2 ^ unat sz \<le> 2 ^ 64"
    and c: "createObject t area us dev (clear_region area sz s) = Some (c, s1)" "insertNewCap parent slot c s1 = Some s2"
    and free: "free_of s (unat area) (2 ^ unat sz + k)" and slot: "caps_of s slot \<noteq> None"
  shows "cap_get_capSizeBits c = Some sz" "cap_get_capPtr c = area" "caps_of s2 slot = Some c"
    "\<And>x. caps_of s x \<noteq> None \<Longrightarrow> x \<noteq> slot \<Longrightarrow> caps_of s2 x = caps_of s x"
    "free_of s2 (unat area + 2 ^ unat sz) k"
proof -
  from createObject_region [OF c(1) sz al]
  have cap: "cap_get_capPtr c = area" "cap_get_capSizeBits c = Some sz"
    and out: "\<And>x. \<not> in_region area sz x \<Longrightarrow> ctes s1 x = ctes (clear_region area sz s) x" by blast+
  show "cap_get_capSizeBits c = Some sz" "cap_get_capPtr c = area" by (fact cap)+
  have same: "ctes s1 x = ctes s x" if "\<not> in_region area sz x" for x using out [OF that] that by (simp add: clear_region_def)
  have region: "in_region area sz x \<longleftrightarrow> unat area \<le> unat x \<and> unat x < unat area + 2 ^ unat sz" for x
    using in_region_iff [OF area] sz(2) by simp
  have old: "ctes s1 x = ctes s x" if "ctes s x \<noteq> None" for x
    using that free same [of x] region [of x] by (auto simp: free_of_def)
  have caps2: "caps_of s2 = (caps_of s1)(slot \<mapsto> c)" by (rule insertNewCap_caps [OF c(2)])
  show "caps_of s2 slot = Some c" by (simp add: caps2)
  show "\<And>x. caps_of s x \<noteq> None \<Longrightarrow> x \<noteq> slot \<Longrightarrow> caps_of s2 x = caps_of s x"
    using old by (simp add: caps2) (simp add: caps_of_def)
  show "free_of s2 (unat area + 2 ^ unat sz) k"
    unfolding free_of_def
  proof (intro allI impI)
    fix x assume "ctes s2 x \<noteq> None"
    then have "caps_of s2 x \<noteq> None" by (simp add: caps_of_def)
    then have "x = slot \<or> ctes s1 x \<noteq> None" by (auto simp: caps2 caps_of_def split: if_splits)
    then have "in_region area sz x \<or> ctes s x \<noteq> None" using same [of x] slot by (cases "in_region area sz x") (auto simp: caps_of_def)
    then show "\<not> (unat area + 2 ^ unat sz \<le> unat x \<and> unat x < unat area + 2 ^ unat sz + k)"
      using free region [of x] by (auto simp: free_of_def)
  qed
qed

lemma createNewObjects_loop_result:
  assumes sz: "getObjectSize t us = Some sz" "unat sz \<le> 47" "us < 64" and al: "2 ^ unat sz dvd unat base"
  shows "createNewObjects_loop k (of_nat i) t parent dest off base sz us dev s = Some s' \<Longrightarrow>
    unat base + (i + k) * 2 ^ unat sz \<le> 2 ^ 64 \<Longrightarrow> i + k \<le> 256 \<Longrightarrow> free_of s (unat base + i * 2 ^ unat sz) (k * 2 ^ unat sz) \<Longrightarrow>
    (\<forall>j \<in> {i..<i + k}. caps_of s (cte_index dest (off + of_nat j)) \<noteq> None) \<Longrightarrow>
    (\<forall>j \<in> {i..<i + k}. \<exists>c. caps_of s' (cte_index dest (off + of_nat j)) = Some c
        \<and> cap_get_capSizeBits c = Some sz \<and> unat (cap_get_capPtr c) = unat base + j * 2 ^ unat sz)
    \<and> (\<forall>x. caps_of s x \<noteq> None \<longrightarrow> x \<notin> (\<lambda>j. cte_index dest (off + of_nat j)) ` {i..<i + k} \<longrightarrow> caps_of s' x = caps_of s x)"
proof (induction k arbitrary: i s)
  case 0
  then show ?case by simp
next
  case (Suc k)
  let ?m = "2 ^ unat sz :: nat" and ?slot = "\<lambda>j. cte_index dest (off + of_nat j)"
  define area where "area = base + push_bit (unat sz) (of_nat i)"
  obtain c s1 s2 where c: "createObject t area us dev (clear_region area sz s) = Some (c, s1)"
    "insertNewCap parent (?slot i) c s1 = Some s2"
    "createNewObjects_loop k (of_nat (Suc i)) t parent dest off base sz us dev s2 = Some s'"
    using Suc.prems(1) by (auto simp: area_def Let_def bind_eq_Some_conv add.commute)
  have bound: "unat base + i * ?m + ?m \<le> 2 ^ 64" using Suc.prems(2) by (simp add: algebra_simps)
  then have area: "unat area = unat base + i * ?m" unfolding area_def by (rule unat_area)
  have "?m dvd unat area" "unat area + ?m \<le> 2 ^ 64" "free_of s (unat area) (?m + k * ?m)" "caps_of s (?slot i) \<noteq> None"
    using al bound Suc.prems(4,5) by (simp_all add: area algebra_simps)
  note new = createNewObjects_step [OF sz this(1,2) c(1,2) this(3,4)]
  have ne: "?slot j \<noteq> ?slot i" if "j \<in> {Suc i..<Suc i + k}" for j
    using that slot_inj [of j i dest off] Suc.prems(3) by auto
  have "\<forall>j \<in> {Suc i..<Suc i + k}. caps_of s2 (?slot j) \<noteq> None"
    using Suc.prems(5) ne new(4) by simp
  then have IH: "\<forall>j \<in> {Suc i..<Suc i + k}. \<exists>c. caps_of s' (?slot j) = Some c
        \<and> cap_get_capSizeBits c = Some sz \<and> unat (cap_get_capPtr c) = unat base + j * ?m"
    "\<And>x. caps_of s2 x \<noteq> None \<Longrightarrow> x \<notin> ?slot ` {Suc i..<Suc i + k} \<Longrightarrow> caps_of s' x = caps_of s2 x"
    using Suc.IH [OF c(3)] Suc.prems(2,3) new(5) by (simp_all add: area algebra_simps)
  have "?slot i \<notin> ?slot ` {Suc i..<Suc i + k}" using ne by (metis (no_types, lifting) imageE)
  then have "caps_of s' (?slot i) = Some c" using IH(2) [of "?slot i"] by (simp add: new(3))
  moreover have "{i..<i + Suc k} = insert i {Suc i..<Suc i + k}" by auto
  ultimately show ?case using IH new(1,2,4) area by auto
qed

section \<open>Resetting the untyped capability\<close>

lemma preemptionPoint_frame:
  "ctes (snd (preemptionPoint s)) = ctes s"
  by (simp add: preemptionPoint_def isIRQPending_def Let_def split: list.splits)

lemma write_cap_caps: "write_cap slot c s = Some s' \<longleftrightarrow> (\<exists>e. ctes s slot = Some e \<and> s' = s\<lparr>ctes := (ctes s)(slot \<mapsto> e\<lparr>cteCap := c\<rparr>)\<rparr>)"
  by (auto simp: write_cap_def upd_Some)

lemma set_capFreeIndex_small:
  "unat v < 2 ^ 48 \<Longrightarrow> set_capFreeIndex (UntypedCap fi dev b p) v = Some (UntypedCap v dev b p)"
  by (simp add: set_capFreeIndex_def and_not_mask_0 take_bit_small)

lemma reset_step:
  assumes "caps_of s slot \<noteq> None" "offset \<noteq> -256" "unat offset < 2 ^ 47"
  shows "\<exists>st s2. reset_loop slot (UntypedCap fi dev b p) base offset s
      = (if st \<noteq> EXCEPTION_NONE then Some (st, s2) else reset_loop slot (UntypedCap fi dev b p) base (offset - 256) s2)
    \<and> caps_of s2 = (caps_of s)(slot \<mapsto> UntypedCap (drop_bit 4 offset) dev b p)"
proof -
  obtain e where e: "ctes s slot = Some e" using assms(1) by (auto simp: caps_of_def)
  let ?c = "UntypedCap (drop_bit 4 offset) dev b p"
  let ?s0 = "clearMemory (base + offset) 8 s"
  let ?s1 = "?s0\<lparr>ctes := (ctes s)(slot \<mapsto> e\<lparr>cteCap := ?c\<rparr>)\<rparr>"
  obtain st s2 where pp: "preemptionPoint ?s1 = (st, s2)" by (cases "preemptionPoint ?s1")
  have "ctes s2 = ctes ?s1" using preemptionPoint_frame [of ?s1] pp by simp
  then have "caps_of s2 = (caps_of s)(slot \<mapsto> ?c)" by (intro ext) (simp add: caps_of_def)
  moreover have "unat (drop_bit 4 offset) < 2 ^ 48"
    using assms(3) by (simp add: drop_bit_eq_div unat_div)
  then have "set_capFreeIndex (UntypedCap fi dev b p) (OFFSET_TO_FREE_INDEX offset) = Some ?c"
    by (simp add: set_capFreeIndex_small OFFSET_TO_FREE_INDEX_def seL4_MinUntypedBits_def)
  moreover have "write_cap slot ?c ?s0 = Some ?s1" using e by (simp add: write_cap_caps clearMemory_def mach_def)
  moreover have "BIT CONFIG_RESET_CHUNK_BITS = 256" "CONFIG_RESET_CHUNK_BITS = 8" by (simp_all add: BIT_def CONFIG_RESET_CHUNK_BITS_def)
  ultimately show ?thesis using assms(2) pp by (subst reset_loop.simps) auto
qed

text \<open>The loop returns; unless it is preempted, the free index ends at 0.\<close>

lemma reset_loop_result:
  "caps_of s slot \<noteq> None \<Longrightarrow> 256 * k < 2 ^ 47 \<Longrightarrow>
   \<exists>st s' fi'. reset_loop slot (UntypedCap fi dev b p) base (of_nat (256 * k)) s = Some (st, s')
     \<and> caps_of s' = (caps_of s)(slot \<mapsto> UntypedCap fi' dev b p) \<and> (st = EXCEPTION_NONE \<longrightarrow> fi' = 0)"
proof (induction k arbitrary: s)
  case 0
  obtain st s2 where st: "reset_loop slot (UntypedCap fi dev b p) base 0 s
      = (if st \<noteq> EXCEPTION_NONE then Some (st, s2) else reset_loop slot (UntypedCap fi dev b p) base (0 - 256) s2)"
    "caps_of s2 = (caps_of s)(slot \<mapsto> UntypedCap 0 dev b p)"
    using reset_step [OF "0.prems"(1), of 0 fi dev b p base] by auto
  have "reset_loop slot (UntypedCap fi dev b p) base (0 - 256) s2 = Some (EXCEPTION_NONE, s2)"
    by (subst reset_loop.simps) (simp add: BIT_def CONFIG_RESET_CHUNK_BITS_def)
  then show ?case using st by (intro exI [of _ st] exI [of _ s2] exI [of _ 0]) simp
next
  case (Suc k)
  let ?o = "of_nat (256 * Suc k) :: u64"
  have o: "unat ?o = 256 * Suc k" using Suc.prems(2) by (simp only: unat_of_nat) simp
  have "?o \<noteq> -256"
  proof
    assume "?o = -256"
    then have "unat ?o = unat (-256 :: u64)" by (simp only:)
    then have "256 * Suc k = unat (-256 :: u64)" unfolding o .
    then show False using Suc.prems(2) by simp
  qed
  then obtain st s2 where st: "reset_loop slot (UntypedCap fi dev b p) base ?o s
      = (if st \<noteq> EXCEPTION_NONE then Some (st, s2) else reset_loop slot (UntypedCap fi dev b p) base (?o - 256) s2)"
    "caps_of s2 = (caps_of s)(slot \<mapsto> UntypedCap (drop_bit 4 ?o) dev b p)"
    using reset_step [OF Suc.prems(1), of ?o fi dev b p base] Suc.prems(2) unfolding o by blast
  have minus: "?o - 256 = of_nat (256 * k)" by simp
  have "caps_of s2 slot \<noteq> None" by (simp only: st(2)) simp
  moreover have "256 * k < 2 ^ 47" using Suc.prems(2) by simp
  ultimately obtain st' s' fi' where IH: "reset_loop slot (UntypedCap fi dev b p) base (of_nat (256 * k)) s2 = Some (st', s')"
    "caps_of s' = (caps_of s2)(slot \<mapsto> UntypedCap fi' dev b p)" "st' = EXCEPTION_NONE \<longrightarrow> fi' = 0"
    using Suc.IH [of s2] by blast
  have caps: "caps_of s' = (caps_of s)(slot \<mapsto> UntypedCap fi' dev b p)" using IH(2) by (simp only: st(2) fun_upd_upd)
  show ?case
  proof (cases "st = EXCEPTION_NONE")
    case True
    then have "reset_loop slot (UntypedCap fi dev b p) base ?o s = Some (st', s')" using st(1) IH(1) by (simp only: minus) simp
    then show ?thesis using caps IH(3) by blast
  next
    case False
    then have "reset_loop slot (UntypedCap fi dev b p) base ?o s = Some (st, s2)" using st(1) by simp
    then show ?thesis using st(2) False by blast
  qed
qed

lemma unat_offset:
  assumes "unat b \<le> 47" "16 * unat fi \<le> 2 ^ unat b"
  shows "unat (FREE_INDEX_TO_OFFSET fi) = 16 * unat fi"
proof -
  have "(2 :: nat) ^ unat b \<le> 2 ^ 47" using assms(1) by (intro power_increasing) simp_all
  with assms(2) have lt: "16 * unat fi < 2 ^ 64" by simp
  have "FREE_INDEX_TO_OFFSET fi = of_nat (16 * unat fi)"
    by (simp add: FREE_INDEX_TO_OFFSET_def seL4_MinUntypedBits_def push_bit_eq_mult mult.commute)
  then show ?thesis using lt by (simp only: unat_of_nat len_num0 len_num1 len_bit0 mod_less) simp
qed

lemma round_down_chunk: "ROUND_DOWN x CONFIG_RESET_CHUNK_BITS = of_nat (256 * (unat x div 256))"
proof -
  have "ROUND_DOWN x CONFIG_RESET_CHUNK_BITS = x AND NOT (mask 8)"
    by (rule bit_eqI) (auto simp: ROUND_DOWN_def CONFIG_RESET_CHUNK_BITS_def bit_simps)
  moreover have "unat (x AND NOT (mask 8)) = 256 * (unat x div 256)" by (simp add: unat_and_not_mask)
  ultimately have "of_nat (256 * (unat x div 256)) = (of_nat (unat (ROUND_DOWN x CONFIG_RESET_CHUNK_BITS)) :: u64)"
    by (simp only:)
  then show ?thesis by simp
qed

lemma resetUntypedCap_eq:
  assumes "ctes s slot = Some e" "cteCap e = UntypedCap fi dev b p" "FREE_INDEX_TO_OFFSET fi \<noteq> 0"
  shows "resetUntypedCap slot s =
    (let s1 = clear_region p b s in
     if dev \<or> b < CONFIG_RESET_CHUNK_BITS then
       map_option (Pair EXCEPTION_NONE) (write_cap slot (UntypedCap 0 dev b p) (if \<not> dev then clearMemory p b s1 else s1))
     else reset_loop slot (UntypedCap fi dev b p) p (ROUND_DOWN (FREE_INDEX_TO_OFFSET fi - 1) CONFIG_RESET_CHUNK_BITS) s1)"
  using assms by (simp add: resetUntypedCap_def Let_def set_capFreeIndex_small map_conv_bind_option comp_def)

text \<open>No capability is stored in the region, so that clearing it loses none.\<close>

lemma clear_region_caps:
  assumes "2 ^ unat b dvd unat p" "unat b \<le> 47" "free_of s (unat p) (2 ^ unat b)"
  shows "caps_of (clear_region p b s) = caps_of s"
proof
  fix x
  have "unat p + 2 ^ unat b \<le> 2 ^ 64" using assms(1,2) by (intro aligned_end) simp_all
  then have "in_region p b x \<longleftrightarrow> unat p \<le> unat x \<and> unat x < unat p + 2 ^ unat b"
    using assms(2) by (intro in_region_iff) simp_all
  then have "in_region p b x \<Longrightarrow> ctes s x = None" using assms(3) unfolding free_of_def by blast
  then show "caps_of (clear_region p b s) x = caps_of s x" by (simp add: caps_of_def clear_region_def)
qed

lemma write_cap_result:
  assumes "caps_of s slot \<noteq> None"
  shows "\<exists>s'. write_cap slot c s = Some s' \<and> caps_of s' = (caps_of s)(slot \<mapsto> c) \<and> dom (ctes s') = dom (ctes s)"
proof -
  obtain e where e: "ctes s slot = Some e" using assms by (auto simp: caps_of_def)
  let ?s' = "s\<lparr>ctes := (ctes s)(slot \<mapsto> e\<lparr>cteCap := c\<rparr>)\<rparr>"
  have "write_cap slot c s = Some ?s'" using e by (simp add: write_cap_caps)
  moreover have "caps_of ?s' = (caps_of s)(slot \<mapsto> c)" by (intro ext) (simp add: caps_of_def)
  moreover have "dom (ctes ?s') = dom (ctes s)" using e by auto
  ultimately show ?thesis by blast
qed

lemma reset_small:
  assumes "caps_of s slot \<noteq> None"
  shows "\<exists>s'. map_option (Pair EXCEPTION_NONE) (write_cap slot c (if P then clearMemory p b s else s)) = Some (EXCEPTION_NONE, s')
    \<and> caps_of s' = (caps_of s)(slot \<mapsto> c)"
proof -
  let ?s = "if P then clearMemory p b s else s"
  have same: "caps_of ?s = caps_of s" by (intro ext) (simp add: caps_of_def clearMemory_def mach_def)
  have "caps_of ?s slot \<noteq> None" unfolding same by (rule assms)
  then obtain s' where "write_cap slot c ?s = Some s'" "caps_of s' = (caps_of ?s)(slot \<mapsto> c)"
    using write_cap_result by blast
  then show ?thesis unfolding same by (intro exI [of _ s']) (simp only: option.map simp_thms)
qed

lemma reset_big:
  assumes "caps_of s slot \<noteq> None" "unat b \<le> 47" "16 * unat fi \<le> 2 ^ unat b" "0 < unat fi"
  shows "\<exists>st s' fi'. reset_loop slot (UntypedCap fi dev b p) p (ROUND_DOWN (FREE_INDEX_TO_OFFSET fi - 1) CONFIG_RESET_CHUNK_BITS) s
      = Some (st, s') \<and> caps_of s' = (caps_of s)(slot \<mapsto> UntypedCap fi' dev b p) \<and> (st = EXCEPTION_NONE \<longrightarrow> fi' = 0)"
proof -
  let ?k = "(16 * unat fi - 1) div 256"
  have off: "unat (FREE_INDEX_TO_OFFSET fi) = 16 * unat fi" by (rule unat_offset [OF assms(2,3)])
  then have "unat (FREE_INDEX_TO_OFFSET fi - 1) = 16 * unat fi - 1"
    using assms(4) by (subst unat_sub) (simp_all add: word_le_nat_alt)
  then have rd: "ROUND_DOWN (FREE_INDEX_TO_OFFSET fi - 1) CONFIG_RESET_CHUNK_BITS = of_nat (256 * ?k)"
    by (simp only: round_down_chunk)
  have "256 * ?k \<le> 16 * unat fi - 1" by (metis div_times_less_eq_dividend mult.commute)
  moreover have "(2 :: nat) ^ unat b \<le> 2 ^ 47" using assms(2) by (intro power_increasing) simp_all
  ultimately have "256 * ?k < 2 ^ 47" using assms(3,4) by linarith
  then show ?thesis unfolding rd by (rule reset_loop_result [OF assms(1)])
qed

lemma resetUntypedCap_result:
  assumes c: "caps_of s slot = Some (UntypedCap fi dev b p)" and b: "unat b \<le> 47" "2 ^ unat b dvd unat p" "16 * unat fi \<le> 2 ^ unat b"
    and free: "free_of s (unat p) (2 ^ unat b)"
  shows "\<exists>st s' fi'. resetUntypedCap slot s = Some (st, s') \<and> caps_of s' = (caps_of s)(slot \<mapsto> UntypedCap fi' dev b p)
    \<and> (st = EXCEPTION_NONE \<longrightarrow> fi' = 0)"
proof -
  obtain e where e: "ctes s slot = Some e" "cteCap e = UntypedCap fi dev b p" using c by (auto simp: caps_of_def)
  show ?thesis
  proof (cases "fi = 0")
    case True
    then have "resetUntypedCap slot s = Some (EXCEPTION_NONE, s)"
      using e by (simp add: resetUntypedCap_def FREE_INDEX_TO_OFFSET_def)
    moreover have "caps_of s = (caps_of s)(slot \<mapsto> UntypedCap 0 dev b p)" using c True by (simp add: map_upd_triv)
    ultimately show ?thesis by blast
  next
    case False
    then have pos: "0 < unat fi" by (simp add: unat_gt_0)
    then have nz: "FREE_INDEX_TO_OFFSET fi \<noteq> 0" using unat_offset [OF b(1,3)] by auto
    let ?s1 = "clear_region p b s"
    have caps1: "caps_of ?s1 = caps_of s" by (rule clear_region_caps [OF b(2,1) free])
    have ex: "caps_of ?s1 slot \<noteq> None" using c by (simp add: caps1)
    show ?thesis
    proof (cases "dev \<or> b < CONFIG_RESET_CHUNK_BITS")
      case True
      then have "resetUntypedCap slot s = map_option (Pair EXCEPTION_NONE)
          (write_cap slot (UntypedCap 0 dev b p) (if \<not> dev then clearMemory p b ?s1 else ?s1))"
        using resetUntypedCap_eq [OF e nz] by (simp only: Let_def if_True)
      then show ?thesis using reset_small [OF ex, of "UntypedCap 0 dev b p" "\<not> dev" p b] unfolding caps1 by metis
    next
      case big: False
      then have "resetUntypedCap slot s = reset_loop slot (UntypedCap fi dev b p) p
          (ROUND_DOWN (FREE_INDEX_TO_OFFSET fi - 1) CONFIG_RESET_CHUNK_BITS) ?s1"
        using resetUntypedCap_eq [OF e nz] by (simp only: Let_def if_False)
      then show ?thesis using reset_big [OF ex b(1,3) pos, of dev p] unfolding caps1 by (simp only:)
    qed
  qed
qed

section \<open>The invocation\<close>

lemma free_of_caps: "dom (caps_of s') = dom (caps_of s) \<Longrightarrow> free_of s' a k = free_of s a k"
  by (simp add: free_of_def caps_of_def dom_def set_eq_iff)

lemma free_of_mono: "free_of s a k \<Longrightarrow> a \<le> a' \<Longrightarrow> a' + k' \<le> a + k \<Longrightarrow> free_of s a' k'"
  unfolding free_of_def by (meson le_trans order_less_le_trans)

lemma getObjectSize_min:
  assumes "getObjectSize t us = Some sz" "us < 64" "t = seL4_UntypedObject \<Longrightarrow> 4 \<le> us"
  shows "4 \<le> unat sz"
proof (cases "t = seL4_CapTableObject")
  case True
  then have "sz = 5 + us" using assms(1) by (simp add: getObjectSize_def object_types seL4_SlotBits_def)
  moreover have "unat (5 + us) = 5 + unat us" using assms(2) by (subst unat_add_lem [THEN iffD1]) (simp_all add: word_less_nat_alt)
  ultimately show ?thesis by simp
next
  case False
  then show ?thesis using assms
    by (auto simp: getObjectSize_def Arch_getObjectSize_def Mode_getObjectSize_def object_types pageBitsForSize_def
        seL4_PageBits_def seL4_LargePageBits_def seL4_HugePageBits_def seL4_PageTableBits_def seL4_TCBBits_def
        seL4_EndpointBits_def seL4_NotificationBits_def word_le_nat_alt split: if_splits)
qed

text \<open>The free index the capability gets: everything up to the end of the last object is used.\<close>

lemma new_free_index:
  assumes "2 ^ unat b dvd unat p" "4 \<le> unat b" "unat b \<le> 47" "2 ^ unat sz dvd unat base" "4 \<le> unat sz"
    "unat p \<le> unat base" "unat base + n * 2 ^ unat sz \<le> unat p + 2 ^ unat b"
  shows "unat p + 16 * unat (GET_FREE_INDEX p (base + push_bit (unat sz) (of_nat n))) = unat base + n * 2 ^ unat sz"
    "unat (GET_FREE_INDEX p (base + push_bit (unat sz) (of_nat n))) < 2 ^ 48"
proof -
  let ?d = "unat base + n * 2 ^ unat sz - unat p"
  have "(of_nat ?d :: u64) = base + push_bit (unat sz) (of_nat n) - p"
    using assms(6) by (simp add: of_nat_diff push_bit_eq_mult)
  moreover have "(2 :: nat) ^ unat b \<le> 2 ^ 47" using assms(3) by (intro power_increasing) simp_all
  then have d: "?d \<le> 2 ^ 47" using assms(7) by linarith
  then have "unat (of_nat ?d :: u64) = ?d" by (simp only: unat_of_nat len_num0 len_num1 len_bit0) simp
  ultimately have fi: "unat (GET_FREE_INDEX p (base + push_bit (unat sz) (of_nat n))) = ?d div 16"
    by (simp add: GET_FREE_INDEX_def seL4_MinUntypedBits_def drop_bit_eq_div unat_div)
  have "2 ^ 4 dvd unat p" "2 ^ 4 dvd unat base" "(2 :: nat) ^ 4 dvd 2 ^ unat sz"
    using assms(1,2,4,5) dvd_trans [OF le_imp_power_dvd] by (blast, blast, intro le_imp_power_dvd)
  then have "16 dvd ?d" by (intro dvd_diff_nat dvd_add dvd_mult) simp_all
  then show "unat p + 16 * unat (GET_FREE_INDEX p (base + push_bit (unat sz) (of_nat n))) = unat base + n * 2 ^ unat sz"
    unfolding fi using assms(6) by simp
  show "unat (GET_FREE_INDEX p (base + push_bit (unat sz) (of_nat n))) < 2 ^ 48"
    unfolding fi using d by simp
qed

text \<open>\<open>objects_at s' dest off base sz n\<close>: \<open>n\<close> slots hold capabilities to \<open>n\<close> objects of size
  \<open>2 ^ sz\<close>, side by side from \<open>base\<close> on.\<close>

definition objects_at :: "kstate \<Rightarrow> ptr \<Rightarrow> u64 \<Rightarrow> u64 \<Rightarrow> u64 \<Rightarrow> nat \<Rightarrow> bool" where
  "objects_at s dest off base sz n \<longleftrightarrow> (\<forall>j < n. \<exists>c. caps_of s (cte_index dest (off + of_nat j)) = Some c
     \<and> cap_get_capSizeBits c = Some sz \<and> unat (cap_get_capPtr c) = unat base + j * 2 ^ unat sz)"

lemma createNewObjects_result:
  assumes sz: "getObjectSize t us = Some sz" "unat sz \<le> 47" "us < 64" and al: "2 ^ unat sz dvd unat base"
    and run: "createNewObjects t parent dest off n base us dev s = Some s'"
    and fits: "unat base + unat n * 2 ^ unat sz \<le> 2 ^ 64" "unat n \<le> 256" "free_of s (unat base) (unat n * 2 ^ unat sz)"
    and slots: "\<forall>j < unat n. caps_of s (cte_index dest (off + of_nat j)) \<noteq> None"
  shows "objects_at s' dest off base sz (unat n)"
    "\<And>x. caps_of s x \<noteq> None \<Longrightarrow> x \<notin> (\<lambda>j. cte_index dest (off + of_nat j)) ` {..<unat n} \<Longrightarrow> caps_of s' x = caps_of s x"
proof -
  have "createNewObjects_loop (unat n) (of_nat 0) t parent dest off base sz us dev s = Some s'"
    using run sz(1) by (simp add: createNewObjects_def)
  from createNewObjects_loop_result [OF sz al this] fits slots
  show "objects_at s' dest off base sz (unat n)"
    "\<And>x. caps_of s x \<noteq> None \<Longrightarrow> x \<notin> (\<lambda>j. cte_index dest (off + of_nat j)) ` {..<unat n} \<Longrightarrow> caps_of s' x = caps_of s x"
    by (auto simp: objects_at_def atLeast0LessThan lessThan_def)
qed

text \<open>What an untyped capability satisfies: the region is aligned to its size and the free index
  points into it.\<close>

definition untyped_ok :: "cap \<Rightarrow> bool" where
  "untyped_ok c = (case c of
       UntypedCap fi dev b p \<Rightarrow> 4 \<le> unat b \<and> unat b \<le> 47 \<and> 2 ^ unat b dvd unat p \<and> 16 * unat fi \<le> 2 ^ unat b
     | _ \<Rightarrow> False)"

lemma reset_phase:
  assumes c: "caps_of s slot = Some (UntypedCap fi dev b p)" "untyped_ok (UntypedCap fi dev b p)"
    and free: "reset \<Longrightarrow> free_of s (unat p) (2 ^ unat b)"
    and run: "(if reset then resetUntypedCap slot s else Some (EXCEPTION_NONE, s)) = Some (EXCEPTION_NONE, s1)"
  shows "\<exists>fi1. caps_of s1 = (caps_of s)(slot \<mapsto> UntypedCap fi1 dev b p)"
proof (cases reset)
  case True
  then show ?thesis using resetUntypedCap_result [OF c(1) _ _ _ free] c(2) run by (auto simp: untyped_ok_def)
next
  case False
  then have "caps_of s1 = (caps_of s)(slot \<mapsto> UntypedCap fi dev b p)" using run c(1) by (simp add: map_upd_triv)
  then show ?thesis by blast
qed

text \<open>The invocation sets the free index behind the last object, then creates the objects.\<close>

lemma invokeUntyped_Retype_unfold:
  assumes c: "caps_of s slot = Some (UntypedCap fi dev b p)" "untyped_ok (UntypedCap fi dev b p)"
    and sz: "getObjectSize t us = Some sz" and fi': "unat (GET_FREE_INDEX p (base + push_bit (unat sz) n)) < 2 ^ 48"
    and free: "reset \<Longrightarrow> free_of s (unat p) (2 ^ unat b)"
    and run: "invokeUntyped_Retype slot reset base t us dest off n dev' s = Some (EXCEPTION_NONE, s')"
  shows "\<exists>s2. caps_of s2 = (caps_of s)(slot \<mapsto> UntypedCap (GET_FREE_INDEX p (base + push_bit (unat sz) n)) dev b p)
    \<and> createNewObjects t slot dest off n base us dev' s2 = Some s'"
proof -
  let ?fi = "GET_FREE_INDEX p (base + push_bit (unat sz) n)"
  have e0: "ctes s slot \<noteq> None" "cteCap (the (ctes s slot)) = UntypedCap fi dev b p" using c(1) by (auto simp: caps_of_def)
  obtain s1 where s1: "(if reset then resetUntypedCap slot s else Some (EXCEPTION_NONE, s)) = Some (EXCEPTION_NONE, s1)"
    and rest: "do { e \<leftarrow> ctes s1 slot; c \<leftarrow> set_capFreeIndex (cteCap e) ?fi; s \<leftarrow> write_cap slot c s1;
        createNewObjects t slot dest off n base us dev' s } = Some s'"
    using run e0 sz by (auto simp: invokeUntyped_Retype_def bind_eq_Some_conv Let_def split: if_splits)
  obtain fi1 where caps1: "caps_of s1 = (caps_of s)(slot \<mapsto> UntypedCap fi1 dev b p)"
    using reset_phase [OF c free s1] by blast
  then have "caps_of s1 slot = Some (UntypedCap fi1 dev b p)" by simp
  then obtain e1 where e1: "ctes s1 slot = Some e1" "cteCap e1 = UntypedCap fi1 dev b p" by (auto simp: caps_of_def)
  obtain s2 where s2: "write_cap slot (UntypedCap ?fi dev b p) s1 = Some s2" "createNewObjects t slot dest off n base us dev' s2 = Some s'"
    using rest e1 fi' by (auto simp: set_capFreeIndex_small bind_eq_Some_conv)
  have "caps_of s1 slot \<noteq> None" by (simp add: caps1)
  from write_cap_result [OF this, of "UntypedCap ?fi dev b p"] s2(1)
  have "caps_of s2 = (caps_of s)(slot \<mapsto> UntypedCap ?fi dev b p)" by (simp add: caps1)
  then show ?thesis using s2(2) by blast
qed

lemma invokeUntyped_Retype_result:
  assumes c: "caps_of s slot = Some (UntypedCap fi dev b p)" "untyped_ok (UntypedCap fi dev b p)"
    and sz: "getObjectSize t us = Some sz" "4 \<le> unat sz" "unat sz \<le> 47" "us < 64"
    and base: "2 ^ unat sz dvd unat base" "unat p \<le> unat base" "unat base + unat n * 2 ^ unat sz \<le> unat p + 2 ^ unat b"
    and n: "unat n \<le> 256" and free: "free_of s (unat base) (unat n * 2 ^ unat sz)" "reset \<Longrightarrow> free_of s (unat p) (2 ^ unat b)"
    and slots: "\<forall>j < unat n. caps_of s (cte_index dest (off + of_nat j)) = Some NullCap"
    and run: "invokeUntyped_Retype slot reset base t us dest off n dev' s = Some (EXCEPTION_NONE, s')"
  shows "objects_at s' dest off base sz (unat n)"
    "\<exists>fi'. caps_of s' slot = Some (UntypedCap fi' dev b p) \<and> unat p + 16 * unat fi' = unat base + unat n * 2 ^ unat sz"
    "\<And>x. caps_of s x \<noteq> None \<Longrightarrow> x \<noteq> slot \<Longrightarrow> x \<notin> (\<lambda>j. cte_index dest (off + of_nat j)) ` {..<unat n} \<Longrightarrow> caps_of s' x = caps_of s x"
proof -
  let ?fi = "GET_FREE_INDEX p (base + push_bit (unat sz) n)"
  have b: "4 \<le> unat b" "unat b \<le> 47" "2 ^ unat b dvd unat p" using c(2) by (simp_all add: untyped_ok_def)
  have fi: "unat p + 16 * unat ?fi = unat base + unat n * 2 ^ unat sz" "unat ?fi < 2 ^ 48"
    using new_free_index [OF b(3,1,2) base(1) sz(2) base(2,3)] by simp_all
  obtain s2 where caps2: "caps_of s2 = (caps_of s)(slot \<mapsto> UntypedCap ?fi dev b p)"
    and s2: "createNewObjects t slot dest off n base us dev' s2 = Some s'"
    using invokeUntyped_Retype_unfold [OF c sz(1) fi(2) free(2) run] by blast
  have ne: "cte_index dest (off + of_nat j) \<noteq> slot" if "j < unat n" for j using slots that c(1) by force
  have "dom (caps_of s2) = dom (caps_of s)" using c(1) by (auto simp: caps2)
  then have "free_of s2 (unat base) (unat n * 2 ^ unat sz)" using free(1) free_of_caps [THEN iffD2] by blast
  moreover have "unat p + 2 ^ unat b \<le> 2 ^ 64" using b by (intro aligned_end) simp_all
  then have "unat base + unat n * 2 ^ unat sz \<le> 2 ^ 64" using base(3) by linarith
  moreover have "\<forall>j < unat n. caps_of s2 (cte_index dest (off + of_nat j)) \<noteq> None" using slots ne by (simp add: caps2)
  ultimately have new: "objects_at s' dest off base sz (unat n)"
    "\<And>x. caps_of s2 x \<noteq> None \<Longrightarrow> x \<notin> (\<lambda>j. cte_index dest (off + of_nat j)) ` {..<unat n} \<Longrightarrow> caps_of s' x = caps_of s2 x"
    using createNewObjects_result [OF sz(1,3,4) base(1) s2] n by blast+
  show "objects_at s' dest off base sz (unat n)" by (rule new(1))
  have "slot \<notin> (\<lambda>j. cte_index dest (off + of_nat j)) ` {..<unat n}" using ne by auto
  then have "caps_of s' slot = Some (UntypedCap ?fi dev b p)" using new(2) [of slot] by (simp add: caps2)
  then show "\<exists>fi'. caps_of s' slot = Some (UntypedCap fi' dev b p) \<and> unat p + 16 * unat fi' = unat base + unat n * 2 ^ unat sz"
    using fi(1) by blast
  show "\<And>x. caps_of s x \<noteq> None \<Longrightarrow> x \<noteq> slot \<Longrightarrow> x \<notin> (\<lambda>j. cte_index dest (off + of_nat j)) ` {..<unat n} \<Longrightarrow> caps_of s' x = caps_of s x"
    using new(2) by (simp add: caps2)
qed

section \<open>Decoding\<close>

lemma window_empty_ok:
  "window_empty k i dest s = Some (EXCEPTION_NONE, s') \<Longrightarrow>
   s' = s \<and> (\<forall>j < k. caps_of s (cte_index dest (i + of_nat j)) = Some NullCap)"
proof (induction k arbitrary: i)
  case 0
  then show ?case by simp
next
  case (Suc k)
  have first: "caps_of s (cte_index dest i) = Some NullCap" "window_empty k (i + 1) dest s = Some (EXCEPTION_NONE, s')"
    using Suc.prems by (auto simp: ensureEmptySlot_def caps_of_def bind_eq_Some_conv split: if_splits)
  from Suc.IH [OF this(2)] have rest: "s' = s" "\<forall>j < k. caps_of s (cte_index dest (i + 1 + of_nat j)) = Some NullCap" by blast+
  have "caps_of s (cte_index dest (i + of_nat j)) = Some NullCap" if "j < Suc k" for j
    using that first(1) rest(2) by (cases j) (auto simp: add.assoc)
  then show ?case using rest(1) by blast
qed

text \<open>The part of the region that is in use when the retype starts: nothing if the capability has
  no children, because it is then reset.\<close>

definition free_start :: "ptr \<Rightarrow> cap \<Rightarrow> kstate \<Rightarrow> nat" where
  "free_start slot c s =
     (case ensureNoChildren slot s of
        Some (st, _) \<Rightarrow> if st = EXCEPTION_NONE then 0 else 16 * unat (capFreeIndex c)
      | None \<Rightarrow> 0)"

text \<open>The CNode the arguments name.\<close>

definition target_cnode :: "ptr \<Rightarrow> kstate \<Rightarrow> ptr option" where
  "target_cnode buffer s =
     do { nodeIndex \<leftarrow> getSyscallArg 2 buffer s;
          nodeDepth \<leftarrow> getSyscallArg 3 buffer s;
          root \<leftarrow> ctes s (current_extra_caps s 0);
          (status, node_slot, s) \<leftarrow> (if nodeDepth = 0 then Some (EXCEPTION_NONE, current_extra_caps s 0, s)
                                     else lookupTargetSlot (cteCap root) nodeIndex nodeDepth s);
          node \<leftarrow> ctes s node_slot;
          Some (capCNodePtr (cteCap node)) }"

lemma decodeUntypedInvocation_ok:
  assumes "decodeUntypedInvocation label len slot c call buffer s = Some (EXCEPTION_NONE, s')"
  shows "\<exists>t us sz off n dest. getSyscallArg 0 buffer s = Some t \<and> getSyscallArg 1 buffer s = Some us
    \<and> getSyscallArg 4 buffer s = Some off \<and> getSyscallArg 5 buffer s = Some n \<and> getObjectSize t us = Some sz
    \<and> target_cnode buffer s = Some dest \<and> us < 64 \<and> unat sz \<le> 47 \<and> (t = seL4_UntypedObject \<longrightarrow> 4 \<le> us) \<and> 1 \<le> unat n \<and> unat n \<le> 256
    \<and> window_empty (unat n) off dest s = Some (EXCEPTION_NONE, s)
    \<and> decodeUntyped_memory slot c t us sz dest off n s = Some (EXCEPTION_NONE, s')"
proof -
  obtain t us idx depth off n sz root node_slot node s1 s2 where d:
    "getSyscallArg 0 buffer s = Some t" "getSyscallArg 1 buffer s = Some us" "getSyscallArg 2 buffer s = Some idx"
    "getSyscallArg 3 buffer s = Some depth" "getSyscallArg 4 buffer s = Some off" "getSyscallArg 5 buffer s = Some n"
    "getObjectSize t us = Some sz" "\<not> (us \<ge> wordBits \<or> sz > seL4_MaxUntypedBits)"
    "\<not> (t = seL4_UntypedObject \<and> us < seL4_MinUntypedBits)" "\<not> (n < 1 \<or> n > CONFIG_RETYPE_FAN_OUT_LIMIT)"
    "ctes s (current_extra_caps s 0) = Some root"
    "(if depth = 0 then Some (EXCEPTION_NONE, current_extra_caps s 0, s) else lookupTargetSlot (cteCap root) idx depth s)
       = Some (EXCEPTION_NONE, node_slot, s1)"
    "ctes s1 node_slot = Some node"
    "window_empty (unat n) off (capCNodePtr (cteCap node)) s1 = Some (EXCEPTION_NONE, s2)"
    "decodeUntyped_memory slot c t us sz (capCNodePtr (cteCap node)) off n s2 = Some (EXCEPTION_NONE, s')"
    using assms
    by (simp only: decodeUntypedInvocation_def bind_eq_Some_conv Let_def error_branch split_paired_Ex case_prod_conv) blast
  have s1: "s1 = s" using d(12) lookupTargetSlot_ok by (auto split: if_splits)
  then have s2: "s2 = s" using window_empty_ok [OF d(14)] by simp
  have "target_cnode buffer s = Some (capCNodePtr (cteCap node))"
    using d(3,4,11,12,13) s1 by (simp add: target_cnode_def)
  moreover have "us < 64" "unat sz \<le> 47" "t = seL4_UntypedObject \<longrightarrow> 4 \<le> us" "1 \<le> unat n" "unat n \<le> 256"
    using d(8,9,10)
    by (auto simp: word_less_nat_alt word_le_nat_alt wordBits_def seL4_MaxUntypedBits_def seL4_MinUntypedBits_def CONFIG_RETYPE_FAN_OUT_LIMIT_def)
  ultimately show ?thesis using d(1,2,5,6,7,14,15) unfolding s1 s2 by blast
qed

lemma enough_memory:
  assumes "\<not> drop_bit (unat sz) (BIT b - off) < n" "unat b \<le> 47" "unat off \<le> 2 ^ unat b"
  shows "unat n \<le> (2 ^ unat b - unat off) div 2 ^ unat sz"
proof -
  have "unat (BIT b) = 2 ^ unat b" using assms(2) by (simp add: unat_BIT)
  then have "unat (BIT b - off) = 2 ^ unat b - unat off" using assms(3) by (simp add: unat_sub word_le_nat_alt)
  moreover have "unat (drop_bit k w) = unat w div 2 ^ k" for k and w :: u64
    unfolding unat_drop_bit_eq by (rule drop_bit_eq_div)
  ultimately show ?thesis using assms(1) by (simp only: word_less_nat_alt not_less)
qed

text \<open>The decoder computes where the free part begins and refuses a request that does not fit.\<close>

lemma decodeUntyped_memory_unfold:
  assumes c: "c = UntypedCap fi dev b p" "untyped_ok c"
    and run: "decodeUntyped_memory slot c t us sz dest off n s = Some (EXCEPTION_NONE, s')"
  obtains reset fo s1 where "unat fo = free_start slot c s" "unat fo \<le> 2 ^ unat b" "reset \<Longrightarrow> unat fo = 0"
    "unat n \<le> (2 ^ unat b - unat fo) div 2 ^ unat sz" "ctes s1 = ctes s"
    "invokeUntyped_Retype slot reset (alignUp (p + fo) sz) t us dest off n dev s1 = Some (EXCEPTION_NONE, s')"
proof -
  obtain st s0 where en: "ensureNoChildren slot s = Some (st, s0)"
    using run by (auto simp: decodeUntyped_memory_def bind_eq_Some_conv)
  define fi0 where "fi0 = (if st \<noteq> EXCEPTION_NONE then fi else 0)"
  define fo where "fo = FREE_INDEX_TO_OFFSET fi0"
  have b: "unat b \<le> 47" "16 * unat fi0 \<le> 2 ^ unat b" using c by (simp_all add: untyped_ok_def fi0_def)
  then have fo: "unat fo = 16 * unat fi0" unfolding fo_def by (rule unat_offset)
  obtain s1 where s1: "setThreadState (ksCurThread s0) ThreadState_Restart s0 = Some s1"
    "\<not> drop_bit (unat sz) (BIT b - fo) < n"
    "invokeUntyped_Retype slot (st = EXCEPTION_NONE) (alignUp (p + fo) sz) t us dest off n dev s1 = Some (EXCEPTION_NONE, s')"
    using run en c(1) by (cases "st = EXCEPTION_NONE")
      (auto simp: decodeUntyped_memory_def bind_eq_Some_conv Let_def GET_FREE_REF_def fo_def fi0_def split: if_splits)
  show thesis
  proof (rule that)
    show "unat fo = free_start slot c s" by (simp add: fo free_start_def en c(1) fi0_def)
    show "unat fo \<le> 2 ^ unat b" "(st = EXCEPTION_NONE) \<Longrightarrow> unat fo = 0" using b by (simp_all add: fo fi0_def)
    then show "unat n \<le> (2 ^ unat b - unat fo) div 2 ^ unat sz" using s1(2) b(1) by (intro enough_memory)
    show "ctes s1 = ctes s" using setThreadState_Restart_ctes [OF s1(1)] ensureNoChildren_frame [OF en] by simp
  qed (rule s1(3))
qed

text \<open>C23. Retyping untyped memory stays within it. Let a capability to untyped memory be well
  formed and let no slot lie in the free part of its region. If an invocation of Untyped_Retype
  succeeds, then the arguments ask for n objects of 2 ^ sz bytes, with n between 1 and 256. The
  objects lie side by side from an address base on, which is aligned to the size of the objects,
  not before the end of the part in use and such that the last object ends within the region. The
  n slots of the target CNode were empty and now hold capabilities to these objects, of their
  address and size. The untyped capability records that everything up to the end of the last
  object is used, and no other capability changes.\<close>

theorem retype_within_untyped:
  assumes "caps_of s slot = Some c" "c = UntypedCap fi dev b p" "untyped_ok c"
    and "free_of s (unat p + free_start slot c s) (2 ^ unat b - free_start slot c s)"
    and "decodeUntypedInvocation label len slot c call buffer s = Some (EXCEPTION_NONE, s')"
  shows "\<exists>t us sz off n dest base fi'. getSyscallArg 0 buffer s = Some t \<and> getSyscallArg 1 buffer s = Some us
    \<and> getObjectSize t us = Some sz \<and> getSyscallArg 4 buffer s = Some off \<and> getSyscallArg 5 buffer s = Some n
    \<and> target_cnode buffer s = Some dest \<and> 1 \<le> unat n \<and> unat n \<le> 256
    \<and> 2 ^ unat sz dvd unat base \<and> unat p + free_start slot c s \<le> unat base
    \<and> unat base + unat n * 2 ^ unat sz \<le> unat p + 2 ^ unat b
    \<and> (\<forall>j < unat n. caps_of s (cte_index dest (off + of_nat j)) = Some NullCap)
    \<and> objects_at s' dest off base sz (unat n)
    \<and> caps_of s' slot = Some (UntypedCap fi' dev b p) \<and> unat p + 16 * unat fi' = unat base + unat n * 2 ^ unat sz
    \<and> (\<forall>x. caps_of s x \<noteq> None \<and> x \<noteq> slot \<and> x \<notin> (\<lambda>j. cte_index dest (off + of_nat j)) ` {..<unat n}
         \<longrightarrow> caps_of s' x = caps_of s x)"
proof -
  obtain t us sz off n dest where d: "getSyscallArg 0 buffer s = Some t" "getSyscallArg 1 buffer s = Some us"
    "getSyscallArg 4 buffer s = Some off" "getSyscallArg 5 buffer s = Some n" "getObjectSize t us = Some sz"
    "target_cnode buffer s = Some dest" "us < 64" "unat sz \<le> 47" "t = seL4_UntypedObject \<Longrightarrow> 4 \<le> us" "1 \<le> unat n" "unat n \<le> 256"
    "window_empty (unat n) off dest s = Some (EXCEPTION_NONE, s)"
    "decodeUntyped_memory slot c t us sz dest off n s = Some (EXCEPTION_NONE, s')"
    using decodeUntypedInvocation_ok [OF assms(5)] by blast
  obtain reset fo s1 where m: "unat fo = free_start slot c s" "unat fo \<le> 2 ^ unat b" "reset \<Longrightarrow> unat fo = 0"
    "unat n \<le> (2 ^ unat b - unat fo) div 2 ^ unat sz" "ctes s1 = ctes s"
    "invokeUntyped_Retype slot reset (alignUp (p + fo) sz) t us dest off n dev s1 = Some (EXCEPTION_NONE, s')"
    using decodeUntyped_memory_unfold [OF assms(2,3) d(13)] by metis
  define base where "base = alignUp (p + fo) sz"
  have b: "2 ^ unat b dvd unat p" "unat b \<le> 47" "untyped_ok (UntypedCap fi dev b p)" using assms(2,3) by (simp_all add: untyped_ok_def)
  note fits = alignUp_fits [OF b(1,2) m(2) d(8,10) m(4) base_def]
  have eq: "caps_of s1 = caps_of s" by (intro ext) (simp add: caps_of_def m(5))
  have free: "free_of s1 (unat p + unat fo) (2 ^ unat b - unat fo)" using assms(4) by (simp add: free_of_def m(1,5))
  have free2: "free_of s1 (unat base) (unat n * 2 ^ unat sz)" using fits m(2) by (intro free_of_mono [OF free]) simp_all
  have free3: "reset \<Longrightarrow> free_of s1 (unat p) (2 ^ unat b)" using free m(3) by simp
  have empty: "\<forall>j < unat n. caps_of s1 (cte_index dest (off + of_nat j)) = Some NullCap"
    unfolding eq using window_empty_ok [OF d(12)] by blast
  have slot: "caps_of s1 slot = Some (UntypedCap fi dev b p)" using assms(1,2) by (simp add: eq)
  have p: "unat p \<le> unat base" using fits(2) by linarith
  note new = invokeUntyped_Retype_result [OF slot b(3) d(5) getObjectSize_min [OF d(5,7,9)] d(8,7) fits(1) p fits(3) d(11)
      free2 free3 empty m(6) [folded base_def]]
  then obtain fi' where "caps_of s' slot = Some (UntypedCap fi' dev b p)" "unat p + 16 * unat fi' = unat base + unat n * 2 ^ unat sz"
    by blast
  then show ?thesis using d(1-6,10,11) fits new(1,3) empty unfolding eq m(1) by blast
qed

text \<open>A page of untyped memory at 0x100000 of which an endpoint takes the first 16 bytes and 32 more
  are used; the current thread asks for two notifications in slots 1 and 2 of the CNode at 0x8000.\<close>

definition retype_example :: kstate where
  "retype_example = ks0\<lparr>
     ksCurThread := 0x10400,
     tcbs := [0x10400 \<mapsto> tcb0\<lparr>tcbContext := (\<lambda>r. if r = R10 then seL4_NotificationObject else 0)\<rparr>],
     ctes := (\<lambda>a. if a = 0x7000 then Some \<lparr>cteCap = UntypedCap 3 False 12 0x100000,
                      cteMDBNode = \<lparr>mdbNext = 0x7020, mdbRevocable = True, mdbFirstBadged = True, mdbPrev = 0\<rparr>\<rparr>
                  else if a = 0x7020 then Some \<lparr>cteCap = EndpointCap 0 True True True True 0x100000,
                      cteMDBNode = \<lparr>mdbNext = 0, mdbRevocable = True, mdbFirstBadged = True, mdbPrev = 0x7000\<rparr>\<rparr>
                  else if a = 0x7040 then Some \<lparr>cteCap = CNodeCap 2 0 0 0x8000, cteMDBNode = nullMDBNode\<rparr>
                  else if a \<in> {0x8000, 0x8020, 0x8040, 0x8060} then Some cte0 else None),
     current_extra_caps := (\<lambda>i. if i = 0 then 0x7040 else 0),
     user_mem := (\<lambda>a. Some (if a = 4096 + 8 * 5 then 1 else if a = 4096 + 8 * 6 then 2 else 0))\<rparr>"

lemma retype_example_runs:
  "map_option fst (decodeUntypedInvocation UntypedRetype 6 0x7000 (UntypedCap 3 False 12 0x100000) False 4096 retype_example)
     = Some EXCEPTION_NONE"
  by code_simp

theorem retype_within_untyped_witness:
  "\<exists>s' base c1 c2. decodeUntypedInvocation UntypedRetype 6 0x7000 (UntypedCap 3 False 12 0x100000) False 4096 retype_example
      = Some (EXCEPTION_NONE, s')
    \<and> 32 dvd unat base \<and> 0x100030 \<le> unat base \<and> unat base + 64 \<le> 0x101000
    \<and> caps_of s' 0x8020 = Some c1 \<and> unat (cap_get_capPtr c1) = unat (base :: u64)
    \<and> caps_of s' 0x8040 = Some c2 \<and> unat (cap_get_capPtr c2) = unat base + 32"
proof -
  let ?c = "UntypedCap 3 False 12 0x100000"
  obtain s' where run: "decodeUntypedInvocation UntypedRetype 6 0x7000 ?c False 4096 retype_example = Some (EXCEPTION_NONE, s')"
    using retype_example_runs by auto
  have slot: "caps_of retype_example 0x7000 = Some ?c" by (simp add: caps_of_def retype_example_def)
  have ok: "untyped_ok ?c" by (simp add: untyped_ok_def)
  have used: "free_start 0x7000 ?c retype_example = 48" by code_simp
  have "free_of retype_example (unat (0x100000 :: u64) + 48) (2 ^ unat (12 :: u64) - 48)"
    by (auto simp: free_of_def retype_example_def split: if_splits)
  from retype_within_untyped [OF slot refl ok this [folded used] run]
  obtain t us sz off n dest base where r: "getSyscallArg 0 4096 retype_example = Some t" "getSyscallArg 1 4096 retype_example = Some us"
    "getObjectSize t us = Some sz" "getSyscallArg 4 4096 retype_example = Some off" "getSyscallArg 5 4096 retype_example = Some n"
    "target_cnode 4096 retype_example = Some dest" "2 ^ unat sz dvd unat base"
    "unat (0x100000 :: u64) + free_start 0x7000 ?c retype_example \<le> unat base"
    "unat base + unat n * 2 ^ unat sz \<le> unat (0x100000 :: u64) + 2 ^ unat (12 :: u64)" "objects_at s' dest off base sz (unat n)"
    by blast
  have "getSyscallArg 0 4096 retype_example = Some 3" "getSyscallArg 1 4096 retype_example = Some 0" "getObjectSize 3 0 = Some 5"
    "getSyscallArg 4 4096 retype_example = Some 1" "getSyscallArg 5 4096 retype_example = Some 2"
    "target_cnode 4096 retype_example = Some 0x8000" by code_simp+
  with r(1-6) have v: "t = 3" "us = 0" "sz = 5" "off = 1" "n = 2" "dest = 0x8000" by auto
  have "cte_index 0x8000 (1 + of_nat 0) = 0x8020" "cte_index 0x8000 (1 + of_nat 1) = 0x8040" by code_simp+
  moreover have "\<exists>c. caps_of s' (cte_index 0x8000 (1 + of_nat j)) = Some c \<and> unat (cap_get_capPtr c) = unat base + j * 32"
    if "j < 2" for j using r(10) that by (auto simp: objects_at_def v)
  from this [of 0] this [of 1] obtain c1 c2 where
    "caps_of s' (cte_index 0x8000 (1 + of_nat 0)) = Some c1" "unat (cap_get_capPtr c1) = unat base"
    "caps_of s' (cte_index 0x8000 (1 + of_nat 1)) = Some c2" "unat (cap_get_capPtr c2) = unat base + 32" by auto
  ultimately show ?thesis using run r(7-9) used by (auto simp: v)
qed

end
