(* ===== verification/K_Delete.thy ===== *)
theory K_Delete
  imports K_Retype
begin

text \<open>
  Deletion of capabilities (src/kernel/src/object/cnode.c and finaliseCap of objecttype.c): finalising
  the object of the last capability, zombies, deleting a slot and revoking the descendants of a
  capability, with the preemption points between the steps.

  finaliseSlot, reduceZombie and cteDelete call each other. The recursion is in finaliseSlot;
  the other two take the function they call as their first argument.
\<close>

section \<open>Finalisation of a capability\<close>

definition deletingIRQHandler :: "u64 \<Rightarrow> kstate \<Rightarrow> kstate option" where
  "deletingIRQHandler irq s = cteDeleteOne (cte_index (intStateIRQNode s) irq) s"

definition Arch_prepareThreadDelete :: "ptr \<Rightarrow> kstate \<Rightarrow> kstate" where
  "Arch_prepareThreadDelete thread s = mach (Op_fpuRelease thread) s"

definition tcbArchCNodeEntries :: u64 where "tcbArchCNodeEntries = tcbCNodeEntries"

definition finaliseCap :: "cap \<Rightarrow> bool \<Rightarrow> bool \<Rightarrow> kstate \<Rightarrow> (cap \<times> cap \<times> kstate) option" where
  "finaliseCap c final exposed s = (case c of
       ArchObjectCap a \<Rightarrow> Arch_finaliseCap a final s
     | EndpointCap _ _ _ _ _ p \<Rightarrow>
         do { s \<leftarrow> (if final then cancelAllIPC p s else Some s); Some (NullCap, NullCap, s) }
     | NotificationCap _ _ _ p \<Rightarrow>
         do { s \<leftarrow> (if final then do { s \<leftarrow> unbindMaybeNotification p s; cancelAllSignals p s } else Some s);
              Some (NullCap, NullCap, s) }
     | ReplyCap _ _ _ \<Rightarrow> Some (NullCap, NullCap, s)
     | NullCap \<Rightarrow> Some (NullCap, NullCap, s)
     | DomainCap \<Rightarrow> Some (NullCap, NullCap, s)
     | _ \<Rightarrow>
       if exposed then None
       else (case c of
           CNodeCap radix _ _ p \<Rightarrow>
             Some (if final then Zombie_new (push_bit (unat radix) 1) radix p else NullCap, NullCap, s)
         | ThreadCap tcb \<Rightarrow>
             if final then do {
               s \<leftarrow> unbindNotification tcb s;
               s \<leftarrow> suspend tcb s;
               s \<leftarrow> tcbDebugRemove tcb s;
               let s = Arch_prepareThreadDelete tcb s;
               Some (Zombie_new tcbArchCNodeEntries ZombieType_ZombieTCB (TCB_PTR_CTE_PTR tcb tcbCTable), NullCap, s) }
             else Some (NullCap, NullCap, s)
         | ZombieCap _ _ \<Rightarrow> Some (c, NullCap, s)
         | IRQHandlerCap irq \<Rightarrow>
             if final then do { s \<leftarrow> deletingIRQHandler irq s; Some (NullCap, c, s) }
             else Some (NullCap, NullCap, s)
         | _ \<Rightarrow> Some (NullCap, NullCap, s)))"

text \<open>With exposed set, finaliseCap is what cteDeleteOne uses.\<close>

lemma finaliseCap_exposed: "finaliseCap c final True s = finaliseCap_immediate c final s"
  by (simp add: finaliseCap_def finaliseCap_immediate_def split: cap.split)

section \<open>Deletion\<close>

definition cteDelete_by ::
    "(ptr \<Rightarrow> bool \<Rightarrow> kstate \<Rightarrow> (exception \<times> bool \<times> cap \<times> kstate) option) \<Rightarrow> ptr \<Rightarrow> bool \<Rightarrow> kstate \<Rightarrow>
     (exception \<times> kstate) option" where
  "cteDelete_by finalise slot exposed s =
     do { (status, success, cleanupInfo, s) \<leftarrow> finalise slot exposed s;
          if status \<noteq> EXCEPTION_NONE then Some (status, s)
          else do {
            s \<leftarrow> (if exposed \<or> success then emptySlot slot cleanupInfo s else Some s);
            Some (EXCEPTION_NONE, s) } }"

definition reduceZombie_by ::
    "(ptr \<Rightarrow> bool \<Rightarrow> kstate \<Rightarrow> (exception \<times> kstate) option) \<Rightarrow> ptr \<Rightarrow> bool \<Rightarrow> kstate \<Rightarrow> (exception \<times> kstate) option" where
  "reduceZombie_by delete slot immediate s =
     do { e \<leftarrow> ctes s slot;
          k_assert (is_ZombieCap (cteCap e));
          let p = capZombiePtr (cteCap e);
          let n = capZombieNumber (cteCap e);
          let type = capZombieType (cteCap e);
          k_assert (n > 0);
          if immediate then do {
            let endSlot = cte_index p (n - 1);
            (status, s) \<leftarrow> delete endSlot False s;
            if status \<noteq> EXCEPTION_NONE then Some (status, s)
            else do {
              e \<leftarrow> ctes s slot;
              if cteCap e = NullCap then Some (EXCEPTION_NONE, s)
              else do {
                k_assert (is_ZombieCap (cteCap e));
                let p2 = capZombiePtr (cteCap e);
                if p = p2 \<and> capZombieNumber (cteCap e) = n \<and> capZombieType (cteCap e) = type then do {
                  last \<leftarrow> ctes s endSlot;
                  k_assert (cteCap last = NullCap);
                  s \<leftarrow> write_cap slot (set_capZombieNumber (cteCap e) (n - 1)) s;
                  Some (EXCEPTION_NONE, s) }
                else do {
                  k_assert (p2 = slot \<and> p \<noteq> slot);
                  Some (EXCEPTION_NONE, s) } } } }
          else do {
            k_assert (p \<noteq> slot);
            first \<leftarrow> ctes s p;
            k_assert (is_ZombieCap (cteCap first) \<longrightarrow> p \<noteq> capZombiePtr (cteCap first));
            s \<leftarrow> capSwapForDelete p slot s;
            Some (EXCEPTION_NONE, s) } }"

text \<open>The two functions are monotone in the function they call.\<close>

lemma cteDelete_by_mono [partial_function_mono]:
  assumes "\<And>x b s. mono_option (\<lambda>f. finalise f x b s)"
  shows "mono_option (\<lambda>f. cteDelete_by (finalise f) slot exposed s)"
  unfolding cteDelete_by_def
  by (intro partial_function_mono assms)

lemma reduceZombie_by_mono [partial_function_mono]:
  assumes "\<And>x b s. mono_option (\<lambda>f. delete f x b s)"
  shows "mono_option (\<lambda>f. reduceZombie_by (delete f) slot immediate s)"
  unfolding reduceZombie_by_def Let_def
  by (intro partial_function_mono assms)

partial_function (option) finaliseSlot :: "ptr \<Rightarrow> bool \<Rightarrow> kstate \<Rightarrow> (exception \<times> bool \<times> cap \<times> kstate) option" where
  "finaliseSlot slot immediate s =
     do { e \<leftarrow> ctes s slot;
          if cteCap e = NullCap then Some (EXCEPTION_NONE, True, NullCap, s)
          else do {
            final \<leftarrow> isFinalCapability slot (ctes s);
            (remainder, cleanupInfo, s) \<leftarrow> finaliseCap (cteCap e) final False s;
            removable \<leftarrow> capRemovable remainder slot;
            if removable then Some (EXCEPTION_NONE, True, cleanupInfo, s)
            else do {
              s \<leftarrow> write_cap slot remainder s;
              if \<not> immediate \<and> capCyclicZombie remainder slot then Some (EXCEPTION_NONE, False, cleanupInfo, s)
              else do {
                (status, s) \<leftarrow> reduceZombie_by (cteDelete_by (\<lambda>x b s. finaliseSlot x b s)) slot immediate s;
                if status \<noteq> EXCEPTION_NONE then Some (status, False, NullCap, s)
                else do {
                  let (status, s) = preemptionPoint s;
                  if status \<noteq> EXCEPTION_NONE then Some (status, False, NullCap, s)
                  else finaliseSlot slot immediate s } } } } }"

definition cteDelete :: "ptr \<Rightarrow> bool \<Rightarrow> kstate \<Rightarrow> (exception \<times> kstate) option" where
  "cteDelete = cteDelete_by finaliseSlot"

definition reduceZombie :: "ptr \<Rightarrow> bool \<Rightarrow> kstate \<Rightarrow> (exception \<times> kstate) option" where
  "reduceZombie = reduceZombie_by cteDelete"

lemma finaliseSlot_calls: "reduceZombie_by (cteDelete_by (\<lambda>x b s. finaliseSlot x b s)) = reduceZombie"
  by (simp add: reduceZombie_def cteDelete_def)

partial_function (option) cteRevoke :: "ptr \<Rightarrow> kstate \<Rightarrow> (exception \<times> kstate) option" where
  "cteRevoke slot s =
     do { e \<leftarrow> ctes s slot;
          let nextPtr = mdbNext (cteMDBNode e);
          child \<leftarrow> (if nextPtr = 0 then Some False
                    else do { n \<leftarrow> ctes s nextPtr; isMDBParentOf e n });
          if \<not> child then Some (EXCEPTION_NONE, s)
          else do {
            (status, s) \<leftarrow> cteDelete nextPtr True s;
            if status \<noteq> EXCEPTION_NONE then Some (status, s)
            else do {
              let (status, s) = preemptionPoint s;
              if status \<noteq> EXCEPTION_NONE then Some (status, s)
              else cteRevoke slot s } } }"

end
