(* ===== verification/K_Revoke.thy ===== *)
theory K_Revoke
  imports K_Delete K_Mdb_Lists
begin

text \<open>
  Deleting a CNode with what it holds and revoking a capability end and remove exactly what they
  should, also when they are preempted.
\<close>

section \<open>Capabilities whose finalisation changes no slot\<close>

text \<open>Capabilities to untyped memory, to an idle endpoint, to a notification without waiting and bound
  threads, reply, domain and interrupt control capabilities, and those of the architecture (a mapped
  frame lies in an address space). Deleting the last one wakes no thread, stops no thread and
  leaves no zombie. Thread, CNode, zombie and interrupt handler capabilities are not among them.\<close>

definition quiet :: "kstate \<Rightarrow> cap \<Rightarrow> bool" where
  "quiet s c = (case c of
       UntypedCap _ _ _ _ \<Rightarrow> True
     | EndpointCap _ _ _ _ _ p \<Rightarrow> (case eps s p of Some e \<Rightarrow> ep_state e = EPState_Idle | None \<Rightarrow> False)
     | NotificationCap _ _ _ p \<Rightarrow>
         (case ntfns s p of Some n \<Rightarrow> ntfnBoundTCB n = 0 \<and> ntfn_state n \<noteq> NtfnState_Waiting | None \<Rightarrow> False)
     | ReplyCap _ _ _ \<Rightarrow> True
     | DomainCap \<Rightarrow> True
     | IRQControlCap \<Rightarrow> True
     | ArchObjectCap (FrameCap asid _ _ mapType _ _ _) \<Rightarrow> asid = 0 \<or> mapType = X86_MappingVSpace
     | ArchObjectCap _ \<Rightarrow> True
     | _ \<Rightarrow> False)"

text \<open>Everything but the slots, the calls to the hardware and the preemption counter.\<close>

definition rest_of :: "kstate \<Rightarrow> kstate" where
  "rest_of s = s\<lparr>ctes := Map.empty, machine_ops := [], ksWorkUnitsCompleted := 0, irq_polls := []\<rparr>"

lemma rest_of_upd [simp]:
  "rest_of (s\<lparr>ctes := h\<rparr>) = rest_of s" "rest_of (s\<lparr>machine_ops := m\<rparr>) = rest_of s" "rest_of (mach x s) = rest_of s"
  "rest_of (s\<lparr>ksWorkUnitsCompleted := w\<rparr>) = rest_of s" "rest_of (s\<lparr>irq_polls := b\<rparr>) = rest_of s"
  by (simp_all add: rest_of_def mach_def)

lemma quiet_rest: "rest_of s' = rest_of s \<Longrightarrow> quiet s' c = quiet s c"
proof -
  assume "rest_of s' = rest_of s"
  then have "eps (rest_of s') = eps (rest_of s)" "ntfns (rest_of s') = ntfns (rest_of s)" by simp_all
  then show ?thesis by (cases c) (simp_all add: quiet_def rest_of_def)
qed

definition same_but_machine :: "kstate \<Rightarrow> kstate \<Rightarrow> bool" where
  "same_but_machine s s' \<longleftrightarrow> s' = s \<or> (\<exists>x. s' = mach x s)"

lemma same_but_machine_simps [simp]: "same_but_machine s s" "same_but_machine s (mach x s)"
  by (auto simp: same_but_machine_def)

lemma mach_frame [simp]: "ctes (mach x s) = ctes s" "irq_polls (mach x s) = irq_polls s"
  by (simp_all add: mach_def)

lemma same_but_machineD:
  "same_but_machine s s' \<Longrightarrow> ctes s' = ctes s \<and> rest_of s' = rest_of s \<and> irq_polls s' = irq_polls s"
  by (auto simp: same_but_machine_def)

lemma Arch_finaliseCap_quiet:
  assumes "quiet s (ArchObjectCap a)"
  shows "\<exists>cl s'. Arch_finaliseCap a final s = Some (NullCap, cl, s') \<and> same_but_machine s s'
    \<and> (cl = NullCap \<or> (\<exists>f l. cl = ArchObjectCap (IOPortCap f l)))"
  using assms by (cases a) (auto simp: quiet_def Arch_finaliseCap_def Mode_finaliseCap_def)

lemma finaliseCap_quiet:
  assumes "quiet s c"
  shows "\<exists>cl s'. finaliseCap c final False s = Some (NullCap, cl, s') \<and> same_but_machine s s'
    \<and> (cl = NullCap \<or> (\<exists>f l. cl = ArchObjectCap (IOPortCap f l)))"
proof (cases c)
  case (ArchObjectCap a)
  then show ?thesis using Arch_finaliseCap_quiet assms by (simp add: finaliseCap_def)
qed (use assms in \<open>simp_all add: quiet_def finaliseCap_def cancelAllIPC_def unbindMaybeNotification_def cancelAllSignals_def
    split: option.splits\<close>)

lemma sameObjectAs_total: "sameObjectAs x y \<noteq> None"
  by (cases x; cases y; simp add: sameObjectAs_def sameRegionAs_def Arch_sameObjectAs_key)

lemma isFinalCapability_total:
  assumes rel: "mdb_rel h xss" and c: "h x = Some c"
  shows "\<exists>b. isFinalCapability x h = Some b"
proof -
  have nb: "mdbPrev (cteMDBNode c) \<noteq> 0 \<Longrightarrow> \<exists>d. h (mdbPrev (cteMDBNode c)) = Some d"
    "mdbNext (cteMDBNode c) \<noteq> 0 \<Longrightarrow> \<exists>d. h (mdbNext (cteMDBNode c)) = Some d"
    using mdb_no_cycle [OF assms] by auto
  define same where "same x y = the (sameObjectAs x y)" for x y
  have "sameObjectAs x y = Some (same x y)" for x y using sameObjectAs_total [of x y] by (auto simp: same_def)
  then show ?thesis using nb c by (auto simp: isFinalCapability_def Let_def ex_bool_eq)
qed

section \<open>Deleting one slot\<close>

lemma occupied_listed: "mdb_rel h xss \<Longrightarrow> caps_of h x = Some c \<Longrightarrow> c \<noteq> NullCap \<Longrightarrow> x \<in> set (concat xss)"
  using mdb_relD(4) [of h xss x] by (auto simp: caps_of_def slot_ok_def split: if_splits)

text \<open>The flags that the derivation tree uses: emptying a slot passes its flag on to its successor.\<close>

definition flags_kept :: "cte_heap \<Rightarrow> ptr \<Rightarrow> cte_heap \<Rightarrow> bool" where
  "flags_kept h slot h' \<longleftrightarrow> (\<forall>x c'. x \<noteq> slot \<longrightarrow> h' x = Some c' \<longrightarrow> (\<exists>c. h x = Some c
     \<and> mdbRevocable (cteMDBNode c') = mdbRevocable (cteMDBNode c)
     \<and> (mdbFirstBadged (cteMDBNode (the (h slot))) \<or> mdbFirstBadged (cteMDBNode c') = mdbFirstBadged (cteMDBNode c))))"

lemma emptySlot_heap_flags: "emptySlot_heap slot h = Some (True, h') \<Longrightarrow> flags_kept h slot h'"
  by (auto simp: flags_kept_def emptySlot_heap_def heap_upd_def upd_nonnull_def bind_eq_Some_conv Let_def
      split: option.splits if_splits)

lemma emptySlot_result:
  assumes rel: "mdb_rel (ctes s) xss" and slot: "slot \<in> set (concat xss)"
    and cl: "cl = NullCap \<or> (\<exists>f l. cl = ArchObjectCap (IOPortCap f l))"
  shows "\<exists>s'. emptySlot slot cl s = Some s' \<and> mdb_rel (ctes s') (map (removeAll slot) xss)
    \<and> caps_of (ctes s') = (caps_of (ctes s))(slot \<mapsto> NullCap) \<and> flags_kept (ctes s) slot (ctes s')
    \<and> rest_of s' = rest_of s \<and> irq_polls s' = irq_polls s"
proof -
  obtain h' where h': "emptySlot_heap slot (ctes s) = Some (True, h')" "mdb_rel h' (map (removeAll slot) xss)"
    "caps_of h' = (caps_of (ctes s))(slot \<mapsto> NullCap)" using emptySlot_heap_refines [OF rel slot] by blast
  let ?s = "postCapDeletion cl (s\<lparr>ctes := h'\<rparr>)"
  have "emptySlot slot cl s = Some ?s" using h'(1) by (simp add: emptySlot_def)
  moreover have "ctes ?s = h'" "rest_of ?s = rest_of s" "irq_polls ?s = irq_polls s"
    using cl by (auto simp: postCapDeletion_def Arch_postCapDeletion_def)
  ultimately show ?thesis using h' emptySlot_heap_flags [OF h'(1)] by (intro exI [of _ ?s]) simp
qed

lemma finaliseSlot_quiet:
  assumes rel: "mdb_rel (ctes s) xss" and c: "caps_of (ctes s) slot = Some c" "c \<noteq> NullCap" "quiet s c"
  shows "\<exists>cl s'. finaliseSlot slot exposed s = Some (EXCEPTION_NONE, True, cl, s') \<and> same_but_machine s s'
    \<and> (cl = NullCap \<or> (\<exists>f l. cl = ArchObjectCap (IOPortCap f l)))"
proof -
  obtain e where e: "ctes s slot = Some e" "cteCap e = c" using c(1) by (auto simp: caps_of_def)
  obtain final where final: "isFinalCapability slot (ctes s) = Some final" using isFinalCapability_total [OF rel e(1)] by blast
  obtain cl s' where cl: "finaliseCap c final False s = Some (NullCap, cl, s')" "same_but_machine s s'"
    "cl = NullCap \<or> (\<exists>f l. cl = ArchObjectCap (IOPortCap f l))" using finaliseCap_quiet [OF c(3)] by blast
  have "finaliseSlot slot exposed s = Some (EXCEPTION_NONE, True, cl, s')"
    by (subst finaliseSlot.simps) (simp add: e c(2) final cl(1) capRemovable_def)
  then show ?thesis using cl(2,3) by blast
qed

lemma cteDelete_quiet:
  assumes rel: "mdb_rel (ctes s) xss" and c: "caps_of (ctes s) slot = Some c" "c \<noteq> NullCap" "quiet s c"
  shows "\<exists>s'. cteDelete slot exposed s = Some (EXCEPTION_NONE, s') \<and> mdb_rel (ctes s') (map (removeAll slot) xss)
    \<and> caps_of (ctes s') = (caps_of (ctes s))(slot \<mapsto> NullCap) \<and> flags_kept (ctes s) slot (ctes s')
    \<and> rest_of s' = rest_of s \<and> irq_polls s' = irq_polls s"
proof -
  obtain cl s1 where f: "finaliseSlot slot exposed s = Some (EXCEPTION_NONE, True, cl, s1)" "same_but_machine s s1"
    "cl = NullCap \<or> (\<exists>f l. cl = ArchObjectCap (IOPortCap f l))" using finaliseSlot_quiet [OF assms] by blast
  have "slot \<in> set (concat xss)" by (rule occupied_listed [OF rel c(1,2)])
  then obtain s' where "emptySlot slot cl s1 = Some s'" "mdb_rel (ctes s') (map (removeAll slot) xss)"
    "caps_of (ctes s') = (caps_of (ctes s))(slot \<mapsto> NullCap)" "flags_kept (ctes s) slot (ctes s')"
    "rest_of s' = rest_of s" "irq_polls s' = irq_polls s"
    using emptySlot_result [of s1 xss slot cl] rel f(3) same_but_machineD [OF f(2)] by auto
  then show ?thesis using f(1) by (auto simp: cteDelete_def cteDelete_by_def)
qed

section \<open>Revocation\<close>

lemma preemptionPoint_cases:
  assumes "preemptionPoint s = (st, s')"
  shows "st = EXCEPTION_NONE \<or> st = EXCEPTION_PREEMPTED" "ctes s' = ctes s" "rest_of s' = rest_of s"
    "irq_polls s = [] \<Longrightarrow> st = EXCEPTION_NONE \<and> irq_polls s' = []"
  using assms by (auto simp: preemptionPoint_def isIRQPending_def Let_def split: if_splits list.splits)

definition mdb_child :: "cte_heap \<Rightarrow> ptr \<Rightarrow> ptr \<Rightarrow> bool option" where
  "mdb_child h slot x = do { e \<leftarrow> h slot; n \<leftarrow> h x; isMDBParentOf e n }"

lemma isMDBParentOf_kept:
  assumes "isMDBParentOf e d = Some True" "cteCap e' = cteCap e" "mdbRevocable (cteMDBNode e') = mdbRevocable (cteMDBNode e)"
    "cteCap n' = cteCap n" "mdbFirstBadged (cteMDBNode d) \<or> mdbFirstBadged (cteMDBNode n') = mdbFirstBadged (cteMDBNode n)"
  shows "isMDBParentOf e' n' = isMDBParentOf e n"
  using assms by (cases "sameRegionAs (cteCap e) (cteCap n)"; cases "cteCap e") (auto simp: isMDBParentOf_def bind_eq_Some_conv split: if_splits)

lemma mdb_child_kept:
  assumes "flags_kept h d h'" "caps_of h' = (caps_of h)(d \<mapsto> NullCap)" "mdb_child h slot d = Some True" "slot \<noteq> d" "x \<noteq> d"
  shows "mdb_child h' slot x = mdb_child h slot x"
proof (cases "h x")
  case None
  then have "h' x = None" using fun_cong [OF assms(2), of x] assms(5) by (simp add: caps_of_def)
  then show ?thesis using None by (cases "h slot"; cases "h' slot") (simp_all add: mdb_child_def)
next
  case (Some n)
  obtain e dc where e: "h slot = Some e" "h d = Some dc" "isMDBParentOf e dc = Some True"
    using assms(3) by (auto simp: mdb_child_def bind_eq_Some_conv)
  obtain e' where e': "h' slot = Some e'" "cteCap e' = cteCap e"
    using fun_cong [OF assms(2), of slot] assms(4) e(1) by (auto simp: caps_of_def)
  obtain n' where n': "h' x = Some n'" "cteCap n' = cteCap n"
    using fun_cong [OF assms(2), of x] assms(5) Some by (auto simp: caps_of_def)
  have "mdbRevocable (cteMDBNode e') = mdbRevocable (cteMDBNode e)"
    "mdbFirstBadged (cteMDBNode dc) \<or> mdbFirstBadged (cteMDBNode n') = mdbFirstBadged (cteMDBNode n)"
    using assms(1,4,5) e e'(1) n'(1) Some unfolding flags_kept_def by fastforce+
  then have "isMDBParentOf e' n' = isMDBParentOf e n" using isMDBParentOf_kept [OF e(3) e'(2)] n'(2) by blast
  then show ?thesis using e e' n' Some by (simp add: mdb_child_def)
qed

text \<open>One child is deleted after the other, with a preemption point behind each.\<close>

lemma cteRevoke_step:
  assumes rel: "mdb_rel (ctes s) (A @ (us @ slot # d # ds @ vs) # B)"
    and d: "mdb_child (ctes s) slot d = Some True" "caps_of (ctes s) d = Some c" "quiet s c"
  obtains s1 st s2 where "cteRevoke slot s = (if st \<noteq> EXCEPTION_NONE then Some (st, s2) else cteRevoke slot s2)"
    "preemptionPoint s1 = (st, s2)" "mdb_rel (ctes s2) (A @ (us @ slot # ds @ vs) # B)"
    "caps_of (ctes s2) = (caps_of (ctes s))(d \<mapsto> NullCap)" "flags_kept (ctes s) d (ctes s2)"
    "rest_of s2 = rest_of s" "irq_polls s1 = irq_polls s"
proof -
  have l: "mdb_dll (ctes s) (us @ slot # d # ds @ vs)" and dis: "distinct (concat (A @ (us @ slot # d # ds @ vs) # B))"
    using rel by (simp_all add: mdb_rel_def)
  obtain e n where e: "ctes s slot = Some e" "ctes s d = Some n" "isMDBParentOf e n = Some True"
    using d(1) by (auto simp: mdb_child_def bind_eq_Some_conv)
  have nx: "mdbNext (cteMDBNode e) = d" using dll_split [THEN iffD1, OF l] e(1) by simp
  have nz: "d \<noteq> 0" using l by (auto simp: dll_def)
  have "c \<noteq> NullCap" using d(2) rel by (auto simp: mdb_rel_def slot_ok_def caps_of_def)
  then obtain s1 where s1: "cteDelete d True s = Some (EXCEPTION_NONE, s1)"
    "mdb_rel (ctes s1) (map (removeAll d) (A @ (us @ slot # d # ds @ vs) # B))"
    "caps_of (ctes s1) = (caps_of (ctes s))(d \<mapsto> NullCap)" "flags_kept (ctes s) d (ctes s1)"
    "rest_of s1 = rest_of s" "irq_polls s1 = irq_polls s"
    using cteDelete_quiet [OF rel d(2) _ d(3)] by blast
  have lists: "map (removeAll d) (A @ (us @ slot # d # ds @ vs) # B) = A @ (us @ slot # ds @ vs) # B"
    using remove_lists [of A "us @ [slot]" d "ds @ vs" B] dis by simp
  obtain st s2 where pp: "preemptionPoint s1 = (st, s2)" by (cases "preemptionPoint s1")
  note p = preemptionPoint_cases [OF pp]
  have "cteRevoke slot s = (if st \<noteq> EXCEPTION_NONE then Some (st, s2) else cteRevoke slot s2)"
    by (subst cteRevoke.simps) (simp add: e nx nz s1(1) pp)
  then show thesis using that [OF _ pp] s1(2-6) p(2,3) lists by simp
qed

lemma cteRevoke_done:
  assumes rel: "mdb_rel (ctes s) (A @ (us @ slot # vs) # B)" and vs: "vs \<noteq> [] \<longrightarrow> mdb_child (ctes s) slot (hd vs) = Some False"
  shows "cteRevoke slot s = Some (EXCEPTION_NONE, s)"
proof -
  have l: "mdb_dll (ctes s) (us @ slot # vs)" using rel by (simp add: mdb_rel_def)
  obtain e where e: "ctes s slot = Some e" "mdbNext (cteMDBNode e) = hd0 vs" using dll_split [THEN iffD1, OF l] by blast
  show ?thesis
  proof (cases vs)
    case Nil
    then show ?thesis using e by (subst cteRevoke.simps) simp
  next
    case (Cons v vs')
    then have "v \<noteq> 0" using l by (auto simp: dll_def)
    moreover obtain n where "ctes s v = Some n" "isMDBParentOf e n = Some False"
      using vs Cons e(1) by (auto simp: mdb_child_def bind_eq_Some_conv)
    ultimately show ?thesis using e Cons by (subst cteRevoke.simps) simp
  qed
qed

text \<open>C24. Revoking a capability removes its descendants. In the list of the derivation database let
  the descendants of a slot be the slots behind it up to the first that is not one, and let
  them be quiet: capabilities to untyped memory, to an endpoint at which no thread waits, to a
  notification without waiting and bound threads, reply, domain, interrupt control and architecture
  capabilities, but no thread, CNode, zombie or interrupt handler capability. Then cteRevoke returns. If no interrupt arrives it deletes all
  descendants; otherwise it may be preempted behind any of them, and then the ones before are
  deleted and the others are still the descendants. In both cases the list without the deleted
  slots is the new list of the database, the deleted slots are empty, and every other
  capability and every other part of the kernel state is unchanged (apart from the record of calls to
  the hardware, the preemption counter and the interrupts polled).\<close>

theorem revoke_removes_descendants:
  assumes "mdb_rel (ctes s) (A @ (us @ slot # ds @ vs) # B)"
    and "\<forall>d \<in> set ds. mdb_child (ctes s) slot d = Some True \<and> (\<exists>c. caps_of (ctes s) d = Some c \<and> quiet s c)"
    and "vs \<noteq> [] \<longrightarrow> mdb_child (ctes s) slot (hd vs) = Some False"
  shows "\<exists>st s' k. cteRevoke slot s = Some (st, s') \<and> k \<le> length ds
    \<and> mdb_rel (ctes s') (A @ (us @ slot # drop k ds @ vs) # B)
    \<and> caps_of (ctes s') = (\<lambda>x. if x \<in> set (take k ds) then Some NullCap else caps_of (ctes s) x)
    \<and> rest_of s' = rest_of s
    \<and> (st = EXCEPTION_NONE \<and> k = length ds \<or> st = EXCEPTION_PREEMPTED \<and> 0 < k)
    \<and> (irq_polls s = [] \<longrightarrow> st = EXCEPTION_NONE)"
  using assms
proof (induction ds arbitrary: s)
  case Nil
  then have "cteRevoke slot s = Some (EXCEPTION_NONE, s)" using cteRevoke_done [of s A us slot vs B] by simp
  then show ?case using Nil(1) by simp
next
  case (Cons d ds)
  obtain c where c: "mdb_child (ctes s) slot d = Some True" "caps_of (ctes s) d = Some c" "quiet s c" using Cons.prems(2) by auto
  obtain s1 st s2 where r: "cteRevoke slot s = (if st \<noteq> EXCEPTION_NONE then Some (st, s2) else cteRevoke slot s2)"
    "preemptionPoint s1 = (st, s2)" "mdb_rel (ctes s2) (A @ (us @ slot # ds @ vs) # B)"
    "caps_of (ctes s2) = (caps_of (ctes s))(d \<mapsto> NullCap)" "flags_kept (ctes s) d (ctes s2)"
    "rest_of s2 = rest_of s" "irq_polls s1 = irq_polls s"
    using Cons.prems(1) by (auto intro: cteRevoke_step [OF _ c, of A us ds vs B])
  note p = preemptionPoint_cases [OF r(2)]
  show ?case
  proof (cases "st = EXCEPTION_NONE")
    case False
    then have "cteRevoke slot s = Some (st, s2)" "st = EXCEPTION_PREEMPTED" using r(1) p(1) by simp_all
    moreover have "irq_polls s \<noteq> []" using p(4) r(7) False by auto
    moreover have "caps_of (ctes s2) = (\<lambda>x. if x \<in> set (take 1 (d # ds)) then Some NullCap else caps_of (ctes s) x)"
      by (intro ext) (simp add: r(4))
    ultimately show ?thesis using r(3,6) by (intro exI [of _ st] exI [of _ s2] exI [of _ 1]) simp
  next
    case True
    have ne: "slot \<noteq> d" "\<And>x. x \<in> set ds \<union> set vs \<Longrightarrow> x \<noteq> d" using Cons.prems(1) by (auto simp: mdb_rel_def)
    have ch: "mdb_child (ctes s2) slot x = mdb_child (ctes s) slot x" if "x \<noteq> d" for x
      using mdb_child_kept [OF r(5,4) c(1) ne(1) that] .
    have "\<forall>x \<in> set ds. mdb_child (ctes s2) slot x = Some True \<and> (\<exists>c. caps_of (ctes s2) x = Some c \<and> quiet s2 c)"
      using Cons.prems(2) ne(2) ch by (simp add: r(4) quiet_rest [OF r(6)])
    moreover have "vs \<noteq> [] \<longrightarrow> mdb_child (ctes s2) slot (hd vs) = Some False" using Cons.prems(3) ne(2) ch by simp
    ultimately obtain st' s' k where IH: "cteRevoke slot s2 = Some (st', s')" "k \<le> length ds"
      "mdb_rel (ctes s') (A @ (us @ slot # drop k ds @ vs) # B)"
      "caps_of (ctes s') = (\<lambda>x. if x \<in> set (take k ds) then Some NullCap else caps_of (ctes s2) x)"
      "rest_of s' = rest_of s2" "st' = EXCEPTION_NONE \<and> k = length ds \<or> st' = EXCEPTION_PREEMPTED \<and> 0 < k"
      "irq_polls s2 = [] \<longrightarrow> st' = EXCEPTION_NONE" using Cons.IH [OF r(3)] by blast
    have "caps_of (ctes s') = (\<lambda>x. if x \<in> set (take (Suc k) (d # ds)) then Some NullCap else caps_of (ctes s) x)"
      unfolding IH(4) r(4) by (intro ext) simp
    moreover have "irq_polls s = [] \<longrightarrow> st' = EXCEPTION_NONE" using p(4) r(7) IH(7) by simp
    ultimately show ?thesis using r(1,6) True IH by (intro exI [of _ st'] exI [of _ s'] exI [of _ "Suc k"]) auto
  qed
qed

text \<open>Untyped memory of which an endpoint and a smaller piece of untyped memory are made, and a
  capability that is not made of it.\<close>

definition revoke_example :: kstate where
  "revoke_example = ks0\<lparr>
     eps := [0x100000 \<mapsto> \<lparr>epQueue_head = 0, epQueue_tail = 0, ep_state = EPState_Idle\<rparr>],
     ctes := [0x1000 \<mapsto> \<lparr>cteCap = UntypedCap 2 False 12 0x100000, cteMDBNode = \<lparr>mdbNext = 0x1020, mdbRevocable = True, mdbFirstBadged = True, mdbPrev = 0\<rparr>\<rparr>,
              0x1020 \<mapsto> \<lparr>cteCap = EndpointCap 0 True True True True 0x100000, cteMDBNode = \<lparr>mdbNext = 0x1040, mdbRevocable = True, mdbFirstBadged = True, mdbPrev = 0x1000\<rparr>\<rparr>,
              0x1040 \<mapsto> \<lparr>cteCap = UntypedCap 0 False 4 0x100010, cteMDBNode = \<lparr>mdbNext = 0x1060, mdbRevocable = True, mdbFirstBadged = True, mdbPrev = 0x1020\<rparr>\<rparr>,
              0x1060 \<mapsto> \<lparr>cteCap = UntypedCap 0 False 12 0x200000, cteMDBNode = \<lparr>mdbNext = 0, mdbRevocable = True, mdbFirstBadged = True, mdbPrev = 0x1040\<rparr>\<rparr>]\<rparr>"

theorem revoke_removes_descendants_witness:
  "\<exists>s'. cteRevoke 0x1000 revoke_example = Some (EXCEPTION_NONE, s') \<and> mdb_rel (ctes s') [[0x1000, 0x1060]]
    \<and> caps_of (ctes s') 0x1020 = Some NullCap \<and> caps_of (ctes s') 0x1040 = Some NullCap
    \<and> caps_of (ctes s') 0x1060 = Some (UntypedCap 0 False 12 0x200000)"
proof -
  have rel: "mdb_rel (ctes revoke_example) ([] @ ([] @ 0x1000 # [0x1020, 0x1040] @ [0x1060]) # [])"
    by (auto simp: mdb_rel_def revoke_example_def dll_def slot_ok_def split: if_splits)
  have ch: "\<forall>d \<in> set [0x1020, 0x1040]. mdb_child (ctes revoke_example) 0x1000 d = Some True
      \<and> (\<exists>c. caps_of (ctes revoke_example) d = Some c \<and> quiet revoke_example c)"
    "[0x1060 :: ptr] \<noteq> [] \<longrightarrow> mdb_child (ctes revoke_example) 0x1000 (hd [0x1060]) = Some False"
    by (simp_all add: mdb_child_def isMDBParentOf_def sameRegionAs_def caps_of_def revoke_example_def quiet_def cap_get_capPtr_def
        cap_get_capSizeBits_def cap_get_capIsPhysical_def MASK_def BIT_def word_le_nat_alt seL4_EndpointBits_def Let_def)
  have "irq_polls revoke_example = []" by (simp add: revoke_example_def ks0_def)
  with revoke_removes_descendants [OF rel ch] obtain s' where "cteRevoke 0x1000 revoke_example = Some (EXCEPTION_NONE, s')"
    "mdb_rel (ctes s') [[0x1000, 0x1060]]"
    "caps_of (ctes s') = (\<lambda>x. if x \<in> set [0x1020, 0x1040] then Some NullCap else caps_of (ctes revoke_example) x)" by auto
  moreover have "caps_of (ctes revoke_example) 0x1060 = Some (UntypedCap 0 False 12 0x200000)"
    by (simp add: caps_of_def revoke_example_def)
  ultimately show ?thesis by simp
qed

section \<open>Deleting a CNode\<close>

definition node_slots :: "ptr \<Rightarrow> nat \<Rightarrow> nat \<Rightarrow> ptr set" where
  "node_slots p j n = (\<lambda>i. cte_index p (of_nat i)) ` {j..<n}"

text \<open>A zombie that still has \<open>n\<close> slots to delete.\<close>

abbreviation zombie :: "u64 \<Rightarrow> ptr \<Rightarrow> nat \<Rightarrow> cap" where
  "zombie radix p n \<equiv> Zombie_new (of_nat n) radix p"

lemma zombie_fields:
  assumes "unat radix \<le> 58" "2 ^ (unat radix + 1) dvd unat p" "n \<le> 2 ^ unat radix"
  shows "is_ZombieCap (zombie radix p n)" "unat (capZombieNumber (zombie radix p n)) = n" "capZombieNumber (zombie radix p n) = of_nat n"
    "capZombiePtr (zombie radix p n) = p" "capZombieType (zombie radix p n) = radix"
    "m \<le> 2 ^ unat radix \<Longrightarrow> set_capZombieNumber (zombie radix p n) (of_nat m) = zombie radix p m"
proof -
  have small: "unat (of_nat m :: u64) = m" "unat (of_nat m :: u64) < 2 ^ (unat radix + 1)" if "m \<le> 2 ^ unat radix" for m
  proof -
    have "(2 :: nat) ^ unat radix < 2 ^ 64" using assms(1) by (intro power_strict_increasing) simp_all
    then have "m < 2 ^ 64" using that by linarith
    then show "unat (of_nat m :: u64) = m" by (simp only: unat_of_nat len_num0 len_num1 len_bit0 mod_less) simp
    moreover have "m < 2 * 2 ^ unat radix" using that zero_less_power [of "2 :: nat" "unat radix"] by linarith
    ultimately show "unat (of_nat m :: u64) < 2 ^ (unat radix + 1)" using that by simp
  qed
  have ne: "radix \<noteq> ZombieType_ZombieTCB" using assms(1) by (auto simp: ZombieType_ZombieTCB_def BIT_def wordRadix_def)
  have "unat radix < 63" "unat radix + 1 = unat (zombie_radix radix) + 1" "unat p mod 2 ^ (unat radix + 1) = 0"
    using assms(1,2) ne by (simp_all add: zombie_radix_def dvd_eq_mod_eq_0)
  note f = Zombie_new_fields [OF disjI2 [OF this(1)] this(2,3)]
  show "is_ZombieCap (zombie radix p n)" by (simp add: Zombie_new_def Let_def)
  show "capZombieNumber (zombie radix p n) = of_nat n" "capZombiePtr (zombie radix p n) = p" "capZombieType (zombie radix p n) = radix"
    using f small(2) [OF assms(3)] by blast+
  then show "unat (capZombieNumber (zombie radix p n)) = n" using small(1) [OF assms(3)] by simp
  show "set_capZombieNumber (zombie radix p n) (of_nat m) = zombie radix p m" if "m \<le> 2 ^ unat radix"
    using f small(2) that assms(3) by blast
qed

text \<open>Slots of the node, empty or with a quiet capability.\<close>

definition deletable :: "kstate \<Rightarrow> ptr \<Rightarrow> bool" where
  "deletable s x = (case caps_of (ctes s) x of Some c \<Rightarrow> c = NullCap \<or> quiet s c | None \<Rightarrow> False)"

lemma removeAll_not_in: "x \<notin> set (concat xss) \<Longrightarrow> map (removeAll x) xss = xss"
  by (induction xss) (auto simp: removeAll_id)

lemma cteDelete_deletable:
  assumes rel: "mdb_rel (ctes s) xss" and c: "deletable s x"
  shows "\<exists>s'. cteDelete x exposed s = Some (EXCEPTION_NONE, s') \<and> mdb_rel (ctes s') (map (removeAll x) xss)
    \<and> caps_of (ctes s') = (caps_of (ctes s))(x \<mapsto> NullCap) \<and> rest_of s' = rest_of s \<and> irq_polls s' = irq_polls s"
proof (cases "caps_of (ctes s) x = Some NullCap")
  case True
  then obtain e where e: "ctes s x = Some e" "cteCap e = NullCap" by (auto simp: caps_of_def)
  have "finaliseSlot x exposed s = Some (EXCEPTION_NONE, True, NullCap, s)" by (subst finaliseSlot.simps) (simp add: e)
  then have "cteDelete x exposed s = Some (EXCEPTION_NONE, s)"
    by (simp add: cteDelete_def cteDelete_by_def e emptySlot_def emptySlot_heap_def)
  moreover have "x \<notin> set (concat xss)" using mdb_relD(4) [OF rel e(1)] e(2) by (simp add: slot_ok_def split: if_splits)
  then have "map (removeAll x) xss = xss" by (rule removeAll_not_in)
  ultimately show ?thesis using rel True by (simp add: map_upd_triv)
next
  case False
  then obtain c where "caps_of (ctes s) x = Some c" "c \<noteq> NullCap" "quiet s c"
    using c by (auto simp: deletable_def split: option.splits)
  then show ?thesis using cteDelete_quiet [OF rel, of x c exposed] by blast
qed

lemma deletable_kept:
  "caps_of (ctes s') x = caps_of (ctes s) x \<Longrightarrow> rest_of s' = rest_of s \<Longrightarrow> deletable s' x = deletable s x"
  using quiet_rest [of s' s] by (auto simp: deletable_def split: option.split)

text \<open>Replacing the capability of an occupied slot.\<close>

lemma write_cap_rel:
  assumes rel: "mdb_rel (ctes s) xss" and "caps_of (ctes s) slot = Some c" "c \<noteq> NullCap" "c' \<noteq> NullCap"
  shows "\<exists>s'. write_cap slot c' s = Some s' \<and> mdb_rel (ctes s') xss \<and> caps_of (ctes s') = (caps_of (ctes s))(slot \<mapsto> c')
    \<and> rest_of s' = rest_of s \<and> irq_polls s' = irq_polls s"
proof -
  obtain e where e: "ctes s slot = Some e" "cteCap e = c" using assms(2) by (auto simp: caps_of_def)
  let ?h = "(ctes s)(slot \<mapsto> e\<lparr>cteCap := c'\<rparr>)"
  have "mdb_dll ?h xs \<longleftrightarrow> mdb_dll (ctes s) xs" for xs by (rule dll_cong) (simp add: e(1))
  moreover have "slot \<noteq> 0" using mdb_relD(3) [OF rel] e(1) by auto
  moreover have "slot_ok (slot \<in> set (concat xss)) e" by (rule mdb_relD(4) [OF rel e(1)])
  then have "slot_ok (slot \<in> set (concat xss)) (e\<lparr>cteCap := c'\<rparr>)" using e(2) assms(3,4) by (simp add: slot_ok_def split: if_splits)
  ultimately have "mdb_rel ?h xss" using rel by (simp add: mdb_rel_def)
  then show ?thesis using e(1) by (intro exI [of _ "s\<lparr>ctes := ?h\<rparr>"]) (simp add: write_cap_def cte_upd_def)
qed

lemma write_cap_same: "caps_of (ctes s) slot = Some c \<Longrightarrow> write_cap slot c s = Some s"
  by (auto simp: write_cap_def cte_upd_def caps_of_def fun_upd_idem)

text \<open>One step of a zombie deletes the last slot of the node and lowers the count.\<close>

lemma reduceZombie_step:
  assumes rel: "mdb_rel (ctes s) xss" and r: "unat radix \<le> 58" "2 ^ (unat radix + 1) dvd unat p" "Suc m \<le> 2 ^ unat radix"
    and z: "caps_of (ctes s) slot = Some (zombie radix p (Suc m))" and last: "deletable s (cte_index p (of_nat m))"
    and ne: "slot \<noteq> cte_index p (of_nat m)"
  shows "\<exists>s'. reduceZombie slot True s = Some (EXCEPTION_NONE, s') \<and> mdb_rel (ctes s') (map (removeAll (cte_index p (of_nat m))) xss)
    \<and> caps_of (ctes s') = (caps_of (ctes s))(cte_index p (of_nat m) \<mapsto> NullCap, slot \<mapsto> zombie radix p m)
    \<and> rest_of s' = rest_of s \<and> irq_polls s' = irq_polls s"
proof -
  let ?x = "cte_index p (of_nat m)"
  note f = zombie_fields [OF r]
  obtain e where e: "ctes s slot = Some e" "cteCap e = zombie radix p (Suc m)" using z by (auto simp: caps_of_def)
  obtain s1 where s1: "cteDelete ?x False s = Some (EXCEPTION_NONE, s1)" "mdb_rel (ctes s1) (map (removeAll ?x) xss)"
    "caps_of (ctes s1) = (caps_of (ctes s))(?x \<mapsto> NullCap)" "rest_of s1 = rest_of s" "irq_polls s1 = irq_polls s"
    using cteDelete_deletable [OF rel last] by blast
  have z1: "caps_of (ctes s1) slot = Some (zombie radix p (Suc m))" using z ne by (simp add: s1(3))
  then obtain e1 where e1: "ctes s1 slot = Some e1" "cteCap e1 = zombie radix p (Suc m)" by (auto simp: caps_of_def)
  have "caps_of (ctes s1) ?x = Some NullCap" by (simp add: s1(3))
  then obtain l where l: "ctes s1 ?x = Some l" "cteCap l = NullCap" by (auto simp: caps_of_def)
  have nn: "zombie radix p k \<noteq> NullCap" for k by (simp add: Zombie_new_def Let_def)
  obtain s2 where s2: "write_cap slot (zombie radix p m) s1 = Some s2" "mdb_rel (ctes s2) (map (removeAll ?x) xss)"
    "caps_of (ctes s2) = (caps_of (ctes s1))(slot \<mapsto> zombie radix p m)" "rest_of s2 = rest_of s1" "irq_polls s2 = irq_polls s1"
    using write_cap_rel [OF s1(2) z1 nn nn, of m] by blast
  have pos: "capZombieNumber (zombie radix p (Suc m)) > 0" using f(2) by (simp add: word_gt_0 del: of_nat_Suc) (metis nat.distinct(1) unat_0)
  have "of_nat (Suc m) - 1 = (of_nat m :: u64)" by simp
  moreover have "set_capZombieNumber (zombie radix p (Suc m)) (of_nat m) = zombie radix p m" using f(6) r(3) by simp
  ultimately have "reduceZombie slot True s = Some (EXCEPTION_NONE, s2)"
    using f(1,3-5) e e1 l s1(1) s2(1) nn pos by (simp add: reduceZombie_def reduceZombie_by_def Let_def del: of_nat_Suc)
  then show ?thesis using s2 s1(3-5) by auto
qed

lemma finaliseCap_zombie: "is_ZombieCap z \<Longrightarrow> finaliseCap z final False s = Some (z, NullCap, s)"
  by (cases z) (simp_all add: finaliseCap_def)

text \<open>What the loop of finaliseSlot does once the slot holds a zombie.\<close>

lemma finaliseSlot_zombie_step:
  assumes rel: "mdb_rel (ctes s) xss" and r: "unat radix \<le> 58" "2 ^ (unat radix + 1) dvd unat p" "n \<le> 2 ^ unat radix"
    and z: "caps_of (ctes s) slot = Some (zombie radix p n)" and ne: "slot \<noteq> p"
  shows "finaliseSlot slot True s =
    (if n = 0 then Some (EXCEPTION_NONE, True, NullCap, s)
     else do { (status, s) \<leftarrow> reduceZombie slot True s;
               if status \<noteq> EXCEPTION_NONE then Some (status, False, NullCap, s)
               else do { let (status, s) = preemptionPoint s;
                         if status \<noteq> EXCEPTION_NONE then Some (status, False, NullCap, s)
                         else finaliseSlot slot True s } })"
proof -
  note f = zombie_fields [OF r]
  obtain e where e: "ctes s slot = Some e" "cteCap e = zombie radix p n" using z by (auto simp: caps_of_def)
  have nn: "zombie radix p n \<noteq> NullCap" by (simp add: Zombie_new_def Let_def)
  obtain final where final: "isFinalCapability slot (ctes s) = Some final" using isFinalCapability_total [OF rel e(1)] by blast
  have "capRemovable (zombie radix p n) slot = Some (capZombieNumber (zombie radix p n) = 0
      \<or> capZombieNumber (zombie radix p n) = 1 \<and> slot = capZombiePtr (zombie radix p n))"
    using f(1) by (cases "zombie radix p n") (simp_all add: capRemovable_def Let_def)
  moreover have "capZombieNumber (zombie radix p n) = 0 \<longleftrightarrow> n = 0" using f(2) by (metis unat_eq_zero)
  ultimately have rem: "capRemovable (zombie radix p n) slot = Some (n = 0)" using f(4) ne by simp
  show ?thesis
    by (subst finaliseSlot.simps)
      (simp add: e nn final finaliseCap_zombie [OF f(1)] rem write_cap_same [OF z] finaliseSlot_calls)
qed

lemma node_slot_inj:
  assumes "i < 2 ^ unat radix" "j < 2 ^ unat radix" "unat radix \<le> 58" "cte_index p (of_nat i) = cte_index p (of_nat j)"
  shows "i = j"
proof -
  have "(2 :: nat) ^ unat radix \<le> 2 ^ 58" using assms(3) by (intro power_increasing) simp_all
  then have lt: "32 * i < 2 ^ 64" "32 * j < 2 ^ 64" using assms(1,2) by simp_all
  have "(of_nat (32 * i) :: u64) = of_nat (32 * j)"
    using assms(4) by (simp add: cte_index_def push_bit_eq_mult seL4_SlotBits_def algebra_simps)
  then have "unat (of_nat (32 * i) :: u64) = unat (of_nat (32 * j) :: u64)" by (simp only:)
  then show ?thesis using lt by (simp only: unat_of_nat len_num0 len_num1 len_bit0 mod_less) simp
qed

lemma node_slots_in: "i < n \<Longrightarrow> cte_index p (of_nat i) \<in> node_slots p 0 n"
  by (auto simp: node_slots_def)

lemma node_slots_first: "p \<in> node_slots p 0 (2 ^ k)"
  using node_slots_in [of 0 "2 ^ k" p] by (simp add: cte_index_def)

lemma node_slots_empty [simp]: "node_slots p j j = {}"
  by (simp add: node_slots_def)

lemma node_slots_Suc: "j \<le> m \<Longrightarrow> node_slots p j (Suc m) = insert (cte_index p (of_nat m)) (node_slots p j m)"
  by (simp add: node_slots_def atLeastLessThanSuc)

lemma removeAll_filter: "map (filter P) (map (removeAll x) xss) = map (filter (\<lambda>y. P y \<and> y \<noteq> x)) xss"
  by (simp add: removeAll_filter_not_eq conj_commute eq_commute)

text \<open>The state in which the zombie has \<open>j\<close> of its \<open>n\<close> slots left.\<close>

definition cleared :: "ptr \<Rightarrow> u64 \<Rightarrow> ptr \<Rightarrow> nat \<Rightarrow> nat \<Rightarrow> kstate \<Rightarrow> ptr list list \<Rightarrow> kstate \<Rightarrow> bool" where
  "cleared slot radix p j n s xss s' \<longleftrightarrow>
     mdb_rel (ctes s') (map (filter (\<lambda>x. x \<notin> node_slots p j n)) xss)
     \<and> caps_of (ctes s') = (\<lambda>x. if x = slot then Some (zombie radix p j)
           else if x \<in> node_slots p j n then Some NullCap else caps_of (ctes s) x)
     \<and> rest_of s' = rest_of s"

lemma cleared_one:
  assumes "mdb_rel (ctes s') (map (removeAll (cte_index p (of_nat m))) xss)"
    "caps_of (ctes s') = (caps_of (ctes s))(cte_index p (of_nat m) \<mapsto> NullCap, slot \<mapsto> zombie radix p m)" "rest_of s' = rest_of s"
  shows "cleared slot radix p m (Suc m) s xss s'"
proof -
  have "node_slots p m (Suc m) = {cte_index p (of_nat m)}" by (simp add: node_slots_def)
  then show ?thesis using assms by (simp add: cleared_def removeAll_filter_not_eq eq_commute fun_upd_def cong: if_cong)
qed

lemma cleared_more:
  assumes s1: "cleared slot radix p m (Suc m) s xss s1" "cleared slot radix p j m s1 yss s'" "j \<le> m"
    and yss: "yss = map (filter (\<lambda>x. x \<notin> node_slots p m (Suc m))) xss"
  shows "cleared slot radix p j (Suc m) s xss s'"
proof -
  have ns: "node_slots p j (Suc m) = node_slots p j m \<union> node_slots p m (Suc m)"
    using node_slots_Suc [OF assms(3), of p] node_slots_Suc [of m m p] by simp
  have "map (filter (\<lambda>x. x \<notin> node_slots p j m)) yss = map (filter (\<lambda>x. x \<notin> node_slots p j (Suc m))) xss"
    unfolding yss ns by (simp add: conj_commute)
  moreover have "caps_of (ctes s') = (\<lambda>x. if x = slot then Some (zombie radix p j)
           else if x \<in> node_slots p j (Suc m) then Some NullCap else caps_of (ctes s) x)"
    using s1(1,2) unfolding cleared_def ns by (intro ext) simp
  ultimately show ?thesis using s1(1,2) unfolding cleared_def by simp
qed

lemma finaliseSlot_zombie:
  assumes r: "unat radix \<le> 58" "2 ^ (unat radix + 1) dvd unat p" and ne: "slot \<notin> node_slots p 0 (2 ^ unat radix)"
  shows "mdb_rel (ctes s) xss \<Longrightarrow> n \<le> 2 ^ unat radix \<Longrightarrow> caps_of (ctes s) slot = Some (zombie radix p n) \<Longrightarrow>
    (\<forall>i < n. deletable s (cte_index p (of_nat i))) \<Longrightarrow>
    \<exists>st suc s' j. finaliseSlot slot True s = Some (st, suc, NullCap, s') \<and> j \<le> n \<and> cleared slot radix p j n s xss s'
      \<and> (st = EXCEPTION_NONE \<and> j = 0 \<or> st = EXCEPTION_PREEMPTED \<and> j < n) \<and> (irq_polls s = [] \<longrightarrow> st = EXCEPTION_NONE)"
proof (induction n arbitrary: s xss)
  case 0
  have "slot \<noteq> p" using ne node_slots_first by metis
  then have "finaliseSlot slot True s = Some (EXCEPTION_NONE, True, NullCap, s)"
    using finaliseSlot_zombie_step [OF 0(1) r 0(2,3)] by simp
  moreover have "map (filter (\<lambda>x. True)) xss = xss" by (rule map_idI) simp
  then have "cleared slot radix p 0 0 s xss s" using 0(1,3) by (auto simp: cleared_def)
  ultimately show ?case by auto
next
  case (Suc m)
  let ?x = "cte_index p (of_nat m)"
  have p: "slot \<noteq> p" "slot \<noteq> ?x" using ne node_slots_first node_slots_in [of m "2 ^ unat radix" p] Suc.prems(2) by auto
  have del: "deletable s ?x" using Suc.prems(4) by simp
  obtain s1 where s1: "reduceZombie slot True s = Some (EXCEPTION_NONE, s1)" "mdb_rel (ctes s1) (map (removeAll ?x) xss)"
    "caps_of (ctes s1) = (caps_of (ctes s))(?x \<mapsto> NullCap, slot \<mapsto> zombie radix p m)" "rest_of s1 = rest_of s" "irq_polls s1 = irq_polls s"
    using reduceZombie_step [OF Suc.prems(1) r Suc.prems(2,3) del p(2)] by blast
  obtain st s2 where pp: "preemptionPoint s1 = (st, s2)" by (cases "preemptionPoint s1")
  note q = preemptionPoint_cases [OF pp]
  have run: "finaliseSlot slot True s = (if st \<noteq> EXCEPTION_NONE then Some (st, False, NullCap, s2) else finaliseSlot slot True s2)"
    using finaliseSlot_zombie_step [OF Suc.prems(1) r Suc.prems(2,3) p(1)] s1(1) pp by simp
  have one: "cleared slot radix p m (Suc m) s xss s2" using s1(2-4) q(2,3) by (intro cleared_one) simp_all
  show ?case
  proof (cases "st = EXCEPTION_NONE")
    case False
    then have "irq_polls s \<noteq> []" using q(4) s1(5) by auto
    then show ?thesis using run False one q(1) by (intro exI [of _ st] exI [of _ False] exI [of _ s2] exI [of _ m]) simp
  next
    case True
    have other: "cte_index p (of_nat i) \<noteq> ?x" "cte_index p (of_nat i) \<noteq> slot" if "i < m" for i
      using that node_slot_inj [of i radix m p] r(1) Suc.prems(2) ne node_slots_in [of i "2 ^ unat radix" p] by auto
    have "\<forall>i < m. deletable s2 (cte_index p (of_nat i))"
      using Suc.prems(4) deletable_kept [of s2 _ s] q(2,3) s1(3,4) other by simp
    moreover have "mdb_rel (ctes s2) (map (filter (\<lambda>x. x \<notin> node_slots p m (Suc m))) xss)" using one by (simp only: cleared_def)
    moreover have "caps_of (ctes s2) slot = Some (zombie radix p m)" "m \<le> 2 ^ unat radix" using s1(3) q(2) Suc.prems(2) by simp_all
    ultimately obtain st' suc s' j where IH: "finaliseSlot slot True s2 = Some (st', suc, NullCap, s')" "j \<le> m"
      "cleared slot radix p j m s2 (map (filter (\<lambda>x. x \<notin> node_slots p m (Suc m))) xss) s'"
      "st' = EXCEPTION_NONE \<and> j = 0 \<or> st' = EXCEPTION_PREEMPTED \<and> j < m"
      "irq_polls s2 = [] \<longrightarrow> st' = EXCEPTION_NONE" using Suc.IH by blast
    have "cleared slot radix p j (Suc m) s xss s'" by (rule cleared_more [OF one IH(3,2) refl])
    then show ?thesis using run True IH q(4) s1(5)
      by (intro exI [of _ st'] exI [of _ suc] exI [of _ s'] exI [of _ j]) auto
  qed
qed

text \<open>The last capability of a CNode becomes a zombie for all its slots.\<close>

lemma finaliseSlot_cnode:
  assumes rel: "mdb_rel (ctes s) xss" and r: "unat radix \<le> 58" "2 ^ (unat radix + 1) dvd unat p" and ne: "slot \<noteq> p"
    and c: "caps_of (ctes s) slot = Some (CNodeCap radix gs g p)" and final: "isFinalCapability slot (ctes s) = Some True"
  shows "\<exists>s1. finaliseSlot slot True s = finaliseSlot slot True s1 \<and> mdb_rel (ctes s1) xss
    \<and> caps_of (ctes s1) = (caps_of (ctes s))(slot \<mapsto> zombie radix p (2 ^ unat radix)) \<and> rest_of s1 = rest_of s \<and> irq_polls s1 = irq_polls s"
proof -
  let ?z = "zombie radix p (2 ^ unat radix)"
  note f = zombie_fields [OF r order_refl]
  obtain e where e: "ctes s slot = Some e" "cteCap e = CNodeCap radix gs g p" using c by (auto simp: caps_of_def)
  have nn: "CNodeCap radix gs g p \<noteq> NullCap" "?z \<noteq> NullCap" by (simp_all add: Zombie_new_def Let_def)
  obtain s1 where s1: "write_cap slot ?z s = Some s1" "mdb_rel (ctes s1) xss" "caps_of (ctes s1) = (caps_of (ctes s))(slot \<mapsto> ?z)"
    "rest_of s1 = rest_of s" "irq_polls s1 = irq_polls s" using write_cap_rel [OF rel c nn] by blast
  have fin: "finaliseCap (CNodeCap radix gs g p) True False s = Some (?z, NullCap, s)"
    by (simp add: finaliseCap_def push_bit_eq_mult)
  have "capRemovable ?z slot = Some (capZombieNumber ?z = 0 \<or> capZombieNumber ?z = 1 \<and> slot = capZombiePtr ?z)"
    using f(1) by (cases ?z) (simp_all add: capRemovable_def Let_def)
  moreover have "capZombieNumber ?z \<noteq> 0" using f(2) by (metis power_not_zero unat_0 zero_neq_numeral)
  ultimately have rem: "capRemovable ?z slot = Some False" using f(4) ne by simp
  have z1: "caps_of (ctes s1) slot = Some ?z" by (simp add: s1(3))
  have "finaliseSlot slot True s1 = do { (status, s) \<leftarrow> reduceZombie slot True s1;
      if status \<noteq> EXCEPTION_NONE then Some (status, False, NullCap, s)
      else do { let (status, s) = preemptionPoint s;
                if status \<noteq> EXCEPTION_NONE then Some (status, False, NullCap, s)
                else finaliseSlot slot True s } }"
    using finaliseSlot_zombie_step [OF s1(2) r order_refl z1 ne] by simp
  then have "finaliseSlot slot True s = finaliseSlot slot True s1"
    by (subst finaliseSlot.simps) (simp add: e final fin rem s1(1) finaliseSlot_calls del: of_nat_power)
  then show ?thesis using s1(2-5) by blast
qed

text \<open>C25. Deleting the last capability of a CNode deletes what the CNode holds. Let every slot
  of the CNode be empty or quiet: it may hold a capability to untyped memory, to an endpoint at
  which no thread waits, to a notification without waiting and bound threads, a reply, domain,
  interrupt control or architecture capability, but no thread, CNode, zombie or interrupt handler
  capability; and let the deleted slot lie outside of the CNode. Then cteDelete returns. If no interrupt arrives the slot and all slots of the CNode are empty
  and out of the derivation database, and nothing else has changed. If it is preempted, the slot holds
  a zombie that counts the slots left, the slots above are empty, and nothing else has changed;
  the same holds when the deletion of such a zombie is continued.\<close>

theorem delete_cnode:
  assumes "mdb_rel (ctes s) xss" "unat radix \<le> 58" "2 ^ (unat radix + 1) dvd unat p" "slot \<notin> node_slots p 0 (2 ^ unat radix)"
    and "caps_of (ctes s) slot = Some (CNodeCap radix gs g p) \<and> isFinalCapability slot (ctes s) = Some True \<and> n = 2 ^ unat radix
      \<or> caps_of (ctes s) slot = Some (zombie radix p n) \<and> n \<le> 2 ^ unat radix"
    and "\<forall>i < n. deletable s (cte_index p (of_nat i))"
  shows "\<exists>st s'. cteDelete slot True s = Some (st, s') \<and> (irq_polls s = [] \<longrightarrow> st = EXCEPTION_NONE)
    \<and> (st = EXCEPTION_NONE \<and> rest_of s' = rest_of s
         \<and> mdb_rel (ctes s') (map (filter (\<lambda>x. x \<noteq> slot \<and> x \<notin> node_slots p 0 n)) xss)
         \<and> caps_of (ctes s') = (\<lambda>x. if x = slot \<or> x \<in> node_slots p 0 n then Some NullCap else caps_of (ctes s) x)
       \<or> st = EXCEPTION_PREEMPTED \<and> (\<exists>j < n. cleared slot radix p j n s xss s'))"
proof -
  have "slot \<noteq> p" using assms(4) node_slots_first by metis
  with assms(5) have "\<exists>s1. finaliseSlot slot True s = finaliseSlot slot True s1 \<and> mdb_rel (ctes s1) xss
    \<and> caps_of (ctes s1) = (caps_of (ctes s))(slot \<mapsto> zombie radix p n) \<and> rest_of s1 = rest_of s \<and> irq_polls s1 = irq_polls s"
    using finaliseSlot_cnode [OF assms(1-3)] assms(1) map_upd_triv [of "caps_of (ctes s)" slot] by metis
  then obtain s1 where s1: "finaliseSlot slot True s = finaliseSlot slot True s1" "mdb_rel (ctes s1) xss"
    "caps_of (ctes s1) = (caps_of (ctes s))(slot \<mapsto> zombie radix p n)" "rest_of s1 = rest_of s" "irq_polls s1 = irq_polls s" by blast
  have n: "n \<le> 2 ^ unat radix" using assms(5) by auto
  have "cte_index p (of_nat i) \<noteq> slot" if "i < n" for i
    using assms(4) that n node_slots_in [of i "2 ^ unat radix" p] by auto
  then have "\<forall>i < n. deletable s1 (cte_index p (of_nat i))"
    using assms(6) deletable_kept [of s1 _ s] s1(3,4) by simp
  moreover have "caps_of (ctes s1) slot = Some (zombie radix p n)" by (simp add: s1(3))
  ultimately obtain st suc s2 j where f: "finaliseSlot slot True s1 = Some (st, suc, NullCap, s2)" "j \<le> n"
    "cleared slot radix p j n s1 xss s2" "st = EXCEPTION_NONE \<and> j = 0 \<or> st = EXCEPTION_PREEMPTED \<and> j < n"
    "irq_polls s1 = [] \<longrightarrow> st = EXCEPTION_NONE"
    using finaliseSlot_zombie [OF assms(2-4) s1(2) n] by blast
  have cl: "cleared slot radix p j n s xss s2" using f(3) s1(3,4) by (auto simp: cleared_def)
  show ?thesis
  proof (cases "st = EXCEPTION_NONE")
    case False
    then have "cteDelete slot True s = Some (st, s2)" using f(1) s1(1) by (simp add: cteDelete_def cteDelete_by_def)
    then show ?thesis using False f(4,5) s1(5) cl by auto
  next
    case True
    have rel2: "mdb_rel (ctes s2) (map (filter (\<lambda>x. x \<notin> node_slots p 0 n)) xss)" "caps_of (ctes s2) slot = Some (zombie radix p 0)"
      using cl f(4) True by (simp_all add: cleared_def)
    then have "slot \<in> set (concat (map (filter (\<lambda>x. x \<notin> node_slots p 0 n)) xss))"
      by (rule occupied_listed) (simp add: Zombie_new_def Let_def)
    then obtain s' where s': "emptySlot slot NullCap s2 = Some s'"
      "mdb_rel (ctes s') (map (removeAll slot) (map (filter (\<lambda>x. x \<notin> node_slots p 0 n)) xss))"
      "caps_of (ctes s') = (caps_of (ctes s2))(slot \<mapsto> NullCap)" "rest_of s' = rest_of s2"
      using emptySlot_result [OF rel2(1)] by blast
    have "cteDelete slot True s = Some (EXCEPTION_NONE, s')" using f(1) s1(1) True s'(1) by (simp add: cteDelete_def cteDelete_by_def)
    moreover have "map (removeAll slot) (map (filter P) xss) = map (filter (\<lambda>x. x \<noteq> slot \<and> P x)) xss" for P
      by (simp add: removeAll_filter_not_eq eq_commute conj_commute)
    then have "mdb_rel (ctes s') (map (filter (\<lambda>x. x \<noteq> slot \<and> x \<notin> node_slots p 0 n)) xss)" using s'(2) by (simp only:)
    moreover have "caps_of (ctes s') = (\<lambda>x. if x = slot \<or> x \<in> node_slots p 0 n then Some NullCap else caps_of (ctes s) x)"
      using cl f(4) True unfolding s'(3) cleared_def by (intro ext) simp
    ultimately show ?thesis using s'(4) cl by (intro exI [of _ EXCEPTION_NONE] exI [of _ s']) (simp add: cleared_def)
  qed
qed

text \<open>A CNode of two slots, the first of which holds a capability to untyped memory.\<close>

definition cnode_example :: kstate where
  "cnode_example = ks0\<lparr>
     ctes := [0x1000 \<mapsto> \<lparr>cteCap = CNodeCap 1 0 0 0x8000, cteMDBNode = nullMDBNode\<rparr>,
              0x8000 \<mapsto> \<lparr>cteCap = UntypedCap 0 False 12 0x100000, cteMDBNode = nullMDBNode\<rparr>,
              0x8020 \<mapsto> \<lparr>cteCap = NullCap, cteMDBNode = nullMDBNode\<rparr>]\<rparr>"

theorem delete_cnode_witness:
  "\<exists>s'. cteDelete 0x1000 True cnode_example = Some (EXCEPTION_NONE, s') \<and> mdb_rel (ctes s') [[], []]
    \<and> caps_of (ctes s') 0x1000 = Some NullCap \<and> caps_of (ctes s') 0x8000 = Some NullCap"
proof -
  have rel: "mdb_rel (ctes cnode_example) [[0x1000], [0x8000]]"
    by (auto simp: mdb_rel_def cnode_example_def dll_def slot_ok_def unlinked_def nullMDBNode_def split: if_splits)
  have slots: "node_slots 0x8000 0 2 = {0x8000, 0x8020}"
    by (auto simp: node_slots_def cte_index_def seL4_SlotBits_def numeral_2_eq_2 atLeastLessThanSuc)
  have "unat (1 :: u64) \<le> 58" "2 ^ (unat (1 :: u64) + 1) dvd unat (0x8000 :: u64)" "0x1000 \<notin> node_slots 0x8000 0 (2 ^ unat (1 :: u64))"
    by (simp_all add: slots)
  moreover have "caps_of (ctes cnode_example) 0x1000 = Some (CNodeCap 1 0 0 0x8000) \<and> isFinalCapability 0x1000 (ctes cnode_example) = Some True
      \<and> (2 :: nat) = 2 ^ unat (1 :: u64) \<or> caps_of (ctes cnode_example) 0x1000 = Some (zombie 1 0x8000 2) \<and> (2 :: nat) \<le> 2 ^ unat (1 :: u64)"
    by (simp add: caps_of_def cnode_example_def isFinalCapability_def nullMDBNode_def)
  moreover have "\<forall>i < 2. deletable cnode_example (cte_index 0x8000 (of_nat i))"
    by (auto simp: less_Suc_eq numeral_2_eq_2 deletable_def cnode_example_def caps_of_def quiet_def cte_index_def seL4_SlotBits_def)
  moreover have "irq_polls cnode_example = []" by (simp add: cnode_example_def ks0_def)
  ultimately obtain s' where "cteDelete 0x1000 True cnode_example = Some (EXCEPTION_NONE, s')"
    "mdb_rel (ctes s') (map (filter (\<lambda>x. x \<noteq> 0x1000 \<and> x \<notin> node_slots 0x8000 0 2)) [[0x1000], [0x8000]])"
    "caps_of (ctes s') = (\<lambda>x. if x = 0x1000 \<or> x \<in> node_slots 0x8000 0 2 then Some NullCap else caps_of (ctes cnode_example) x)"
    using delete_cnode [OF rel, of 1 "0x8000" "0x1000" 0 0 2] by auto
  then show ?thesis by (simp add: slots)
qed

end
