(* ===== verification/K_CNode.thy ===== *)
theory K_CNode
  imports K_Delete
begin

text \<open>
  The invocations of CNode capabilities (src/kernel/src/object/cnode.c): copying, minting, moving,
  mutating, rotating, deleting and revoking capabilities, saving the reply capability of the
  caller and cancelling the sends of a badge. The numbers of the operations are the positions of their
  entries in libsel4/include/interfaces/object-api.xml that the configuration selects.
\<close>

definition CNodeRevoke :: u64 where "CNodeRevoke = 17"
definition CNodeDelete :: u64 where "CNodeDelete = 18"
definition CNodeCancelBadgedSends :: u64 where "CNodeCancelBadgedSends = 19"
definition CNodeCopy :: u64 where "CNodeCopy = 20"
definition CNodeMint :: u64 where "CNodeMint = 21"
definition CNodeMove :: u64 where "CNodeMove = 22"
definition CNodeMutate :: u64 where "CNodeMutate = 23"
definition CNodeRotate :: u64 where "CNodeRotate = 24"
definition CNodeSaveCaller :: u64 where "CNodeSaveCaller = 25"
definition CNODE_LAST_INVOCATION :: u64 where "CNODE_LAST_INVOCATION = CNodeSaveCaller"

lemmas cnode_labels = CNodeRevoke_def CNodeDelete_def CNodeCancelBadgedSends_def CNodeCopy_def CNodeMint_def CNodeMove_def
  CNodeMutate_def CNodeRotate_def CNodeSaveCaller_def CNODE_LAST_INVOCATION_def

section \<open>Performing the operations\<close>

definition invokeCNodeRevoke :: "ptr \<Rightarrow> kstate \<Rightarrow> (exception \<times> kstate) option" where
  "invokeCNodeRevoke destSlot = cteRevoke destSlot"

definition invokeCNodeDelete :: "ptr \<Rightarrow> kstate \<Rightarrow> (exception \<times> kstate) option" where
  "invokeCNodeDelete destSlot = cteDelete destSlot True"

definition invokeCNodeCancelBadgedSends :: "cap \<Rightarrow> kstate \<Rightarrow> (exception \<times> kstate) option" where
  "invokeCNodeCancelBadgedSends c s =
     do { k_assert (is_EndpointCap c);
          let badge = capEPBadge c;
          s \<leftarrow> (if badge \<noteq> 0 then cancelBadgedSends (capEPPtr c) badge s else Some s);
          Some (EXCEPTION_NONE, s) }"

definition invokeCNodeInsert :: "cap \<Rightarrow> ptr \<Rightarrow> ptr \<Rightarrow> kstate \<Rightarrow> (exception \<times> kstate) option" where
  "invokeCNodeInsert c srcSlot destSlot s = do { s \<leftarrow> cteInsert c srcSlot destSlot s; Some (EXCEPTION_NONE, s) }"

definition invokeCNodeMove :: "cap \<Rightarrow> ptr \<Rightarrow> ptr \<Rightarrow> kstate \<Rightarrow> (exception \<times> kstate) option" where
  "invokeCNodeMove c srcSlot destSlot s = do { s \<leftarrow> cteMove c srcSlot destSlot s; Some (EXCEPTION_NONE, s) }"

definition invokeCNodeRotate :: "cap \<Rightarrow> cap \<Rightarrow> ptr \<Rightarrow> ptr \<Rightarrow> ptr \<Rightarrow> kstate \<Rightarrow> (exception \<times> kstate) option" where
  "invokeCNodeRotate cap1 cap2 slot1 slot2 slot3 s =
     do { s \<leftarrow> (if slot1 = slot3 then cteSwap cap1 slot1 cap2 slot2 s
                else do { s \<leftarrow> cteMove cap2 slot2 slot3 s; cteMove cap1 slot1 slot2 s });
          Some (EXCEPTION_NONE, s) }"

definition invokeCNodeSaveCaller :: "ptr \<Rightarrow> kstate \<Rightarrow> (exception \<times> kstate) option" where
  "invokeCNodeSaveCaller destSlot s =
     do { let srcSlot = TCB_PTR_CTE_PTR (ksCurThread s) tcbCaller;
          e \<leftarrow> ctes s srcSlot;
          s \<leftarrow> (case cteCap e of
                  NullCap \<Rightarrow> Some s
                | ReplyCap _ master _ \<Rightarrow> if \<not> master then cteMove (cteCap e) srcSlot destSlot s else Some s
                | _ \<Rightarrow> None);
          Some (EXCEPTION_NONE, s) }"

section \<open>Decoding\<close>

text \<open>The switch over Copy, Mint, Move and Mutate: the status, the new capability and whether the
  operation moves.\<close>

definition decodeCNode_newCap :: "u64 \<Rightarrow> u64 \<Rightarrow> ptr \<Rightarrow> ptr \<Rightarrow> kstate \<Rightarrow> (exception \<times> cap \<times> bool \<times> kstate) option" where
  "decodeCNode_newCap invLabel len srcSlot buffer s =
     do { src \<leftarrow> ctes s srcSlot;
          if invLabel = CNodeCopy then
            if len < 5 then Some (EXCEPTION_SYSCALL_ERROR, NullCap, False, s\<lparr>current_syscall_error := TruncatedMessage\<rparr>)
            else do {
              w \<leftarrow> getSyscallArg 4 buffer s;
              let srcCap = maskCapRights (rightsFromWord w) (cteCap src);
              (status, newCap, s) \<leftarrow> deriveCap srcSlot srcCap s;
              Some (status, newCap, False, s) }
          else if invLabel = CNodeMint then
            if len < 6 then Some (EXCEPTION_SYSCALL_ERROR, NullCap, False, s\<lparr>current_syscall_error := TruncatedMessage\<rparr>)
            else do {
              w \<leftarrow> getSyscallArg 4 buffer s;
              capData \<leftarrow> getSyscallArg 5 buffer s;
              let srcCap = maskCapRights (rightsFromWord w) (cteCap src);
              (status, newCap, s) \<leftarrow> deriveCap srcSlot (updateCapData False capData srcCap) s;
              Some (status, newCap, False, s) }
          else if invLabel = CNodeMove then Some (EXCEPTION_NONE, cteCap src, True, s)
          else if invLabel = CNodeMutate then
            if len < 5 then Some (EXCEPTION_SYSCALL_ERROR, NullCap, True, s\<lparr>current_syscall_error := TruncatedMessage\<rparr>)
            else do {
              capData \<leftarrow> getSyscallArg 4 buffer s;
              Some (EXCEPTION_NONE, updateCapData True capData (cteCap src), True, s) }
          else None }"

definition decodeCNode_copy :: "u64 \<Rightarrow> u64 \<Rightarrow> ptr \<Rightarrow> ptr \<Rightarrow> kstate \<Rightarrow> (exception \<times> kstate) option" where
  "decodeCNode_copy invLabel len destSlot buffer s =
     (if len < 4 \<or> current_extra_caps s 0 = 0
      then Some (EXCEPTION_SYSCALL_ERROR, s\<lparr>current_syscall_error := TruncatedMessage\<rparr>)
      else do {
        srcIndex \<leftarrow> getSyscallArg 2 buffer s;
        srcDepth \<leftarrow> getSyscallArg 3 buffer s;
        root \<leftarrow> ctes s (current_extra_caps s 0);
        (status, s) \<leftarrow> ensureEmptySlot destSlot s;
        if status \<noteq> EXCEPTION_NONE then Some (status, s)
        else do {
          (status, srcSlot, s) \<leftarrow> lookupSourceSlot (cteCap root) srcIndex srcDepth s;
          if status \<noteq> EXCEPTION_NONE then Some (status, s)
          else do {
            src \<leftarrow> ctes s srcSlot;
            if cteCap src = NullCap
            then Some (EXCEPTION_SYSCALL_ERROR, s\<lparr>current_syscall_error := FailedLookup True,
                   current_lookup_fault := LUF_MissingCapability srcDepth\<rparr>)
            else do {
              (status, newCap, isMove, s) \<leftarrow> decodeCNode_newCap invLabel len srcSlot buffer s;
              if status \<noteq> EXCEPTION_NONE then Some (status, s)
              else if newCap = NullCap then Some (EXCEPTION_SYSCALL_ERROR, s\<lparr>current_syscall_error := IllegalOperation\<rparr>)
              else do {
                s \<leftarrow> setThreadState (ksCurThread s) ThreadState_Restart s;
                if isMove then invokeCNodeMove newCap srcSlot destSlot s
                else invokeCNodeInsert newCap srcSlot destSlot s } } } } })"

definition decodeCNode_rotate :: "u64 \<Rightarrow> ptr \<Rightarrow> ptr \<Rightarrow> kstate \<Rightarrow> (exception \<times> kstate) option" where
  "decodeCNode_rotate len destSlot buffer s =
     (if len < 8 \<or> current_extra_caps s 0 = 0 \<or> current_extra_caps s 1 = 0
      then Some (EXCEPTION_SYSCALL_ERROR, s\<lparr>current_syscall_error := TruncatedMessage\<rparr>)
      else do {
        pivotNewData \<leftarrow> getSyscallArg 2 buffer s;
        pivotIndex \<leftarrow> getSyscallArg 3 buffer s;
        pivotDepth \<leftarrow> getSyscallArg 4 buffer s;
        srcNewData \<leftarrow> getSyscallArg 5 buffer s;
        srcIndex \<leftarrow> getSyscallArg 6 buffer s;
        srcDepth \<leftarrow> getSyscallArg 7 buffer s;
        pivotRoot \<leftarrow> ctes s (current_extra_caps s 0);
        srcRoot \<leftarrow> ctes s (current_extra_caps s 1);
        (status, srcSlot, s) \<leftarrow> lookupSourceSlot (cteCap srcRoot) srcIndex srcDepth s;
        if status \<noteq> EXCEPTION_NONE then Some (status, s)
        else do {
          (status, pivotSlot, s) \<leftarrow> lookupPivotSlot (cteCap pivotRoot) pivotIndex pivotDepth s;
          if status \<noteq> EXCEPTION_NONE then Some (status, s)
          else if pivotSlot = srcSlot \<or> pivotSlot = destSlot
          then Some (EXCEPTION_SYSCALL_ERROR, s\<lparr>current_syscall_error := IllegalOperation\<rparr>)
          else do {
            (status, s) \<leftarrow> (if srcSlot \<noteq> destSlot then ensureEmptySlot destSlot s else Some (EXCEPTION_NONE, s));
            if status \<noteq> EXCEPTION_NONE then Some (status, s)
            else do {
              src \<leftarrow> ctes s srcSlot;
              pivot \<leftarrow> ctes s pivotSlot;
              if cteCap src = NullCap
              then Some (EXCEPTION_SYSCALL_ERROR, s\<lparr>current_syscall_error := FailedLookup True,
                     current_lookup_fault := LUF_MissingCapability srcDepth\<rparr>)
              else if cteCap pivot = NullCap
              then Some (EXCEPTION_SYSCALL_ERROR, s\<lparr>current_syscall_error := FailedLookup False,
                     current_lookup_fault := LUF_MissingCapability pivotDepth\<rparr>)
              else do {
                let newSrcCap = updateCapData True srcNewData (cteCap src);
                let newPivotCap = updateCapData True pivotNewData (cteCap pivot);
                if newSrcCap = NullCap then Some (EXCEPTION_SYSCALL_ERROR, s\<lparr>current_syscall_error := IllegalOperation\<rparr>)
                else if newPivotCap = NullCap then Some (EXCEPTION_SYSCALL_ERROR, s\<lparr>current_syscall_error := IllegalOperation\<rparr>)
                else do {
                  s \<leftarrow> setThreadState (ksCurThread s) ThreadState_Restart s;
                  invokeCNodeRotate newSrcCap newPivotCap srcSlot pivotSlot destSlot s } } } } } })"

definition decodeCNodeInvocation :: "u64 \<Rightarrow> u64 \<Rightarrow> cap \<Rightarrow> ptr \<Rightarrow> kstate \<Rightarrow> (exception \<times> kstate) option" where
  "decodeCNodeInvocation invLabel len c buffer s =
     do { k_assert (is_CNodeCap c);
          if invLabel < CNodeRevoke \<or> invLabel > CNODE_LAST_INVOCATION
          then Some (EXCEPTION_SYSCALL_ERROR, s\<lparr>current_syscall_error := IllegalOperation\<rparr>)
          else if len < 2 then Some (EXCEPTION_SYSCALL_ERROR, s\<lparr>current_syscall_error := TruncatedMessage\<rparr>)
          else do {
            index \<leftarrow> getSyscallArg 0 buffer s;
            w_bits \<leftarrow> getSyscallArg 1 buffer s;
            (status, destSlot, s) \<leftarrow> lookupTargetSlot c index w_bits s;
            if status \<noteq> EXCEPTION_NONE then Some (status, s)
            else if invLabel \<ge> CNodeCopy \<and> invLabel \<le> CNodeMutate then decodeCNode_copy invLabel len destSlot buffer s
            else if invLabel = CNodeRevoke then do {
              s \<leftarrow> setThreadState (ksCurThread s) ThreadState_Restart s;
              invokeCNodeRevoke destSlot s }
            else if invLabel = CNodeDelete then do {
              s \<leftarrow> setThreadState (ksCurThread s) ThreadState_Restart s;
              invokeCNodeDelete destSlot s }
            else if invLabel = CNodeSaveCaller then do {
              (status, s) \<leftarrow> ensureEmptySlot destSlot s;
              if status \<noteq> EXCEPTION_NONE then Some (status, s)
              else do {
                s \<leftarrow> setThreadState (ksCurThread s) ThreadState_Restart s;
                invokeCNodeSaveCaller destSlot s } }
            else if invLabel = CNodeCancelBadgedSends then do {
              dest \<leftarrow> ctes s destSlot;
              if \<not> hasCancelSendRights (cteCap dest)
              then Some (EXCEPTION_SYSCALL_ERROR, s\<lparr>current_syscall_error := IllegalOperation\<rparr>)
              else do {
                s \<leftarrow> setThreadState (ksCurThread s) ThreadState_Restart s;
                invokeCNodeCancelBadgedSends (cteCap dest) s } }
            else if invLabel = CNodeRotate then decodeCNode_rotate len destSlot buffer s
            else Some (EXCEPTION_NONE, s) } }"

end
