(* ===== verification/K_Authority.thy ===== *)
theory K_Authority
  imports K_CNode K_Decode K_Mdb_Lists
begin

text \<open>
  Copying, minting, moving and mutating capabilities never creates authority.
\<close>

section \<open>Derived capabilities\<close>

text \<open>A capability with no more authority than another: to the same object, with no more rights, and
  with the badge of the other if that has one.\<close>

definition no_more_than :: "cap \<Rightarrow> cap \<Rightarrow> bool" where
  "no_more_than d c \<longleftrightarrow> object_of d = object_of c \<and> (object_of c = None \<or> is_ReplyCap c \<longrightarrow> d = c)
     \<and> rights_meet (conveyed d) (conveyed c) = conveyed d
     \<and> (is_EndpointCap c \<and> capEPBadge c \<noteq> 0 \<longrightarrow> capEPBadge d = capEPBadge c)
     \<and> (is_NotificationCap c \<and> capNtfnBadge c \<noteq> 0 \<longrightarrow> capNtfnBadge d = capNtfnBadge c)"

lemma rights_meet_simps: "rights_meet r r = r" "rights_meet (rights_meet a b) c = rights_meet a (rights_meet b c)"
  by (simp_all add: rights_meet_def)

lemma no_more_than_refl: "no_more_than c c"
  by (simp add: no_more_than_def rights_meet_simps)

lemma rights_below_trans: "rights_meet a b = a \<Longrightarrow> rights_meet b c = b \<Longrightarrow> rights_meet a c = a"
  by (metis rights_meet_simps(2))

lemma object_kind:
  assumes "object_of d = object_of c" "object_of c \<noteq> None"
  shows "is_ReplyCap d = is_ReplyCap c" "is_EndpointCap d = is_EndpointCap c" "is_NotificationCap d = is_NotificationCap c"
  using assms by (auto simp: object_of_def split: cap.splits)

lemma no_more_than_trans:
  assumes ab: "no_more_than a b" and bc: "no_more_than b c"
  shows "no_more_than a c"
proof (cases "object_of c = None")
  case True
  then show ?thesis using ab bc by (auto simp: no_more_than_def)
next
  case False
  then show ?thesis
    using ab bc object_kind [of b c] rights_below_trans [of "conveyed a" "conveyed b" "conveyed c"]
    by (auto simp: no_more_than_def)
qed

lemma mask_no_more: "no_more_than (maskCapRights r c) c \<or> is_ReplyCap c"
  by (auto simp: no_more_than_def object_of_def rights_meet_def conveyed_def maskCapRights_def Arch_maskCapRights_def maskVMRights_def
      arch_object_of_def VMKernelOnly_def VMReadOnly_def VMReadWrite_def split: cap.split arch_cap.split)

lemma updateCapData_no_more: "updateCapData pr w c \<noteq> NullCap \<Longrightarrow> no_more_than (updateCapData pr w c) c"
  by (auto simp: updateCapData_def no_more_than_def object_of_def conveyed_def rights_meet_def Let_def split: cap.splits if_splits)

lemma deriveCap_no_more:
  "deriveCap slot c s = Some (EXCEPTION_NONE, d, s') \<Longrightarrow> d \<noteq> NullCap \<Longrightarrow> no_more_than d c \<and> \<not> is_ReplyCap c \<and> conveyed d = conveyed c"
  by (auto simp: deriveCap_def Arch_deriveCap_def Mode_deriveCap_def derive_mapped_def bind_eq_Some_conv no_more_than_refl
        no_more_than_def object_of_def arch_object_of_def conveyed_def rights_meet_simps
      split: cap.splits arch_cap.splits if_splits)

lemma isCapRevocable_derived: "no_more_than d c \<Longrightarrow> isCapRevocable d c \<noteq> None"
  by (cases d; cases c; simp add: no_more_than_def object_of_def isCapRevocable_def)

lemma conveyed_updateCapData: "updateCapData pr w c \<noteq> NullCap \<Longrightarrow> conveyed (updateCapData pr w c) = conveyed c"
  by (auto simp: updateCapData_def conveyed_def Let_def split: cap.splits if_splits)

lemma conveyed_mask_within: "rights_meet (conveyed (maskCapRights r c)) r = conveyed (maskCapRights r c)"
  using maskCapRights_conveyed [of r c] rights_meet_simps by metis

lemma is_ReplyCap_mask: "is_ReplyCap (maskCapRights r c) = is_ReplyCap c"
  by (simp add: maskCapRights_def Arch_maskCapRights_def split: cap.split arch_cap.split)

text \<open>What Copy and Mint make of a capability, with and without new data.\<close>

lemma derive_masked:
  assumes "deriveCap slot x s = Some (EXCEPTION_NONE, d, s')" "d \<noteq> NullCap"
    and "x = maskCapRights r c \<or> x = updateCapData False w (maskCapRights r c)"
  shows "no_more_than d c \<and> rights_meet (conveyed d) r = conveyed d"
proof -
  let ?m = "maskCapRights r c"
  have d: "no_more_than d x" "\<not> is_ReplyCap x" "conveyed d = conveyed x" using deriveCap_no_more [OF assms(1,2)] by auto
  have "x \<noteq> NullCap" using assms(1,2) by (auto simp: deriveCap_def)
  then have x: "no_more_than x ?m" "conveyed x = conveyed ?m"
    using assms(3) updateCapData_no_more conveyed_updateCapData no_more_than_refl by auto
  then have "\<not> is_ReplyCap ?m" using d(2) by (auto simp: no_more_than_def)
  then have "no_more_than ?m c" using mask_no_more [of r c] by (simp add: is_ReplyCap_mask)
  then show ?thesis using d x no_more_than_trans conveyed_mask_within by metis
qed

lemma newCap_ok:
  assumes "decodeCNode_newCap label len src buffer s = Some (EXCEPTION_NONE, d, mv, s')" "d \<noteq> NullCap"
  shows "\<exists>e. ctes s src = Some e \<and> no_more_than d (cteCap e) \<and> ctes s' = ctes s
    \<and> (mv \<longleftrightarrow> label = CNodeMove \<or> label = CNodeMutate) \<and> (label = CNodeMove \<longrightarrow> d = cteCap e)
    \<and> (\<not> mv \<longrightarrow> (\<exists>w. getSyscallArg 4 buffer s = Some w \<and> rights_meet (conveyed d) (rightsFromWord w) = conveyed d))"
proof -
  obtain e where e: "ctes s src = Some e" using assms(1) by (auto simp: decodeCNode_newCap_def bind_eq_Some_conv)
  consider (copy) w x cd where "\<not> mv" "label = CNodeCopy \<or> label = CNodeMint" "getSyscallArg 4 buffer s = Some w"
      "deriveCap src x s = Some (EXCEPTION_NONE, d, s')"
      "x = maskCapRights (rightsFromWord w) (cteCap e) \<or> x = updateCapData False cd (maskCapRights (rightsFromWord w) (cteCap e))"
    | (move) w where "mv" "label = CNodeMove \<or> label = CNodeMutate" "s' = s" "label = CNodeMove \<longrightarrow> d = cteCap e"
      "d = cteCap e \<or> d = updateCapData True w (cteCap e)"
    using assms(1) e by (auto simp: decodeCNode_newCap_def bind_eq_Some_conv Let_def cnode_labels split: if_splits)
  then show ?thesis
  proof cases
    case copy
    then show ?thesis
      using e derive_masked [OF copy(4) assms(2) copy(5)] deriveCap_frame [OF copy(4)] by (auto simp: cnode_labels)
  next
    case move
    then show ?thesis using e assms(2) updateCapData_no_more no_more_than_refl by auto
  qed
qed

lemma newCap_frame: "decodeCNode_newCap label len src buffer s = Some (st, d, mv, s') \<Longrightarrow> ctes s' = ctes s"
  using deriveCap_frame by (fastforce simp: decodeCNode_newCap_def bind_eq_Some_conv Let_def split: if_splits)

text \<open>An error leaves the slots as they were.\<close>

lemma copy_error: "keeps_on_error (ctes s) (decodeCNode_copy label len dest buffer s)"
  unfolding decodeCNode_copy_def invokeCNodeMove_def invokeCNodeInsert_def lookupSourceSlot_def
  by (intro keeps_intros; clarsimp dest!: ensureEmptySlot_frame lookupSlot_ctes newCap_frame)

text \<open>A success: the slots named by the arguments, the derived capability and the result of
  inserting or moving it.\<close>

definition derives_to :: "cte_heap \<Rightarrow> ptr list list \<Rightarrow> u64 \<Rightarrow> ptr \<Rightarrow> ptr \<Rightarrow> cap \<Rightarrow> cte_heap \<Rightarrow> bool" where
  "derives_to h xss label src dest d h' \<longleftrightarrow> (\<exists>c. caps_of h src = Some c \<and> c \<noteq> NullCap \<and> caps_of h dest = Some NullCap
     \<and> d \<noteq> NullCap \<and> no_more_than d c \<and> (label = CNodeMove \<longrightarrow> d = c)
     \<and> (if label = CNodeMove \<or> label = CNodeMutate
        then mdb_rel h' (map (map (exchange src dest)) xss) \<and> caps_of h' = (caps_of h)(src \<mapsto> NullCap, dest \<mapsto> d)
        else mdb_rel h' (map (insert_after src dest) xss) \<and> caps_of h' = (caps_of h)(src \<mapsto> as_full c d, dest \<mapsto> d)))"

lemma listed: "mdb_rel h xss \<Longrightarrow> h x = Some c \<Longrightarrow> x \<in> set (concat xss) \<longleftrightarrow> cteCap c \<noteq> NullCap"
  using mdb_relD(4) [of h xss x c] by (simp add: slot_ok_def split: if_splits)

lemma copy_derives:
  assumes rel: "mdb_rel (ctes s) xss" and run: "decodeCNode_copy label len dest buffer s = Some (EXCEPTION_NONE, s')"
  shows "\<exists>i n root src d. getSyscallArg 2 buffer s = Some i \<and> getSyscallArg 3 buffer s = Some n
    \<and> ctes s (current_extra_caps s 0) = Some root \<and> lookupSourceSlot (cteCap root) i n s = Some (EXCEPTION_NONE, src, s)
    \<and> derives_to (ctes s) xss label src dest d (ctes s')
    \<and> (label = CNodeCopy \<or> label = CNodeMint \<longrightarrow>
        (\<exists>w. getSyscallArg 4 buffer s = Some w \<and> rights_meet (conveyed d) (rightsFromWord w) = conveyed d))"
proof -
  obtain i n root s1 src s2 e d mv s3 s4 where d:
    "getSyscallArg 2 buffer s = Some i" "getSyscallArg 3 buffer s = Some n" "ctes s (current_extra_caps s 0) = Some root"
    "ensureEmptySlot dest s = Some (EXCEPTION_NONE, s1)" "lookupSourceSlot (cteCap root) i n s1 = Some (EXCEPTION_NONE, src, s2)"
    "ctes s2 src = Some e" "cteCap e \<noteq> NullCap" "decodeCNode_newCap label len src buffer s2 = Some (EXCEPTION_NONE, d, mv, s3)"
    "d \<noteq> NullCap" "setThreadState (ksCurThread s3) ThreadState_Restart s3 = Some s4"
    "(if mv then invokeCNodeMove d src dest s4 else invokeCNodeInsert d src dest s4) = Some (EXCEPTION_NONE, s')"
    using run
    by (simp only: decodeCNode_copy_def bind_eq_Some_conv error_branch split_paired_Ex case_prod_conv) blast
  have s: "s1 = s" "s2 = s" using ensureEmptySlot_frame [OF d(4)] lookupSourceSlot_ok [OF d(5)] by auto
  obtain e0 where dest: "ctes s dest = Some e0" "cteCap e0 = NullCap"
    using d(4) by (auto simp: ensureEmptySlot_def bind_eq_Some_conv split: if_splits)
  note src = d(6,7) [unfolded s]
  note new = newCap_ok [OF d(8,9), unfolded s]
  have h: "ctes s4 = ctes s" using new setThreadState_Restart_ctes [OF d(10)] by auto
  have places: "src \<in> set (concat xss)" "dest \<notin> set (concat xss)" using listed [OF rel] src dest by auto
  have "derives_to (ctes s) xss label src dest d (ctes s')"
  proof (cases mv)
    case True
    then have "cteMove_heap d src dest (ctes s) = Some (ctes s')"
      using d(11) h by (auto simp: invokeCNodeMove_def cteMove_def on_ctes_def bind_eq_Some_conv)
    then show ?thesis
      using True new d(9) src dest cteMove_heap_refines [OF rel places dest(1) d(9)]
      by (auto simp: derives_to_def caps_of_def)
  next
    case False
    then have run: "cteInsert_heap d src dest (ctes s) = Some (ctes s')"
      using d(11) h by (auto simp: invokeCNodeInsert_def cteInsert_def on_ctes_def bind_eq_Some_conv)
    obtain r where "isCapRevocable d (cteCap e) = Some r" using new src isCapRevocable_derived by auto
    from cteInsert_heap_refines [OF rel places(1) src(1) places(2) dest(1) d(9) this]
    show ?thesis using run False new d(9) src dest by (auto simp: derives_to_def caps_of_def)
  qed
  moreover have "label = CNodeCopy \<or> label = CNodeMint \<longrightarrow> \<not> mv" using new by (auto simp: cnode_labels)
  ultimately show ?thesis using d(1-3,5) new unfolding s by blast
qed

section \<open>The operations return\<close>

text \<open>The arguments can be read and the lookups find slots or report an error.\<close>

definition found :: "kstate \<Rightarrow> (exception \<times> ptr \<times> kstate) option \<Rightarrow> bool" where
  "found s m = (case m of None \<Rightarrow> False | Some (st, slot, s') \<Rightarrow> st \<noteq> EXCEPTION_NONE \<or> ctes s slot \<noteq> None)"

definition args_ready :: "cap \<Rightarrow> ptr \<Rightarrow> kstate \<Rightarrow> bool" where
  "args_ready c buffer s \<longleftrightarrow> (\<exists>a b i n x y root. getSyscallArg 0 buffer s = Some a \<and> getSyscallArg 1 buffer s = Some b
     \<and> getSyscallArg 2 buffer s = Some i \<and> getSyscallArg 3 buffer s = Some n
     \<and> getSyscallArg 4 buffer s = Some x \<and> getSyscallArg 5 buffer s = Some y
     \<and> ctes s (current_extra_caps s 0) = Some root
     \<and> found s (lookupTargetSlot c a b s) \<and> found s (lookupSourceSlot (cteCap root) i n s))"

definition sizes_ok :: "cte_heap \<Rightarrow> bool" where
  "sizes_ok h \<longleftrightarrow> (\<forall>x c. caps_of h x = Some c \<longrightarrow> cap_get_capSizeBits c \<noteq> None)"

lemma Arch_sameRegionAs_total:
  "cap_get_archCapSizeBits a \<noteq> None \<Longrightarrow> cap_get_archCapSizeBits b \<noteq> None \<Longrightarrow> Arch_sameRegionAs a b \<noteq> None"
  by (cases a; cases b) (auto simp: Arch_sameRegionAs_def cap_get_archCapSizeBits_def Let_def)

lemma sameRegionAs_total:
  "cap_get_capSizeBits a \<noteq> None \<Longrightarrow> cap_get_capSizeBits b \<noteq> None \<Longrightarrow> sameRegionAs a b \<noteq> None"
  using Arch_sameRegionAs_total
  by (cases a) (auto simp: sameRegionAs_def cap_get_capSizeBits_def [of "ArchObjectCap _"] Let_def split: cap.split)

lemma isMDBParentOf_total:
  assumes "cap_get_capSizeBits (cteCap a) \<noteq> None" "cap_get_capSizeBits (cteCap b) \<noteq> None"
  shows "isMDBParentOf a b \<noteq> None"
proof -
  obtain r where "sameRegionAs (cteCap a) (cteCap b) = Some r" using sameRegionAs_total [OF assms] by auto
  then show ?thesis by (simp add: isMDBParentOf_def ex_bool_eq split: cap.split)
qed

lemma deriveCap_total:
  assumes "mdb_rel (ctes s) xss" "sizes_ok (ctes s)" "ctes s slot = Some e"
  shows "deriveCap slot c s \<noteq> None"
proof -
  have "ensureNoChildren slot s \<noteq> None"
  proof (cases "mdbNext (cteMDBNode e) = 0")
    case False
    then obtain n where n: "ctes s (mdbNext (cteMDBNode e)) = Some n" using mdb_no_cycle [OF assms(1,3)] by auto
    then have "caps_of (ctes s) (mdbNext (cteMDBNode e)) = Some (cteCap n)" "caps_of (ctes s) slot = Some (cteCap e)"
      using assms(3) by (simp_all add: caps_of_def)
    then have "isMDBParentOf e n \<noteq> None" using assms(2) isMDBParentOf_total unfolding sizes_ok_def by blast
    then show ?thesis using assms(3) False n by (auto simp: ensureNoChildren_def)
  qed (use assms(3) in \<open>simp add: ensureNoChildren_def\<close>)
  then show ?thesis
    by (auto simp: deriveCap_def Arch_deriveCap_def Mode_deriveCap_def derive_mapped_def split: cap.split arch_cap.split)
qed

lemma setThreadState_Restart_total: "tcbs s t \<noteq> None \<Longrightarrow> setThreadState t ThreadState_Restart s \<noteq> None"
  by (auto simp: setThreadState_def scheduleTCB_def tcb_upd_def isRunnable_def heap_upd_def)

lemma newCap_total:
  assumes "mdb_rel (ctes s) xss" "sizes_ok (ctes s)" "ctes s src = Some e" "CNodeCopy \<le> label" "label \<le> CNodeMutate"
    and "getSyscallArg 4 buffer s = Some x" "getSyscallArg 5 buffer s = Some y"
  shows "\<exists>st d mv s'. decodeCNode_newCap label len src buffer s = Some (st, d, mv, s') \<and> tcbs s' = tcbs s \<and> ksCurThread s' = ksCurThread s"
proof -
  have derive: "\<exists>st d s'. deriveCap src c s = Some (st, d, s') \<and> tcbs s' = tcbs s \<and> ksCurThread s' = ksCurThread s" for c
    using deriveCap_total [OF assms(1-3), of c] deriveCap_frame by fastforce
  have "label = CNodeCopy \<or> label = CNodeMint \<or> label = CNodeMove \<or> label = CNodeMutate"
  proof -
    have "unat label = 20 \<or> unat label = 21 \<or> unat label = 22 \<or> unat label = 23"
      using assms(4,5) by (auto simp: cnode_labels word_le_nat_alt)
    then show ?thesis by (auto simp: cnode_labels word_unat_eq_iff)
  qed
  then show ?thesis
    using derive [of "maskCapRights (rightsFromWord x) (cteCap e)"]
      derive [of "updateCapData False y (maskCapRights (rightsFromWord x) (cteCap e))"] assms(3,6,7)
    by (elim disjE) (auto simp: decodeCNode_newCap_def cnode_labels Let_def)
qed

lemma copy_total:
  assumes rel: "mdb_rel (ctes s) xss" and sizes: "sizes_ok (ctes s)" and label: "CNodeCopy \<le> label" "label \<le> CNodeMutate"
    and args: "getSyscallArg 2 buffer s = Some i" "getSyscallArg 3 buffer s = Some n"
      "getSyscallArg 4 buffer s = Some x" "getSyscallArg 5 buffer s = Some y" "ctes s (current_extra_caps s 0) = Some root"
    and src: "found s (lookupSourceSlot (cteCap root) i n s)" and dest: "ctes s dest = Some e0" and cur: "tcbs s (ksCurThread s) \<noteq> None"
  shows "decodeCNode_copy label len dest buffer s \<noteq> None"
proof (cases "cteCap e0 = NullCap \<and> (\<exists>src s2 e. lookupSourceSlot (cteCap root) i n s = Some (EXCEPTION_NONE, src, s2)
    \<and> ctes s src = Some e \<and> cteCap e \<noteq> NullCap)")
  case False
  obtain st slot s2 where look: "lookupSourceSlot (cteCap root) i n s = Some (st, slot, s2)" "st = EXCEPTION_NONE \<longrightarrow> ctes s slot \<noteq> None"
    using src by (auto simp: found_def split: option.splits)
  then have "st = EXCEPTION_NONE \<longrightarrow> s2 = s" using lookupSourceSlot_ok by blast
  then show ?thesis using False args dest look by (auto simp: decodeCNode_copy_def ensureEmptySlot_def)
next
  case True
  then obtain src e where e: "lookupSourceSlot (cteCap root) i n s = Some (EXCEPTION_NONE, src, s)" "ctes s src = Some e"
    "cteCap e \<noteq> NullCap" "cteCap e0 = NullCap" using lookupSourceSlot_ok by blast
  obtain st d mv s3 where new: "decodeCNode_newCap label len src buffer s = Some (st, d, mv, s3)" "tcbs s3 = tcbs s" "ksCurThread s3 = ksCurThread s"
    using newCap_total [OF rel sizes e(2) label args(3,4)] by blast
  show ?thesis
  proof (cases "st = EXCEPTION_NONE \<and> d \<noteq> NullCap")
    case False
    then show ?thesis using args dest e new by (auto simp: decodeCNode_copy_def ensureEmptySlot_def)
  next
    case True
    then have ok: "no_more_than d (cteCap e)" "ctes s3 = ctes s" using newCap_ok [of label len src buffer s d mv s3] new e by auto
    obtain s4 where s4: "setThreadState (ksCurThread s3) ThreadState_Restart s3 = Some s4"
      using setThreadState_Restart_total [of s3] cur new by force
    have h: "ctes s4 = ctes s" using setThreadState_Restart_ctes [OF s4] ok by simp
    have places: "src \<in> set (concat xss)" "dest \<notin> set (concat xss)" using listed [OF rel] e dest by auto
    obtain r where r: "isCapRevocable d (cteCap e) = Some r" using ok isCapRevocable_derived by blast
    have d: "d \<noteq> NullCap" using True by simp
    obtain h1 h2 where "cteMove_heap d src dest (ctes s) = Some h1" "cteInsert_heap d src dest (ctes s) = Some h2"
      using cteMove_heap_refines [OF rel places dest d] cteInsert_heap_refines [OF rel places(1) e(2) places(2) dest d r] by blast
    then show ?thesis using True args dest e new s4 h
      by (auto simp: decodeCNode_copy_def ensureEmptySlot_def invokeCNodeMove_def invokeCNodeInsert_def cteMove_def cteInsert_def on_ctes_def)
  qed
qed

section \<open>The whole invocation\<close>

lemma copy_labels:
  assumes "CNodeCopy \<le> label" "label \<le> CNodeMutate"
  shows "\<not> (label < CNodeRevoke \<or> label > CNODE_LAST_INVOCATION)"
  using assms by (simp add: cnode_labels word_less_nat_alt word_le_nat_alt)

lemma decode_copy:
  assumes "CNodeCopy \<le> label" "label \<le> CNodeMutate"
    and "decodeCNodeInvocation label len c buffer s = Some (EXCEPTION_NONE, s')"
  shows "\<exists>a b dest. getSyscallArg 0 buffer s = Some a \<and> getSyscallArg 1 buffer s = Some b
    \<and> lookupTargetSlot c a b s = Some (EXCEPTION_NONE, dest, s) \<and> decodeCNode_copy label len dest buffer s = Some (EXCEPTION_NONE, s')"
proof -
  obtain a b dest s1 where "getSyscallArg 0 buffer s = Some a" "getSyscallArg 1 buffer s = Some b"
    "lookupTargetSlot c a b s = Some (EXCEPTION_NONE, dest, s1)" "decodeCNode_copy label len dest buffer s1 = Some (EXCEPTION_NONE, s')"
    using assms
    by (simp only: decodeCNodeInvocation_def bind_eq_Some_conv error_branch split_paired_Ex case_prod_conv simp_thms if_True) blast
  then show ?thesis using lookupTargetSlot_ok by blast
qed

lemma decode_error:
  assumes "CNodeCopy \<le> label" "label \<le> CNodeMutate"
  shows "keeps_on_error (ctes s) (decodeCNodeInvocation label len c buffer s)"
proof -
  have copy: "keeps_on_error (ctes s) (decodeCNode_copy label len dest buffer s')" if "ctes s' = ctes s" for dest s'
    using copy_error [of s' label len dest buffer] that by simp
  show ?thesis
    unfolding decodeCNodeInvocation_def lookupTargetSlot_def using assms
    by (intro keeps_intros; clarsimp dest!: lookupSlot_ctes simp: copy)
qed

lemma decode_total:
  assumes "mdb_rel (ctes s) xss" "CNodeCopy \<le> label" "label \<le> CNodeMutate"
    and "is_CNodeCap c" "args_ready c buffer s" "sizes_ok (ctes s)" "tcbs s (ksCurThread s) \<noteq> None"
  shows "decodeCNodeInvocation label len c buffer s \<noteq> None"
proof -
  obtain a b i n x y root st dest s1 where r: "getSyscallArg 0 buffer s = Some a" "getSyscallArg 1 buffer s = Some b"
    "getSyscallArg 2 buffer s = Some i" "getSyscallArg 3 buffer s = Some n" "getSyscallArg 4 buffer s = Some x" "getSyscallArg 5 buffer s = Some y"
    "ctes s (current_extra_caps s 0) = Some root" "found s (lookupSourceSlot (cteCap root) i n s)"
    "lookupTargetSlot c a b s = Some (st, dest, s1)" "st = EXCEPTION_NONE \<longrightarrow> ctes s dest \<noteq> None"
    using assms(5) by (auto simp: args_ready_def found_def split: option.splits)
  have "\<exists>e. ctes s dest = Some e \<and> s1 = s" if "st = EXCEPTION_NONE" using that r(9,10) lookupTargetSlot_ok by blast
  then have "decodeCNode_copy label len dest buffer s1 \<noteq> None" if "st = EXCEPTION_NONE"
    using that copy_total [OF assms(1,6,2,3) r(3-8) _ assms(7)] by blast
  then show ?thesis using assms(2-4) r copy_labels [OF assms(2,3)] by (auto simp: decodeCNodeInvocation_def)
qed

section \<open>No amplification\<close>

text \<open>C22. CNode_Copy, CNode_Mint, CNode_Move and CNode_Mutate never create authority. An invocation that
  reports an error leaves all slots unchanged. One that succeeds found an occupied source slot and an empty
  destination slot at the addresses given by its arguments; the destination slot then holds a
  capability to the object of the source with no more rights, with the badge of the source if that has one, and for
  Copy and Mint with no more rights than the mask given. Copy and Mint keep the source (untyped memory that is copied counts as
  used up) and enter the destination behind it in the derivation database; Move and Mutate empty
  the source and give the destination its place; Move keeps the capability as it is. No other capability changes. The
  invocation returns whenever its arguments can be read, its lookups find slots and the sizes of frames are
  valid.\<close>

theorem cnode_ops_no_amplification:
  assumes "mdb_rel (ctes s) xss" "CNodeCopy \<le> label" "label \<le> CNodeMutate"
  shows "(\<forall>st s'. decodeCNodeInvocation label len c buffer s = Some (st, s') \<longrightarrow>
      (if st \<noteq> EXCEPTION_NONE then ctes s' = ctes s
       else \<exists>a b i n root src dest d. getSyscallArg 0 buffer s = Some a \<and> getSyscallArg 1 buffer s = Some b
         \<and> getSyscallArg 2 buffer s = Some i \<and> getSyscallArg 3 buffer s = Some n \<and> ctes s (current_extra_caps s 0) = Some root
         \<and> lookupTargetSlot c a b s = Some (EXCEPTION_NONE, dest, s)
         \<and> lookupSourceSlot (cteCap root) i n s = Some (EXCEPTION_NONE, src, s)
         \<and> derives_to (ctes s) xss label src dest d (ctes s')
         \<and> (label = CNodeCopy \<or> label = CNodeMint \<longrightarrow>
             (\<exists>w. getSyscallArg 4 buffer s = Some w \<and> rights_meet (conveyed d) (rightsFromWord w) = conveyed d))))
    \<and> (is_CNodeCap c \<and> args_ready c buffer s \<and> sizes_ok (ctes s) \<and> tcbs s (ksCurThread s) \<noteq> None
         \<longrightarrow> decodeCNodeInvocation label len c buffer s \<noteq> None)"
proof (intro conjI allI impI, goal_cases)
  case (1 st s')
  show ?case
  proof (cases "st = EXCEPTION_NONE")
    case False
    then show ?thesis using decode_error [of label] assms(2,3) 1 by (simp add: keeps_on_error_def)
  next
    case True
    then obtain a b dest where d: "getSyscallArg 0 buffer s = Some a" "getSyscallArg 1 buffer s = Some b"
      "lookupTargetSlot c a b s = Some (EXCEPTION_NONE, dest, s)" "decodeCNode_copy label len dest buffer s = Some (EXCEPTION_NONE, s')"
      using decode_copy [OF assms(2,3)] 1 by blast
    from copy_derives [OF assms(1) d(4)] d(1-3) True show ?thesis by simp
  qed
next
  case 2
  then show ?case using decode_total assms by blast
qed

text \<open>A thread mints a receive-only capability with badge 7 from the unbadged endpoint capability in slot 0
  of its CNode into slot 1.\<close>

definition mint_example :: kstate where
  "mint_example = ks0\<lparr>
     ksCurThread := 0x10400,
     tcbs := [0x10400 \<mapsto> tcb0\<lparr>tcbContext := (\<lambda>r. if r = R10 then 1 else if r = R8 \<or> r = R15 then 2 else 0)\<rparr>],
     ctes := [0x7000 \<mapsto> \<lparr>cteCap = CNodeCap 2 0 0 0x8000, cteMDBNode = nullMDBNode\<rparr>,
              0x8000 \<mapsto> \<lparr>cteCap = EndpointCap 0 True True True True 0x9000,
                          cteMDBNode = nullMDBNode\<lparr>mdbRevocable := True, mdbFirstBadged := True\<rparr>\<rparr>,
              0x8020 \<mapsto> \<lparr>cteCap = NullCap, cteMDBNode = nullMDBNode\<rparr>],
     current_extra_caps := (\<lambda>i. if i = 0 then 0x7000 else 0),
     user_mem := (\<lambda>a. Some (if a = 4096 + 8 * 5 then 2 else if a = 4096 + 8 * 6 then 7 else 0))\<rparr>"

lemma mint_example_args:
  "getSyscallArg 0 4096 mint_example = Some 1" "getSyscallArg 1 4096 mint_example = Some 2"
  "getSyscallArg 2 4096 mint_example = Some 0" "getSyscallArg 3 4096 mint_example = Some 2"
  "getSyscallArg 4 4096 mint_example = Some 2" "getSyscallArg 5 4096 mint_example = Some 7"
  "map_option (\<lambda>(st, slot, s). (st, slot)) (lookupTargetSlot (CNodeCap 2 0 0 0x8000) 1 2 mint_example) = Some (EXCEPTION_NONE, 0x8020)"
  "map_option (\<lambda>(st, slot, s). (st, slot)) (lookupSourceSlot (CNodeCap 2 0 0 0x8000) 0 2 mint_example) = Some (EXCEPTION_NONE, 0x8000)"
  "map_option fst (decodeCNodeInvocation CNodeMint 6 (CNodeCap 2 0 0 0x8000) 4096 mint_example) = Some EXCEPTION_NONE"
  by code_simp+

theorem cnode_ops_no_amplification_witness:
  "\<exists>s' d. decodeCNodeInvocation CNodeMint 6 (CNodeCap 2 0 0 0x8000) 4096 mint_example = Some (EXCEPTION_NONE, s')
    \<and> mdb_rel (ctes s') [[0x7000], [0x8000, 0x8020]] \<and> caps_of (ctes s') 0x8020 = Some d
    \<and> no_more_than d (EndpointCap 0 True True True True 0x9000)
    \<and> rights_meet (conveyed d) (rightsFromWord 2) = conveyed d"
proof -
  let ?c = "CNodeCap 2 0 0 0x8000"
  have rel: "mdb_rel (ctes mint_example) [[0x7000], [0x8000]]"
    by (auto simp: mdb_rel_def mint_example_def dll_def slot_ok_def unlinked_def nullMDBNode_def split: if_splits)
  have slots: "ctes mint_example (current_extra_caps mint_example 0) = Some \<lparr>cteCap = ?c, cteMDBNode = nullMDBNode\<rparr>"
    "caps_of (ctes mint_example) 0x8000 = Some (EndpointCap 0 True True True True 0x9000)" "ctes mint_example 0x8020 \<noteq> None"
    by (simp_all add: mint_example_def caps_of_def)
  have l: "CNodeCopy \<le> CNodeMint" "CNodeMint \<le> CNodeMutate" by (simp_all add: cnode_labels)
  have "args_ready ?c 4096 mint_example"
    using mint_example_args slots by (auto simp: args_ready_def found_def caps_of_def)
  moreover have "sizes_ok (ctes mint_example)" "tcbs mint_example (ksCurThread mint_example) \<noteq> None"
    by (auto simp: sizes_ok_def mint_example_def caps_of_def cap_get_capSizeBits_def split: if_splits)
  ultimately obtain s' where run: "decodeCNodeInvocation CNodeMint 6 ?c 4096 mint_example = Some (EXCEPTION_NONE, s')"
    using cnode_ops_no_amplification [OF rel l, of 6 ?c 4096] mint_example_args(9) by auto
  then obtain src dest d where d: "lookupTargetSlot ?c 1 2 mint_example = Some (EXCEPTION_NONE, dest, mint_example)"
    "lookupSourceSlot ?c 0 2 mint_example = Some (EXCEPTION_NONE, src, mint_example)"
    "derives_to (ctes mint_example) [[0x7000], [0x8000]] CNodeMint src dest d (ctes s')"
    "rights_meet (conveyed d) (rightsFromWord 2) = conveyed d"
    using cnode_ops_no_amplification [OF rel l, of 6 ?c 4096] mint_example_args(1-5) slots(1) by fastforce
  then have "src = 0x8000" "dest = 0x8020" using mint_example_args(7,8) by auto
  then show ?thesis using run d(3,4) slots by (auto simp: derives_to_def cnode_labels insert_after_def)
qed

end
