(* ===== verification/Spec2Isabelle.thy ===== *)
theory Spec2Isabelle
  imports HK_Interleaving HK_Mutator HK_Pool K_String K_Schedule K_Mdb_Ops K_Endpoint K_Fault K_Untyped K_Revoke K_Authority
begin

text \<open>
  Heuristic OS (hk_system): a verification library for the application components of the system
  and for the parts of the seL4 kernel they run on.

  \<^bold>\<open>The program.\<close> The system (src/projects/camkes/apps/hk_system) consists of nine CAmkES
  components that run on the seL4 kernel (src/kernel). The AdminConsole asks the Dispatcher for a
  mutation. The Dispatcher has the Generator synthesise a variant of a machine code payload in
  shared memory. The Generator has the Repository register it. The Repository hashes the payload,
  has the fTPM sign the hash and stores identifier, size and signature. The Dispatcher hashes the
  payload again, has the fTPM check the signature, copies the payload into the arena of the Worker
  and has the Worker execute it. The VirtualFileSystem serves the POSIX layer of the Worker, the
  Scheduler emits ticks, the Verifier does nothing. A pass for LLVM and a Python script produce a
  pool of variants when the system is built. Every call between components is a system call of
  the kernel on an endpoint or a notification that a capability names.

  \<^bold>\<open>Conventions.\<close> C integers are words of their width, so that wrap-around is part of the model.
  Stateful code passes its state explicitly and returns an option: \<^const>\<open>None\<close> is a page fault, a
  failed assertion, undefined behaviour, or a loop that does not end. Loops that the source does
  not bound are partial functions in the option monad; their theorems state that they return.
  Errors the source reports are values of the state and of the returned status. Code outside the
  sources (hardware, LLVM, external programs, formatted output) is an argument of the definitions.

  \<^bold>\<open>The components.\<close>
  \<^item> \<open>HK_Prelude\<close>, \<open>HK_State\<close>: shared memory regions, the byte loops of memcpy and memset, the state
    of the assembly (hk_system.camkes).
  \<^item> \<open>HK_Sha256\<close>, \<open>HK_Fips180\<close>, \<open>HK_Tpm\<close>: the fTPM (tpm.c). The streaming SHA-256 equals the digest
    of FIPS 180-4, which is written from the standard; signing is the truncated HMAC of RFC 2104;
    verification accepts exactly the signature that signing returns.
  \<^item> \<open>HK_Jenkins\<close>, \<open>HK_Repository\<close>: the hash the sources contain three times (locale \<open>jenkins_loop\<close>,
    one interpretation per copy) and the registration of a variant (repository.c).
  \<^item> \<open>HK_X86\<close>, \<open>HK_Generator\<close>, \<open>HK_Worker\<close>: an interpreter of the emitted instructions, the random
    number generator and the synthesis (generator.c), the execution of the arena (worker.c). The
    interpreter has 4097 units of fuel: the arena has 4096 bytes and the code is straight-line, so
    that it is never used up.
  \<^item> \<open>HK_Dispatcher\<close>, \<open>HK_System\<close>, \<open>HK_Interleaving\<close>: the attested injection and the transaction
    (dispatcher.c) over a locale \<open>attestation\<close>, the assembly and the console (admin.c). Every
    transaction completes with an attested variant that computes its constant; the arena only
    changes to a page whose payload is signed. The injection is also a step relation, which refines
    to the handler without interference and shows what a concurrent writer can do.
  \<^item> \<open>HK_Vfs\<close>, \<open>HK_Scheduler\<close>: the file server with the POSIX layer (vfs_server.c, posix_layer.c) and
    the timer (scheduler.c).
  \<^item> \<open>HK_Mutator\<close>, \<open>HK_Pool\<close>: the mutation pass (MutatorPass.cpp) preserves every run of a function;
    the pool generator (generate_pool.py) returns five accepted variants or does not end.

  \<^bold>\<open>The kernel\<close>, in the configuration of the system: x86_64, one processor, one domain, no
  scheduling contexts, no VT-x, no IOMMU.
  \<^item> \<open>K_String\<close>, \<open>K_Bits\<close>: the helpers of util.c; counting zeros finds the extreme bits.
  \<^item> \<open>K_Dll\<close>, \<open>K_State\<close>, \<open>K_Queue\<close>: kernel objects in typed heaps, and doubly linked lists. The locale
    \<open>links\<close> states what a pair of link fields provides; it is interpreted for the scheduler links,
    the endpoint links and the derivation links.
  \<^item> \<open>K_Sched\<close>, \<open>K_Schedule\<close>: ready queues with their bitmap refine lists of threads; schedule ends
    with a best thread running.
  \<^item> \<open>K_CSpace\<close>, \<open>K_Cap\<close>: address resolution is resolution of bit strings; rights only shrink.
  \<^item> \<open>K_Mdb\<close>, \<open>K_Mdb_Lists\<close>, \<open>K_Mdb_Ops\<close>: the operations on slots (cnode.c) refine operations on the
    lists of the derivation database.
  \<^item> \<open>K_Notification\<close>, \<open>K_Cancel\<close>, \<open>K_Signal\<close>: notifications and the cancellation of IPC.
  \<^item> \<open>K_Message\<close>, \<open>K_Ipc\<close>, \<open>K_Transfer\<close>, \<open>K_Endpoint\<close>, \<open>K_Fault\<close>: messages, their transfer, endpoints
    as a rendezvous in order of arrival, and faults as messages.
  \<^item> \<open>K_Retype\<close>, \<open>K_Untyped\<close>: creation of objects and preemption; retyping stays within the free part
    of the untyped region.
  \<^item> \<open>K_Decode\<close>: what the decoders of invocations share.
  \<^item> \<open>K_CNode\<close>, \<open>K_Authority\<close>: the invocations of CNodes; copying, minting, moving and mutating never
    create authority.
  \<^item> \<open>K_Delete\<close>, \<open>K_Revoke\<close>: finalisation, zombies, deletion and revocation; revoking ends and removes
    the descendants, deleting a CNode ends and empties its slots, with every preemption in between.

  \<^bold>\<open>Not modelled.\<close> Console output. The page tables of the kernel, its boot code, trap entry, drivers
  and fast path: the modelled parts record their calls of this code in the list \<open>machine_ops\<close> of
  the kernel state. The parts of the kernel that the configuration leaves out (scheduling contexts,
  multiprocessor, other architectures). The third-party libraries of the repository (C library,
  network stacks, run-time and support libraries) and the CAmkES tool, whose effect is the
  instantiation of interface arguments. The Rust generator and the table of baked mutations, which
  no component links.
\<close>

end
